(* ===== verification/Prelude.thy ===== *)
theory Prelude
  imports Main "HOL-Library.Word" "HOL-Library.Monad_Syntax" "HOL-Library.Sublist"
    "HOL-Library.List_Lexorder" "HOL-Library.Char_ord"
begin

text \<open>
  Shared vocabulary of the development: the outcome of a Rust call that may panic, the machine
  integer types of the libc interface, the open and access flags, and generic lemmas on lists.

  A Rust function that may panic is modelled by a value of type \<open>'a outcome\<close>: \<open>Panic\<close> is
  unwinding, \<open>Done x\<close> is a normal return. It is the option type, so that the do-notation of
  \<open>Monad_Syntax\<close> propagates a panic as unwinding does. A method that changes the state \<open>'s\<close>
  returns the pair of its result and the new state.
\<close>

type_synonym 'a outcome = "'a option"

abbreviation (input) Done :: "'a \<Rightarrow> 'a outcome" where "Done \<equiv> Some"
abbreviation (input) Panic :: "'a outcome" where "Panic \<equiv> None"

type_synonym ('s, 'a) io = "'s \<Rightarrow> ('a \<times> 's) outcome"

unbundle bit_operations_syntax

section \<open>Machine integers and flags of the libc interface (Linux, x86-64)\<close>

type_synonym flags = "32 word"
type_synonym mode_t = "32 word"
type_synonym u64 = "64 word"
type_synonym byte = "8 word"
type_synonym fd = int

abbreviation (input) O_RDONLY :: flags where "O_RDONLY \<equiv> 0x0"
abbreviation (input) O_WRONLY :: flags where "O_WRONLY \<equiv> 0x1"
abbreviation (input) O_RDWR :: flags where "O_RDWR \<equiv> 0x2"
abbreviation (input) O_CREAT :: flags where "O_CREAT \<equiv> 0x40"
abbreviation (input) O_EXCL :: flags where "O_EXCL \<equiv> 0x80"
abbreviation (input) O_TRUNC :: flags where "O_TRUNC \<equiv> 0x200"
abbreviation (input) O_APPEND :: flags where "O_APPEND \<equiv> 0x400"
abbreviation (input) O_DIRECTORY :: flags where "O_DIRECTORY \<equiv> 0x10000"
abbreviation (input) O_NOFOLLOW :: flags where "O_NOFOLLOW \<equiv> 0x20000"
abbreviation (input) O_TMPFILE :: flags where "O_TMPFILE \<equiv> 0x410000"

abbreviation (input) F_OK :: int where "F_OK \<equiv> 0"
abbreviation (input) AT_FDCWD :: fd where "AT_FDCWD \<equiv> - 100"
abbreviation (input) AT_REMOVEDIR :: flags where "AT_REMOVEDIR \<equiv> 0x200"

abbreviation (input) S_IFREG :: mode_t where "S_IFREG \<equiv> 0x8000"
abbreviation (input) S_IFDIR :: mode_t where "S_IFDIR \<equiv> 0x4000"

text \<open>\<open>0o7777\<close>, the permission bits a node keeps of a mode, and \<open>0o755\<close>.\<close>

abbreviation (input) MODE_MASK :: mode_t where "MODE_MASK \<equiv> 0xFFF"
abbreviation (input) MODE_755 :: mode_t where "MODE_755 \<equiv> 0x1ED"

section \<open>Collections of rewrite rules\<close>

named_theorems path_simps \<open>equations of the path operations\<close>
named_theorems mem_simps \<open>equations of the in-memory file system's state\<close>
named_theorems vfs_simps \<open>equations of the mount dispatcher\<close>

text \<open>A run from its result: how a call on a concrete state is shown to return.\<close>

lemma io_run: "map_option fst x = Some r \<Longrightarrow> x = Done (r, snd (the x))"
  by (cases x) auto

lemma io_result: "map_option fst x = Some r \<Longrightarrow> \<exists>s. x = Done (r, s)"
  by (cases x) auto

section \<open>Lists\<close>

lemma butlast_snoc_eq: "xs \<noteq> [] \<Longrightarrow> butlast xs @ [last xs] = xs"
  by simp

lemma map_filter_append: "List.map_filter f (xs @ ys) = List.map_filter f xs @ List.map_filter f ys"
  by (simp add: List.map_filter_def)

lemma length_filter_map_fst: "length (filter (\<lambda>(a, b). P b) xs) = length (filter P (map snd xs))"
  by (induction xs) auto

lemma prefix_snoc_iff: "prefix xs (ys @ [y]) \<longleftrightarrow> xs = ys @ [y] \<or> prefix xs ys"
  by (rule prefix_snoc)

lemma not_prefix_append: "\<not> prefix xs ys \<Longrightarrow> prefix xs (ys @ zs) \<Longrightarrow> \<exists>us vs. us \<noteq> [] \<and> xs = ys @ us \<and> zs = us @ vs"
  by (auto simp: prefix_def append_eq_append_conv2)

text \<open>Association lists with distinct keys.\<close>

lemma map_of_Some_distinct:
  "distinct (map fst xs) \<Longrightarrow> map_of xs k = Some v \<longleftrightarrow> (k, v) \<in> set xs"
  by simp

end
