(* ===== verification/Kernel.thy ===== *)
theory Kernel
  imports Prelude
begin

text \<open>
  The host kernel and the C library below the program. They are not part of the repository, so
  the record \<open>kernel\<close> of their entry points is a parameter \<open>K\<close> of every definition that calls
  them; \<open>'k\<close> is the state they keep. Nothing is assumed of them here: a theorem that needs a
  call to succeed says so in a hypothesis.
\<close>

text \<open>The fields of \<open>libc::stat\<close> (the padding and the nanosecond parts aside).\<close>

record stat_buf =
  st_dev :: u64
  st_ino :: u64
  st_nlink :: nat
  st_mode :: mode_t
  st_uid :: "32 word"
  st_gid :: "32 word"
  st_rdev :: u64
  st_size :: int
  st_blksize :: int
  st_blocks :: int
  st_atime :: int
  st_mtime :: int
  st_ctime :: int

text \<open>\<open>std::mem::zeroed\<close> of a \<open>stat\<close>.\<close>

definition zeroed_stat :: stat_buf where
  "zeroed_stat = \<lparr>st_dev = 0, st_ino = 0, st_nlink = 0, st_mode = 0, st_uid = 0, st_gid = 0,
     st_rdev = 0, st_size = 0, st_blksize = 0, st_blocks = 0, st_atime = 0, st_mtime = 0,
     st_ctime = 0\<rparr>"

text \<open>
  Path arguments are the bytes of the C string without its terminating NUL. A call that fills a
  \<open>stat\<close> buffer takes the caller's buffer and returns it as the call left it.
\<close>

record 'k kernel =
  k_memfd_create :: "string \<Rightarrow> 'k \<Rightarrow> fd \<times> 'k"
  k_sys_openat :: "fd \<Rightarrow> string \<Rightarrow> flags \<Rightarrow> mode_t \<Rightarrow> 'k \<Rightarrow> fd \<times> 'k"
  k_fstat :: "fd \<Rightarrow> stat_buf \<Rightarrow> 'k \<Rightarrow> (int \<times> stat_buf) \<times> 'k"
  k_fchmod :: "fd \<Rightarrow> mode_t \<Rightarrow> 'k \<Rightarrow> int \<times> 'k"
  k_access :: "string \<Rightarrow> int \<Rightarrow> 'k \<Rightarrow> int \<times> 'k"
  k_open :: "string \<Rightarrow> flags \<Rightarrow> mode_t \<Rightarrow> 'k \<Rightarrow> fd \<times> 'k"
  k_mkdir :: "string \<Rightarrow> mode_t \<Rightarrow> 'k \<Rightarrow> int \<times> 'k"
  k_unlink :: "string \<Rightarrow> 'k \<Rightarrow> int \<times> 'k"
  k_rmdir :: "string \<Rightarrow> 'k \<Rightarrow> int \<times> 'k"
  k_rename :: "string \<Rightarrow> string \<Rightarrow> 'k \<Rightarrow> int \<times> 'k"
  k_chmod :: "string \<Rightarrow> mode_t \<Rightarrow> 'k \<Rightarrow> int \<times> 'k"
  k_stat :: "string \<Rightarrow> stat_buf \<Rightarrow> 'k \<Rightarrow> (int \<times> stat_buf) \<times> 'k"
  k_close :: "fd \<Rightarrow> 'k \<Rightarrow> int \<times> 'k"

text \<open>What a C function reads through a \<open>char *\<close>: the bytes before the first NUL.\<close>

definition c_string :: "string \<Rightarrow> string" where
  "c_string bs = takeWhile (\<lambda>c. c \<noteq> CHR 0x00) bs"

text \<open>
  \<open>Path::from_cstr\<close>: the bytes up to \<open>strlen\<close>; \<open>AsCStr::as_cstr\<close>: the bytes as they are, and a
  panic unless the last one is NUL.
\<close>

definition from_cstr :: "string \<Rightarrow> string" where
  "from_cstr value = take (length (c_string value)) value"

definition as_cstr :: "string \<Rightarrow> string outcome" where
  "as_cstr chars = (if chars \<noteq> [] \<and> last chars = CHR 0x00 then Done (c_string chars) else Panic)"

text \<open>Decimal digits, as \<open>format!\<close> prints an integer.\<close>

fun show_nat :: "nat \<Rightarrow> string" where
  "show_nat n =
     (if n < 10 then [char_of (48 + n)] else show_nat (n div 10) @ [char_of (48 + n mod 10)])"

declare show_nat.simps [simp del]

definition show_int :: "int \<Rightarrow> string" where
  "show_int i = (if i < 0 then ''-'' @ show_nat (nat (- i)) else show_nat (nat i))"

lemma from_cstr_no_nul: "CHR 0x00 \<notin> set (from_cstr value)"
proof -
  have "take (length (c_string value)) value = c_string value"
    unfolding c_string_def by (rule takeWhile_eq_take [symmetric])
  then show ?thesis
    by (auto simp: from_cstr_def c_string_def dest: set_takeWhileD)
qed

lemma c_string_append_nul:
  "CHR 0x00 \<notin> set bs \<Longrightarrow> c_string (bs @ [CHR 0x00]) = bs"
  by (auto simp: c_string_def takeWhile_append)

end
