(* ===== verification/Paths.thy ===== *)
theory Paths
  imports Prelude
begin

text \<open>
  The part of \<open>std::path\<close> (Unix) the program uses. A \<open>Path\<close> is a byte string, but its \<open>Eq\<close>,
  \<open>Hash\<close>, \<open>starts_with\<close>, \<open>parent\<close>, \<open>file_name\<close>, \<open>ancestors\<close> and \<open>strip_prefix\<close> are all defined
  over \<open>Path::components\<close>, so the type \<open>path\<close> is the list of components; \<open>components\<close> parses the
  bytes of a path and \<open>path_bytes\<close> spells one. Component lists that parsing produces satisfy
  \<open>wf_path\<close>; every path operation keeps it. \<open>Component::Prefix\<close> exists on Windows only.
\<close>

section \<open>Components\<close>

datatype component = RootDir | CurDir | ParentDir | Normal string

type_synonym path = "component list"

text \<open>Splitting at \<open>'/'\<close>: the segments between separators, empty ones included.\<close>

fun split_slash :: "string \<Rightarrow> string list" where
  "split_slash [] = [[]]"
| "split_slash (c # cs) =
     (if c = CHR ''/'' then [] # split_slash cs
      else (case split_slash cs of [] \<Rightarrow> [[c]] | s # ss \<Rightarrow> (c # s) # ss))"

text \<open>
  A segment inside a path: empty segments (repeated or trailing separators) and \<open>.\<close> are skipped,
  \<open>..\<close> is \<open>ParentDir\<close>.
\<close>

fun seg_component :: "string \<Rightarrow> component option" where
  "seg_component s =
     (if s = [] \<or> s = ''.'' then None else if s = ''..'' then Some ParentDir else Some (Normal s))"

text \<open>A leading \<open>/\<close> is \<open>RootDir\<close>; a leading \<open>.\<close> segment is the only one that is kept.\<close>

definition components :: "string \<Rightarrow> path" where
  "components b =
     (if b \<noteq> [] \<and> hd b = CHR ''/'' then [RootDir]
      else if hd (split_slash b) = ''.'' then [CurDir] else [])
     @ List.map_filter seg_component (split_slash b)"

fun component_bytes :: "component \<Rightarrow> string" where
  "component_bytes RootDir = ''/''"
| "component_bytes CurDir = ''.''"
| "component_bytes ParentDir = ''..''"
| "component_bytes (Normal s) = s"

fun join_slash :: "string list \<Rightarrow> string" where
  "join_slash [] = []"
| "join_slash [s] = s"
| "join_slash (s # t # ss) = s @ ''/'' @ join_slash (t # ss)"

fun path_bytes :: "path \<Rightarrow> string" where
  "path_bytes (RootDir # cs) = ''/'' @ join_slash (map component_bytes cs)"
| "path_bytes cs = join_slash (map component_bytes cs)"

section \<open>Operations\<close>

fun is_absolute :: "path \<Rightarrow> bool" where
  "is_absolute (RootDir # _) = True"
| "is_absolute _ = False"

definition parent_path :: "path \<Rightarrow> path option" where
  "parent_path p = (if p = [] \<or> last p = RootDir then None else Some (butlast p))"

definition file_name :: "path \<Rightarrow> string option" where
  "file_name p = (if p = [] then None else (case last p of Normal s \<Rightarrow> Some s | _ \<Rightarrow> None))"

text \<open>
  \<open>Path::join\<close>: an absolute argument replaces the path; a leading \<open>.\<close> is a component only at
  the very start of the result.
\<close>

definition join :: "path \<Rightarrow> path \<Rightarrow> path" where
  "join p q =
     (if is_absolute q then q
      else if p \<noteq> [] \<and> q \<noteq> [] \<and> hd q = CurDir then p @ tl q
      else p @ q)"

definition pop :: "path \<Rightarrow> path" where
  "pop p = (case parent_path p of None \<Rightarrow> p | Some q \<Rightarrow> q)"

definition starts_with :: "path \<Rightarrow> path \<Rightarrow> bool" where
  "starts_with p base = prefix base p"

definition strip_prefix :: "path \<Rightarrow> path \<Rightarrow> path option" where
  "strip_prefix p base = (if prefix base p then Some (drop (length base) p) else None)"

function ancestors :: "path \<Rightarrow> path list" where
  "ancestors p = p # (case parent_path p of None \<Rightarrow> [] | Some q \<Rightarrow> ancestors q)"
  by pat_completeness auto
termination
  by (relation "measure length") (auto simp: parent_path_def split: if_splits)

declare ancestors.simps [simp del]

section \<open>Well-formed component lists\<close>

definition valid_name :: "string \<Rightarrow> bool" where
  "valid_name s \<longleftrightarrow> s \<noteq> [] \<and> s \<noteq> ''.'' \<and> s \<noteq> ''..'' \<and> CHR ''/'' \<notin> set s"

fun body_component :: "component \<Rightarrow> bool" where
  "body_component ParentDir = True"
| "body_component (Normal s) = valid_name s"
| "body_component _ = False"

fun wf_path :: "path \<Rightarrow> bool" where
  "wf_path (RootDir # cs) = list_all body_component cs"
| "wf_path (CurDir # cs) = list_all body_component cs"
| "wf_path cs = list_all body_component cs"

text \<open>A normal path: \<open>/\<close> followed by names only, what path normalisation produces.\<close>

definition names_path :: "string list \<Rightarrow> path" where
  "names_path ns = RootDir # map Normal ns"

fun normal_path :: "path \<Rightarrow> bool" where
  "normal_path (RootDir # cs) = list_all (\<lambda>c. case c of Normal s \<Rightarrow> valid_name s | _ \<Rightarrow> False) cs"
| "normal_path _ = False"

section \<open>Parsing and spelling\<close>

lemma split_slash_nonempty [simp]: "split_slash b \<noteq> []"
  by (cases b) (auto split: list.splits)

lemma split_slash_no_slash: "s \<in> set (split_slash b) \<Longrightarrow> CHR ''/'' \<notin> set s"
  by (induction b arbitrary: s) (auto split: list.splits if_splits)

lemma split_slash_single: "CHR ''/'' \<notin> set s \<Longrightarrow> split_slash s = [s]"
  by (induction s) auto

lemma split_slash_append:
  "CHR ''/'' \<notin> set s \<Longrightarrow> split_slash (s @ CHR ''/'' # b) = s # split_slash b"
  by (induction s) auto

lemma split_join_slash:
  "ss \<noteq> [] \<Longrightarrow> list_all (\<lambda>s. CHR ''/'' \<notin> set s) ss \<Longrightarrow> split_slash (join_slash ss) = ss"
  by (induction ss rule: join_slash.induct) (auto simp: split_slash_single split_slash_append)

lemma body_component_bytes:
  "body_component c \<Longrightarrow> component_bytes c \<noteq> [] \<and> component_bytes c \<noteq> ''.'' \<and>
     CHR ''/'' \<notin> set (component_bytes c) \<and> seg_component (component_bytes c) = Some c"
  by (cases c) (auto simp: valid_name_def)

lemma body_no_slash:
  "list_all body_component cs \<Longrightarrow> list_all (\<lambda>s. CHR ''/'' \<notin> set s) (map component_bytes cs)"
  by (auto simp: list_all_iff dest: body_component_bytes)

lemma seg_component_body:
  "list_all body_component cs \<Longrightarrow> List.map_filter seg_component (map component_bytes cs) = cs"
  by (induction cs) (auto simp: List.map_filter_simps body_component_bytes simp del: seg_component.simps)

lemma seg_component_valid: "CHR ''/'' \<notin> set s \<Longrightarrow> seg_component s = Some c \<Longrightarrow> body_component c"
  by (auto simp: valid_name_def split: if_splits)

lemma map_filter_body:
  "\<forall>s \<in> set ss. CHR ''/'' \<notin> set s \<Longrightarrow> list_all body_component (List.map_filter seg_component ss)"
  by (induction ss) (auto simp: List.map_filter_simps seg_component_valid
      simp del: seg_component.simps split: option.splits)

lemma wf_components: "wf_path (components b)"
proof -
  have "list_all body_component (List.map_filter seg_component (split_slash b))"
    by (rule map_filter_body) (simp add: split_slash_no_slash)
  moreover have "list_all body_component cs \<Longrightarrow> wf_path cs" for cs
    by (cases cs rule: wf_path.cases) auto
  ultimately show ?thesis by (simp add: components_def)
qed

lemma components_absolute: "is_absolute (components b) \<longleftrightarrow> b \<noteq> [] \<and> hd b = CHR ''/''"
proof -
  have "\<not> is_absolute cs" if "list_all body_component cs" for cs
    using that by (cases cs rule: is_absolute.cases) auto
  moreover have "list_all body_component (List.map_filter seg_component (split_slash b))"
    by (rule map_filter_body) (simp add: split_slash_no_slash)
  ultimately show ?thesis by (auto simp: components_def)
qed

lemma components_join_slash:
  assumes "list_all body_component cs"
  shows "List.map_filter seg_component (split_slash (join_slash (map component_bytes cs))) = cs"
proof (cases "cs = []")
  case True
  then show ?thesis by (simp add: List.map_filter_simps)
next
  case False
  then show ?thesis
    using assms by (simp add: split_join_slash body_no_slash seg_component_body)
qed

lemma hd_join_slash: "ss \<noteq> [] \<Longrightarrow> hd ss \<noteq> [] \<Longrightarrow> join_slash ss \<noteq> [] \<and> hd (join_slash ss) = hd (hd ss)"
  by (cases ss rule: join_slash.cases) auto

lemma components_relative_body:
  assumes "list_all body_component cs"
  shows "components (join_slash (map component_bytes cs)) = cs"
proof (cases cs)
  case Nil
  then show ?thesis by (simp add: components_def List.map_filter_simps)
next
  case (Cons c ds)
  then have c: "component_bytes c \<noteq> []" "component_bytes c \<noteq> ''.''"
      "CHR ''/'' \<notin> set (component_bytes c)"
    using assms by (auto dest: body_component_bytes)
  then have "hd (component_bytes c) \<noteq> CHR ''/''" by (cases "component_bytes c") auto
  then have "hd (join_slash (map component_bytes cs)) \<noteq> CHR ''/''"
    using Cons c by (simp add: hd_join_slash)
  moreover have "hd (split_slash (join_slash (map component_bytes cs))) \<noteq> ''.''"
    using Cons c assms by (subst split_join_slash) (auto simp: body_no_slash intro!: body_no_slash)
  ultimately show ?thesis
    using components_join_slash [OF assms] by (simp add: components_def)
qed

lemma components_path_bytes: "wf_path p \<Longrightarrow> components (path_bytes p) = p"
proof (cases p rule: path_bytes.cases [case_names root nil cur parent name])
  case (root cs)
  assume "wf_path p"
  with root have "list_all body_component cs" by simp
  then show ?thesis
    using root components_join_slash by (simp add: components_def List.map_filter_simps)
next
  case nil
  then show ?thesis by (simp add: components_def List.map_filter_simps)
next
  case (cur cs)
  assume "wf_path p"
  with cur have cs: "list_all body_component cs" by simp
  have "split_slash (join_slash (''.'' # map component_bytes cs)) = ''.'' # map component_bytes cs"
    using body_no_slash [OF cs] by (intro split_join_slash) auto
  moreover have "hd (join_slash (''.'' # map component_bytes cs)) = CHR ''.''"
    by (simp add: hd_join_slash)
  ultimately show ?thesis
    using cur seg_component_body [OF cs] by (simp add: components_def List.map_filter_simps)
next
  case (parent cs)
  assume "wf_path p"
  with parent show ?thesis using components_relative_body [of p] by simp
next
  case (name v cs)
  assume "wf_path p"
  with name show ?thesis using components_relative_body [of p] by simp
qed

section \<open>Normal paths\<close>

lemma names_path_absolute [simp]: "is_absolute (names_path ns)"
  by (simp add: names_path_def)

lemma names_path_inj [simp]: "names_path ns = names_path ms \<longleftrightarrow> ns = ms"
  by (simp add: names_path_def inj_def inj_map_eq_map)

lemma names_path_root [simp]: "names_path ns = [RootDir] \<longleftrightarrow> ns = []"
  by (simp add: names_path_def)

lemma root_names_path [simp]: "[RootDir] = names_path ns \<longleftrightarrow> ns = []"
  by (auto simp: names_path_def)

lemma names_path_neq_Nil [simp]: "names_path ns \<noteq> []"
  by (simp add: names_path_def)

lemma names_path_Nil: "names_path [] = [RootDir]"
  by simp

lemma normal_path_iff: "normal_path p \<longleftrightarrow> (\<exists>ns. list_all valid_name ns \<and> p = names_path ns)"
proof
  assume "normal_path p"
  then obtain cs where p: "p = RootDir # cs"
      and cs: "list_all (\<lambda>c. case c of Normal s \<Rightarrow> valid_name s | _ \<Rightarrow> False) cs"
    by (cases p rule: normal_path.cases) auto
  have "\<exists>ns. list_all valid_name ns \<and> cs = map Normal ns"
    using cs
  proof (induction cs)
    case Nil
    then show ?case by simp
  next
    case (Cons c cs)
    then obtain ns s where "list_all valid_name ns" "cs = map Normal ns" "c = Normal s" "valid_name s"
      by (auto split: component.splits)
    then show ?case by (intro exI [of _ "s # ns"]) simp
  qed
  then show "\<exists>ns. list_all valid_name ns \<and> p = names_path ns"
    using p by (auto simp: names_path_def)
next
  assume "\<exists>ns. list_all valid_name ns \<and> p = names_path ns"
  then show "normal_path p" by (auto simp: names_path_def list_all_iff)
qed

lemma normal_path_wf: "normal_path p \<Longrightarrow> wf_path p"
  by (auto simp: normal_path_iff names_path_def list_all_iff)

lemma parent_names_path [path_simps]:
  "parent_path (names_path ns) = (if ns = [] then None else Some (names_path (butlast ns)))"
  by (auto simp: parent_path_def names_path_def last_map map_butlast)

lemma file_name_names_path [path_simps]:
  "file_name (names_path ns) = (if ns = [] then None else Some (last ns))"
  by (auto simp: file_name_def names_path_def last_map)

lemma prefix_map_Normal: "prefix (map Normal xs) (map Normal ys) \<longleftrightarrow> prefix xs ys"
proof
  assume "prefix (map Normal xs) (map Normal ys)"
  then obtain zs where zs: "map Normal ys = map Normal xs @ zs" by (auto simp: prefix_def)
  then have "ys = xs @ drop (length xs) ys"
    by (metis (no_types, opaque_lifting) append_eq_conv_conj component.inject inj_def
        inj_map_eq_map length_map map_append append_take_drop_id take_map)
  then show "prefix xs ys" by (metis prefixI)
qed (auto simp: prefix_def)

lemma starts_with_names_path [path_simps]:
  "starts_with (names_path ns) (names_path ms) \<longleftrightarrow> prefix ms ns"
  by (simp add: starts_with_def names_path_def prefix_map_Normal)

lemma strip_prefix_names_path [path_simps]:
  "strip_prefix (names_path ns) (names_path ms) =
     (if prefix ms ns then Some (map Normal (drop (length ms) ns)) else None)"
  by (simp add: strip_prefix_def names_path_def prefix_map_Normal drop_map)

lemma ancestors_names_path [path_simps]:
  "ancestors (names_path ns) = map names_path (rev (prefixes ns))"
proof (induction ns rule: rev_induct)
  case Nil
  show ?case by (subst ancestors.simps) (simp add: path_simps)
next
  case (snoc n ns)
  show ?case by (subst ancestors.simps) (simp add: path_simps snoc prefixes_snoc)
qed

lemma pop_names_path [path_simps]: "pop (names_path ns) = names_path (butlast ns)"
  by (simp add: pop_def path_simps)

lemma join_names_path [path_simps]: "join (names_path ns) (map Normal ms) = names_path (ns @ ms)"
  by (cases ms) (auto simp: join_def names_path_def)

lemma join_absolute_wf: "is_absolute p \<Longrightarrow> is_absolute (join p q)"
  by (cases p rule: is_absolute.cases) (auto simp: join_def)

lemma butlast_wf: "list_all P xs \<Longrightarrow> list_all P (butlast xs)"
  by (auto simp: list_all_iff dest: in_set_butlastD)

lemma parent_absolute: "is_absolute p \<Longrightarrow> parent_path p = Some q \<Longrightarrow> is_absolute q"
  by (cases p rule: is_absolute.cases) (auto simp: parent_path_def split: if_splits)

lemma valid_names_butlast: "list_all valid_name ns \<Longrightarrow> list_all valid_name (butlast ns)"
  by (rule butlast_wf)

lemma valid_names_take: "list_all valid_name ns \<Longrightarrow> list_all valid_name (take k ns)"
  by (auto simp: list_all_iff dest: in_set_takeD)

section \<open>Removing \<open>.\<close> and \<open>..\<close> lexically\<close>

text \<open>The lexical meaning of a relative path below a list of names: \<open>..\<close> drops the last name.\<close>

fun resolve_dots :: "string list \<Rightarrow> component list \<Rightarrow> string list" where
  "resolve_dots ns [] = ns"
| "resolve_dots ns (Normal x # cs) = resolve_dots (ns @ [x]) cs"
| "resolve_dots ns (ParentDir # cs) = resolve_dots (butlast ns) cs"
| "resolve_dots ns (_ # cs) = resolve_dots ns cs"

definition valid_names :: "path \<Rightarrow> bool" where
  "valid_names p \<longleftrightarrow> list_all (\<lambda>c. case c of Normal s \<Rightarrow> valid_name s | _ \<Rightarrow> True) p"

lemma wf_valid_names: "wf_path p \<Longrightarrow> valid_names p"
proof -
  have "list_all body_component cs \<Longrightarrow> valid_names cs" for cs
    by (auto simp: valid_names_def list_all_iff split: component.split)
  then show "wf_path p \<Longrightarrow> valid_names p"
    by (cases p rule: wf_path.cases) (auto simp: valid_names_def)
qed

lemma resolve_dots_append: "resolve_dots ns (p @ q) = resolve_dots (resolve_dots ns p) q"
  by (induction ns p rule: resolve_dots.induct) auto

lemma resolve_dots_names [simp]: "resolve_dots ns (map Normal ms) = ns @ ms"
  by (induction ms arbitrary: ns) auto

lemma resolve_dots_names_path [path_simps]: "resolve_dots ns (names_path ms) = ns @ ms"
  by (simp add: names_path_def)

lemma resolve_dots_valid:
  "list_all valid_name ns \<Longrightarrow> valid_names p \<Longrightarrow> list_all valid_name (resolve_dots ns p)"
  by (induction ns p rule: resolve_dots.induct) (auto simp: valid_names_def butlast_wf)

end
