(* ===== verification/Filesystem.thy ===== *)
theory Filesystem
  imports Kernel Paths
begin

text \<open>
  \<open>src/src/filesystem.rs\<close>: the types of directory listings and open results, and the trait
  \<open>LowLevelFS\<close>. A trait object is the record \<open>fs_ops\<close> of its methods over the state \<open>'s\<close> of all
  backends, \<open>'h\<close> being the type of opened-file handles. The locale \<open>backend\<close> is the contract that
  the dispatcher and the overlay rely on: on normal absolute paths every method returns, keeps
  the invariant and keeps the handles that are in use valid.
\<close>

datatype vfs_entry_kind = FileKind | DirKind

record vfs_dir_entry =
  de_name :: string
  de_kind :: vfs_entry_kind
  de_ino :: "u64 option"

record 'h open_result =
  or_fd :: fd
  or_opened :: "'h option"

definition from_fd :: "fd \<Rightarrow> 'h open_result" where
  "from_fd fd = \<lparr>or_fd = fd, or_opened = None\<rparr>"

record ('s, 'h) fs_ops =
  fs_id :: string
  fs_access :: "path \<Rightarrow> int \<Rightarrow> ('s, int) io"
  fs_open :: "path \<Rightarrow> flags \<Rightarrow> mode_t \<Rightarrow> ('s, fd) io"
  fs_openat :: "fd \<Rightarrow> path \<Rightarrow> flags \<Rightarrow> mode_t \<Rightarrow> ('s, fd) io"
  fs_mkdir :: "path \<Rightarrow> mode_t \<Rightarrow> ('s, int) io"
  fs_unlink :: "path \<Rightarrow> ('s, int) io"
  fs_rmdir :: "path \<Rightarrow> ('s, int) io"
  fs_rename :: "path \<Rightarrow> path \<Rightarrow> ('s, int) io"
  fs_chmod :: "path \<Rightarrow> mode_t \<Rightarrow> ('s, int) io"
  fs_stat :: "path \<Rightarrow> stat_buf \<Rightarrow> ('s, int \<times> stat_buf) io"
  fs_open_with_handle :: "path \<Rightarrow> flags \<Rightarrow> mode_t \<Rightarrow> ('s, 'h open_result) io"
  fs_read_dir :: "path \<Rightarrow> ('s, vfs_dir_entry list option) io"

text \<open>The default bodies of the trait.\<close>

definition default_open_with_handle ::
  "(path \<Rightarrow> flags \<Rightarrow> mode_t \<Rightarrow> ('s, fd) io) \<Rightarrow> path \<Rightarrow> flags \<Rightarrow> mode_t \<Rightarrow> ('s, 'h open_result) io" where
  "default_open_with_handle open_fn path flag mode s =
     do { (fd, s) \<leftarrow> open_fn path flag mode s; Done (from_fd fd, s) }"

definition default_read_dir :: "path \<Rightarrow> ('s, vfs_dir_entry list option) io" where
  "default_read_dir path s = Done (None, s)"

section \<open>The contract of a backend\<close>

text \<open>A call that returns normally, keeps the invariant, and keeps handles valid.\<close>

definition safe_io :: "('s \<Rightarrow> bool) \<Rightarrow> ('s \<Rightarrow> 'h \<Rightarrow> bool) \<Rightarrow> ('s, 'a) io \<Rightarrow> bool" where
  "safe_io ok hok io \<longleftrightarrow>
     (\<forall>s. ok s \<longrightarrow> (\<exists>r s'. io s = Done (r, s') \<and> ok s' \<and> (\<forall>h. hok s h \<longrightarrow> hok s' h)))"

text \<open>The same for an open, whose result may carry a new handle.\<close>

definition safe_open :: "('s \<Rightarrow> bool) \<Rightarrow> ('s \<Rightarrow> 'h \<Rightarrow> bool) \<Rightarrow> ('s, 'h open_result) io \<Rightarrow> bool" where
  "safe_open ok hok io \<longleftrightarrow>
     (\<forall>s. ok s \<longrightarrow> (\<exists>r s'. io s = Done (r, s') \<and> ok s' \<and> (\<forall>h. hok s h \<longrightarrow> hok s' h) \<and>
        (\<forall>h. or_opened r = Some h \<longrightarrow> hok s' h)))"

locale backend =
  fixes fs :: "('s, 'h) fs_ops"
    and ok :: "'s \<Rightarrow> bool"
    and hok :: "'s \<Rightarrow> 'h \<Rightarrow> bool"
  assumes access_safe: "normal_path p \<Longrightarrow> safe_io ok hok (fs_access fs p md)"
    and open_safe: "normal_path p \<Longrightarrow> safe_io ok hok (fs_open fs p fl mo)"
    and mkdir_safe: "normal_path p \<Longrightarrow> safe_io ok hok (fs_mkdir fs p mo)"
    and unlink_safe: "normal_path p \<Longrightarrow> safe_io ok hok (fs_unlink fs p)"
    and rmdir_safe: "normal_path p \<Longrightarrow> safe_io ok hok (fs_rmdir fs p)"
    and rename_safe: "normal_path p \<Longrightarrow> normal_path q \<Longrightarrow> safe_io ok hok (fs_rename fs p q)"
    and chmod_safe: "normal_path p \<Longrightarrow> safe_io ok hok (fs_chmod fs p mo)"
    and stat_safe: "normal_path p \<Longrightarrow> safe_io ok hok (fs_stat fs p sb)"
    and open_with_handle_safe: "normal_path p \<Longrightarrow> safe_open ok hok (fs_open_with_handle fs p fl mo)"
    and read_dir_safe: "normal_path p \<Longrightarrow> safe_io ok hok (fs_read_dir fs p)"

lemmas safe_defs = safe_io_def safe_open_def

lemma safe_ioD:
  "safe_io ok hok io \<Longrightarrow> ok s \<Longrightarrow>
     \<exists>r s'. io s = Done (r, s') \<and> ok s' \<and> (\<forall>h. hok s h \<longrightarrow> hok s' h)"
  by (auto simp: safe_io_def)

lemma safe_openD:
  "safe_open ok hok io \<Longrightarrow> ok s \<Longrightarrow>
     \<exists>r s'. io s = Done (r, s') \<and> ok s' \<and> (\<forall>h. hok s h \<longrightarrow> hok s' h) \<and>
       (\<forall>h. or_opened r = Some h \<longrightarrow> hok s' h)"
  by (auto simp: safe_open_def)

text \<open>Sequencing two safe calls.\<close>

lemma safe_io_bind:
  assumes "safe_io ok hok io" and "\<And>r. safe_io ok hok (f r)"
  shows "safe_io ok hok (\<lambda>s. do { (r, s) \<leftarrow> io s; f r s })"
  unfolding safe_io_def
proof (intro allI impI)
  fix s assume "ok s"
  with assms(1) obtain r s' where 1: "io s = Done (r, s')" "ok s'" "\<forall>h. hok s h \<longrightarrow> hok s' h"
    by (blast dest: safe_ioD)
  from assms(2) [of r] 1(2) obtain r' s'' where 2: "f r s' = Done (r', s'')" "ok s''"
      "\<forall>h. hok s' h \<longrightarrow> hok s'' h"
    by (blast dest: safe_ioD)
  show "\<exists>r s'. (do { (r, s) \<leftarrow> io s; f r s }) = Done (r, s') \<and> ok s' \<and> (\<forall>h. hok s h \<longrightarrow> hok s' h)"
    using 1 2 by auto
qed

lemma safe_io_return: "safe_io ok hok (\<lambda>s. Done (r, s))"
  by (auto simp: safe_io_def)

lemma safe_io_map:
  "safe_io ok hok io \<Longrightarrow> safe_io ok hok (\<lambda>s. do { (r, s) \<leftarrow> io s; Done (f r, s) })"
  by (rule safe_io_bind) (auto intro: safe_io_return)

lemma safe_open_bind:
  assumes "safe_io ok hok io" and "\<And>r. safe_open ok hok (f r)"
  shows "safe_open ok hok (\<lambda>s. do { (r, s) \<leftarrow> io s; f r s })"
  unfolding safe_open_def
proof (intro allI impI)
  fix s assume "ok s"
  with assms(1) obtain r s' where 1: "io s = Done (r, s')" "ok s'" "\<forall>h. hok s h \<longrightarrow> hok s' h"
    by (blast dest: safe_ioD)
  from assms(2) [of r] 1(2) obtain r' s'' where 2: "f r s' = Done (r', s'')" "ok s''"
      "\<forall>h. hok s' h \<longrightarrow> hok s'' h" "\<forall>h. or_opened r' = Some h \<longrightarrow> hok s'' h"
    by (blast dest: safe_openD)
  show "\<exists>r s'. (do { (r, s) \<leftarrow> io s; f r s }) = Done (r, s') \<and> ok s' \<and> (\<forall>h. hok s h \<longrightarrow> hok s' h) \<and>
      (\<forall>h. or_opened r = Some h \<longrightarrow> hok s' h)"
    using 1 2 by auto
qed

lemma safe_default_open:
  assumes "safe_io ok hok (open_fn p fl mo)"
  shows "safe_open ok hok (default_open_with_handle open_fn p fl mo)"
  using assms unfolding safe_defs default_open_with_handle_def from_fd_def
  by (fastforce simp: bind_eq_Some_conv)

end
