(* ===== verification/OrderedMap.thy ===== *)
theory OrderedMap
  imports Prelude
begin

text \<open>
  \<open>BTreeMap\<close>, the ordered map a directory keeps its entries in: an association list in
  ascending key order, with the operations the program calls (\<open>get\<close>, \<open>contains_key\<close>,
  \<open>insert\<close>, \<open>remove\<close>, \<open>is_empty\<close>, \<open>iter\<close>, \<open>values\<close>). The locale \<open>ordered_map\<close> states the
  contract the directory code relies on, and its interpretation \<open>bt\<close> proves that the
  association list meets it.
\<close>

type_synonym ('k, 'v) btree_map = "('k \<times> 'v) list"

definition btree_get :: "('k, 'v) btree_map \<Rightarrow> 'k \<Rightarrow> 'v option" where
  "btree_get m k = map_of m k"

definition contains_key :: "('k, 'v) btree_map \<Rightarrow> 'k \<Rightarrow> bool" where
  "contains_key m k = (btree_get m k \<noteq> None)"

fun btree_insert :: "'k::linorder \<Rightarrow> 'v \<Rightarrow> ('k, 'v) btree_map \<Rightarrow> ('k, 'v) btree_map" where
  "btree_insert k v [] = [(k, v)]"
| "btree_insert k v ((k', v') # m) =
     (if k < k' then (k, v) # (k', v') # m
      else if k = k' then (k, v) # m
      else (k', v') # btree_insert k v m)"

fun btree_remove :: "'k \<Rightarrow> ('k, 'v) btree_map \<Rightarrow> ('k, 'v) btree_map" where
  "btree_remove k [] = []"
| "btree_remove k ((k', v') # m) = (if k = k' then m else (k', v') # btree_remove k m)"

definition btree_sorted :: "('k::linorder, 'v) btree_map \<Rightarrow> bool" where
  "btree_sorted m \<longleftrightarrow> sorted_wrt (<) (map fst m)"

section \<open>The contract\<close>

locale ordered_map =
  fixes empty :: "'m"
    and get :: "'m \<Rightarrow> 'k::linorder \<Rightarrow> 'v option"
    and insert :: "'k \<Rightarrow> 'v \<Rightarrow> 'm \<Rightarrow> 'm"
    and remove :: "'k \<Rightarrow> 'm \<Rightarrow> 'm"
    and iter :: "'m \<Rightarrow> ('k \<times> 'v) list"
    and invar :: "'m \<Rightarrow> bool"
  assumes invar_empty: "invar empty"
    and iter_empty: "iter empty = []"
    and invar_insert: "invar m \<Longrightarrow> invar (insert k v m)"
    and invar_remove: "invar m \<Longrightarrow> invar (remove k m)"
    and get_insert: "invar m \<Longrightarrow> get (insert k v m) = (get m)(k := Some v)"
    and get_remove: "invar m \<Longrightarrow> get (remove k m) = (get m)(k := None)"
    and iter_get: "invar m \<Longrightarrow> (k, v) \<in> set (iter m) \<longleftrightarrow> get m k = Some v"
    and iter_sorted: "invar m \<Longrightarrow> sorted_wrt (<) (map fst (iter m))"
begin

lemma get_empty: "get empty k = None"
  using iter_get [OF invar_empty, of k] iter_empty by (cases "get empty k") auto

lemma iter_distinct: "invar m \<Longrightarrow> distinct (map fst (iter m))"
  using iter_sorted by (auto simp: strict_sorted_iff)

lemma iter_Nil_iff: "invar m \<Longrightarrow> iter m = [] \<longleftrightarrow> (\<forall>k. get m k = None)"
proof -
  assume m: "invar m"
  have "iter m = [] \<longleftrightarrow> (\<forall>k v. (k, v) \<notin> set (iter m))"
    by (cases "iter m") auto
  then show ?thesis using iter_get [OF m] by auto
qed

lemma get_insert_remove:
  "invar m \<Longrightarrow> get (insert k v (remove l m)) = (get m)(l := None, k := Some v)"
  by (simp add: get_insert get_remove invar_remove)

lemma set_iter_insert:
  "invar m \<Longrightarrow> set (iter (insert k v m)) = {(l, u) \<in> set (iter m). l \<noteq> k} \<union> {(k, v)}"
  by (auto simp: iter_get invar_insert get_insert split: if_splits)

lemma set_iter_remove:
  "invar m \<Longrightarrow> set (iter (remove k m)) = {(l, u) \<in> set (iter m). l \<noteq> k}"
  by (auto simp: iter_get invar_remove get_remove split: if_splits)

text \<open>Two ordered maps with the same contents list the same entries in the same order.\<close>

lemma iter_as_map: "invar m \<Longrightarrow> map (\<lambda>k. (k, the (get m k))) (map fst (iter m)) = iter m"
  by (auto simp: map_idI iter_get [symmetric] comp_def intro!: map_idI) (simp add: iter_get)

lemma iter_unique:
  assumes m: "invar m" and n: "invar n" and eq: "get m = get n"
  shows "iter m = iter n"
proof -
  have "set (iter m) = set (iter n)"
    using assms by (auto simp: iter_get)
  then have "set (map fst (iter m)) = set (map fst (iter n))" by simp
  then have "map fst (iter m) = map fst (iter n)"
    using iter_sorted [OF m] iter_sorted [OF n]
    by (intro sorted_distinct_set_unique) (auto simp: strict_sorted_iff)
  then show ?thesis
    using iter_as_map [OF m] iter_as_map [OF n] eq by metis
qed

end

section \<open>The association list meets it\<close>

lemma set_keys_insert: "set (map fst (btree_insert k v m)) = {k} \<union> set (map fst m)"
  by (induction k v m rule: btree_insert.induct) auto

lemma set_keys_remove: "set (map fst (btree_remove k m)) \<subseteq> set (map fst m)"
  by (induction k m rule: btree_remove.induct) auto

lemma sorted_insert: "btree_sorted m \<Longrightarrow> btree_sorted (btree_insert k v m)"
proof (induction k v m rule: btree_insert.induct)
  case (2 k v k' v' m)
  have "set (map fst (btree_insert k v m)) = {k} \<union> set (map fst m)"
    by (rule set_keys_insert)
  then show ?case
    using 2 by (fastforce simp: btree_sorted_def)
qed (simp add: btree_sorted_def)

lemma sorted_remove: "btree_sorted m \<Longrightarrow> btree_sorted (btree_remove k m)"
proof (induction k m rule: btree_remove.induct)
  case (2 k k' v' m)
  have "set (map fst (btree_remove k m)) \<subseteq> set (map fst m)"
    by (rule set_keys_remove)
  then show ?case
    using 2 by (fastforce simp: btree_sorted_def)
qed (simp add: btree_sorted_def)

lemma get_btree_insert: "btree_get (btree_insert k v m) = (btree_get m)(k := Some v)"
  by (induction k v m rule: btree_insert.induct) (auto simp: btree_get_def fun_eq_iff)

lemma get_btree_remove: "btree_sorted m \<Longrightarrow> btree_get (btree_remove k m) = (btree_get m)(k := None)"
proof (induction k m rule: btree_remove.induct)
  case (2 k k' v' m)
  have "map_of m k' = None" if "btree_sorted ((k', v') # m)"
    using that by (auto simp: btree_sorted_def map_of_eq_None_iff)
  then show ?case
    using 2 by (auto simp: btree_get_def btree_sorted_def fun_eq_iff)
qed (simp add: btree_get_def fun_eq_iff)

interpretation bt: ordered_map "[]" btree_get btree_insert btree_remove "\<lambda>m. m" btree_sorted
proof unfold_locales
  fix m :: "('a, 'b) btree_map" and k v
  assume m: "btree_sorted m"
  then have "distinct (map fst m)" by (simp add: btree_sorted_def strict_sorted_iff)
  then show "(k, v) \<in> set m \<longleftrightarrow> btree_get m k = Some v" by (simp add: btree_get_def)
  show "sorted_wrt (<) (map fst m)" using m by (simp add: btree_sorted_def)
qed (auto simp: btree_sorted_def [of "[]"] btree_get_def [of "[]"] sorted_insert sorted_remove get_btree_insert get_btree_remove)

lemma contains_key_iff: "contains_key m k \<longleftrightarrow> (\<exists>v. btree_get m k = Some v)"
  by (auto simp: contains_key_def)

lemma sorted_distinct_keys: "btree_sorted m \<Longrightarrow> distinct (map fst m)"
  by (rule bt.iter_distinct)

end
