(* ===== verification/MemoryFS.thy ===== *)
theory MemoryFS
  imports Filesystem OrderedMap
begin

text \<open>
  \<open>src/src/impls/memory.rs\<close>: the in-memory file system. A node is shared (\<open>Arc<Node>\<close>) between
  the node map of its file system and the opened-file handles, and is mutated through both, so
  nodes live in an explicit \<open>heap\<close>. Node ids are taken from the process-wide counter
  \<open>NEXT_NODE_ID\<close>, so the address of a node in the heap is its id, and the \<open>HashMap\<close> of ids to
  nodes (\<open>NodeMap\<close>, shared by a file system and its handles) is the set of its keys: the value
  under key \<open>i\<close> is the heap cell \<open>i\<close>. A node map's own address is the id of its root. The
  counter is a natural number: the 64-bit wrap-around, after \<open>2^64\<close> creations, is not modelled.
  The closing of a node's backing descriptor when its last reference is dropped (\<open>Drop for Node\<close>)
  is the matter of the theories \<open>Backing\<close> and \<open>NodeDrop\<close>. Operations run one at a time
  here; \<open>Threads\<close> cuts them at their locks.
\<close>

section \<open>State\<close>

type_synonym node_id = nat
type_synonym map_ref = nat

datatype node_kind =
    File fd
  | Directory "(string, node_id) btree_map" fd

record node =
  nd_id :: node_id
  nd_parent :: "node_id option"
  nd_mode :: mode_t
  nd_links :: nat
  nd_kind :: node_kind

record memory_fs =
  mem_id :: string
  mem_root :: node_id
  mem_nodes :: map_ref

datatype opened_file = MemoryOpenedFile node_id map_ref

record 'k world =
  next_node_id :: node_id
  heap :: "node_id \<Rightarrow> node"
  node_maps :: "map_ref \<Rightarrow> node_id set"
  kern :: 'k

definition entry_kind :: "node \<Rightarrow> vfs_entry_kind" where
  "entry_kind n = (case nd_kind n of File _ \<Rightarrow> FileKind | Directory _ _ \<Rightarrow> DirKind)"

definition node_backing_fd :: "node \<Rightarrow> fd" where
  "node_backing_fd n = (case nd_kind n of File backing_fd \<Rightarrow> backing_fd | Directory _ placeholder_fd \<Rightarrow> placeholder_fd)"

definition kind_backing_fd :: "node_kind \<Rightarrow> fd" where
  "kind_backing_fd k = (case k of File backing_fd \<Rightarrow> backing_fd | Directory _ placeholder_fd \<Rightarrow> placeholder_fd)"

definition is_directory :: "node \<Rightarrow> bool" where
  "is_directory n = (case nd_kind n of File _ \<Rightarrow> False | Directory _ _ \<Rightarrow> True)"

text \<open>Writes through a shared reference.\<close>

definition update_node :: "node_id \<Rightarrow> (node \<Rightarrow> node) \<Rightarrow> 'k world \<Rightarrow> 'k world" where
  "update_node a f w = w\<lparr>heap := (heap w)(a := f (heap w a))\<rparr>"

definition set_entries :: "(string, node_id) btree_map \<Rightarrow> node \<Rightarrow> node" where
  "set_entries es n = (case nd_kind n of File _ \<Rightarrow> n | Directory _ fd \<Rightarrow> n\<lparr>nd_kind := Directory es fd\<rparr>)"

definition nodes_remove :: "map_ref \<Rightarrow> node_id \<Rightarrow> 'k world \<Rightarrow> 'k world" where
  "nodes_remove m i w = w\<lparr>node_maps := (node_maps w)(m := node_maps w m - {i})\<rparr>"

definition nodes_insert :: "map_ref \<Rightarrow> node_id \<Rightarrow> 'k world \<Rightarrow> 'k world" where
  "nodes_insert m i w = w\<lparr>node_maps := (node_maps w)(m := insert i (node_maps w m))\<rparr>"

text \<open>\<open>NEXT_NODE_ID.fetch_add(1)\<close>.\<close>

definition fetch_add_node_id :: "'k world \<Rightarrow> node_id \<times> 'k world" where
  "fetch_add_node_id w = (next_node_id w, w\<lparr>next_node_id := next_node_id w + 1\<rparr>)"

section \<open>Backing descriptors\<close>

definition create_memfd :: "'k kernel \<Rightarrow> string \<Rightarrow> 'k world \<Rightarrow> fd \<times> 'k world" where
  "create_memfd K name w =
     (let (fd, k) = k_memfd_create K name (kern w) in (fd, w\<lparr>kern := k\<rparr>))"

text \<open>The flags that only describe the lookup in the namespace are cleared.\<close>

definition open_backing :: "'k kernel \<Rightarrow> fd \<Rightarrow> flags \<Rightarrow> 'k world \<Rightarrow> fd \<times> 'k world" where
  "open_backing K backing_fd flags w =
     (let path = ''/proc/self/fd/'' @ show_int backing_fd;
          flags = flags AND NOT (O_CREAT OR O_EXCL OR O_NOFOLLOW OR O_DIRECTORY);
          (fd, k) = k_sys_openat K AT_FDCWD path flags 0 (kern w)
      in (fd, w\<lparr>kern := k\<rparr>))"

section \<open>Creation and lookup\<close>

definition memory_fs_new :: "'k kernel \<Rightarrow> string \<Rightarrow> 'k world \<Rightarrow> memory_fs \<times> 'k world" where
  "memory_fs_new K name w =
     (let (root_id, w) = fetch_add_node_id w;
          (fd, w) = create_memfd K ''sandbox-vfs-dir'' w;
          root = \<lparr>nd_id = root_id, nd_parent = Some root_id, nd_mode = MODE_755, nd_links = 1,
                  nd_kind = Directory [] fd\<rparr>;
          w = w\<lparr>heap := (heap w)(root_id := root), node_maps := (node_maps w)(root_id := {root_id})\<rparr>
      in (\<lparr>mem_id = name, mem_root = root_id, mem_nodes = root_id\<rparr>, w))"

definition assert_absolute :: "path \<Rightarrow> unit outcome" where
  "assert_absolute path = (if is_absolute path then Done () else Panic)"

definition node_from_map :: "'k world \<Rightarrow> map_ref \<Rightarrow> node_id \<Rightarrow> node_id option" where
  "node_from_map w m i = (if i \<in> node_maps w m then Some i else None)"

text \<open>
  The loop of \<open>resolve\<close> and \<open>resolve_from_root\<close>: components other than names are skipped.
\<close>

fun walk :: "'k world \<Rightarrow> map_ref \<Rightarrow> component list \<Rightarrow> node_id \<Rightarrow> node_id option" where
  "walk w m [] n = Some n"
| "walk w m (Normal name # cs) n =
     (case nd_kind (heap w n) of
        File _ \<Rightarrow> None
      | Directory entries _ \<Rightarrow>
          do { child_id \<leftarrow> btree_get entries name;
               n' \<leftarrow> node_from_map w m child_id;
               walk w m cs n' })"
| "walk w m (_ # cs) n = walk w m cs n"

definition resolve_from_root :: "path \<Rightarrow> 'k world \<Rightarrow> map_ref \<Rightarrow> node_id \<Rightarrow> node_id option outcome" where
  "resolve_from_root path w m root =
     do { assert_absolute path;
          Done (do { n \<leftarrow> node_from_map w m root; walk w m path n }) }"

definition resolve_parent_from_root ::
  "path \<Rightarrow> 'k world \<Rightarrow> map_ref \<Rightarrow> node_id \<Rightarrow> (node_id \<times> string) option outcome" where
  "resolve_parent_from_root path w m root =
     do { assert_absolute path;
          (case parent_path path of
             None \<Rightarrow> Done None
           | Some pp \<Rightarrow>
               do { r \<leftarrow> resolve_from_root pp w m root;
                    Done (do { n \<leftarrow> r; name \<leftarrow> file_name path; Some (n, name) }) }) }"

definition mem_node :: "memory_fs \<Rightarrow> 'k world \<Rightarrow> node_id \<Rightarrow> node_id option" where
  "mem_node fs w i = (if i \<in> node_maps w (mem_nodes fs) then Some i else None)"

definition resolve :: "memory_fs \<Rightarrow> path \<Rightarrow> 'k world \<Rightarrow> node_id option outcome" where
  "resolve fs path w =
     do { assert_absolute path;
          Done (do { n \<leftarrow> mem_node fs w (mem_root fs); walk w (mem_nodes fs) path n }) }"

definition resolve_parent :: "memory_fs \<Rightarrow> path \<Rightarrow> 'k world \<Rightarrow> (node_id \<times> string) option outcome" where
  "resolve_parent fs path w =
     do { assert_absolute path;
          (case parent_path path of
             None \<Rightarrow> Done None
           | Some pp \<Rightarrow>
               do { r \<leftarrow> resolve fs pp w;
                    Done (do { n \<leftarrow> r; name \<leftarrow> file_name path; Some (n, name) }) }) }"

section \<open>Creating a node\<close>

definition create_node_in_dir ::
  "'k kernel \<Rightarrow> node_id \<Rightarrow> map_ref \<Rightarrow> string \<Rightarrow> vfs_entry_kind \<Rightarrow> mode_t \<Rightarrow> 'k world \<Rightarrow> node_id option \<times> 'k world" where
  "create_node_in_dir K parent m name kind mode w =
     (case nd_kind (heap w parent) of
        File _ \<Rightarrow> (None, w)
      | Directory entries _ \<Rightarrow>
          if contains_key entries name then (None, w)
          else
            let (i, w) = fetch_add_node_id w;
                (node_kind, w) =
                  (case kind of
                     FileKind \<Rightarrow> let (fd, w) = create_memfd K ''sandbox-vfs-file'' w in (File fd, w)
                   | DirKind \<Rightarrow> let (fd, w) = create_memfd K ''sandbox-vfs-dir'' w in (Directory [] fd, w))
            in if kind_backing_fd node_kind < 0 then (None, w)
               else
                 let node = \<lparr>nd_id = i, nd_parent = Some (nd_id (heap w parent)),
                             nd_mode = mode AND MODE_MASK, nd_links = 1, nd_kind = node_kind\<rparr>;
                     w = update_node i (\<lambda>_. node) w;
                     w = nodes_insert m i w;
                     w = update_node parent (set_entries (btree_insert name i entries)) w
                 in (Some i, w))"

definition create_node ::
  "'k kernel \<Rightarrow> memory_fs \<Rightarrow> path \<Rightarrow> vfs_entry_kind \<Rightarrow> mode_t \<Rightarrow> ('k world, node_id option) io" where
  "create_node K fs path kind mode w =
     do { r \<leftarrow> resolve_parent fs path w;
          Done (case r of
                  None \<Rightarrow> (None, w)
                | Some (parent, name) \<Rightarrow> create_node_in_dir K parent (mem_nodes fs) name kind mode w) }"

section \<open>Removing and renaming\<close>

text \<open>The writes that take a node out of the namespace: no parent, no links.\<close>

definition detach_node :: "node_id \<Rightarrow> 'k world \<Rightarrow> 'k world" where
  "detach_node a w =
     update_node a (\<lambda>n. n\<lparr>nd_links := 0\<rparr>) (update_node a (\<lambda>n. n\<lparr>nd_parent := None\<rparr>) w)"

definition remove_node_at ::
  "path \<Rightarrow> map_ref \<Rightarrow> node_id \<Rightarrow> vfs_entry_kind \<Rightarrow> ('k world, int) io" where
  "remove_node_at path m root kind w =
     do { assert_absolute path;
          if path = [RootDir] then Done (-1, w)
          else do { r \<leftarrow> resolve_parent_from_root path w m root;
            Done (case r of
              None \<Rightarrow> (-1, w)
            | Some (parent, name) \<Rightarrow>
              (case nd_kind (heap w parent) of
                 File _ \<Rightarrow> (-1, w)
               | Directory entries _ \<Rightarrow>
                 (case btree_get entries name of
                    None \<Rightarrow> (-1, w)
                  | Some i \<Rightarrow>
                    (case node_from_map w m i of
                       None \<Rightarrow> (-1, update_node parent (set_entries (btree_remove name entries)) w)
                     | Some node \<Rightarrow>
                       if (case (nd_kind (heap w node), kind) of
                             (File _, FileKind) \<Rightarrow> True
                           | (Directory es _, DirKind) \<Rightarrow> es = []
                           | _ \<Rightarrow> False)
                       then
                         let w = update_node parent (set_entries (btree_remove name entries)) w;
                             w = detach_node node w
                         in (0, nodes_remove m i w)
                       else (-1, w))))) } }"

definition can_replace_node :: "node \<Rightarrow> node \<Rightarrow> bool" where
  "can_replace_node source destination =
     (case (nd_kind source, nd_kind destination) of
        (File _, File _) \<Rightarrow> True
      | (Directory _ _, Directory entries _) \<Rightarrow> entries = []
      | _ \<Rightarrow> False)"

text \<open>\<open>rename_node_at\<close>, the branch where both names are in one directory.\<close>

definition rename_in_dir ::
  "path \<Rightarrow> path \<Rightarrow> node_id \<Rightarrow> (string, node_id) btree_map \<Rightarrow> string \<Rightarrow> string \<Rightarrow> map_ref \<Rightarrow> 'k world \<Rightarrow> int \<times> 'k world" where
  "rename_in_dir old_path new_path dir entries old_name new_name m w =
     (case btree_get entries old_name of
        None \<Rightarrow> (-1, w)
      | Some old_id \<Rightarrow>
        (case node_from_map w m old_id of
           None \<Rightarrow> (-1, w)
         | Some node \<Rightarrow>
           if is_directory (heap w node) \<and> starts_with new_path old_path then (-1, w)
           else if btree_get entries new_name = Some old_id then (0, w)
           else
             (case btree_get entries new_name of
                Some replaced_id \<Rightarrow>
                  (case node_from_map w m replaced_id of
                     None \<Rightarrow> (-1, w)
                   | Some replaced \<Rightarrow>
                     if \<not> can_replace_node (heap w node) (heap w replaced) then (-1, w)
                     else
                       let w = nodes_remove m replaced_id (detach_node replaced w)
                       in (0, update_node dir
                                (set_entries (btree_insert new_name old_id (btree_remove old_name entries))) w))
              | None \<Rightarrow>
                  (0, update_node dir
                        (set_entries (btree_insert new_name old_id (btree_remove old_name entries))) w))))"

text \<open>\<open>rename_node_at\<close>, the branch where the two names are in different directories.\<close>

definition rename_between ::
  "path \<Rightarrow> path \<Rightarrow> node_id \<Rightarrow> (string, node_id) btree_map \<Rightarrow> string \<Rightarrow>
   node_id \<Rightarrow> (string, node_id) btree_map \<Rightarrow> string \<Rightarrow> map_ref \<Rightarrow> 'k world \<Rightarrow> int \<times> 'k world" where
  "rename_between old_path new_path old_parent old_entries old_name new_parent new_entries new_name m w =
     (case btree_get old_entries old_name of
        None \<Rightarrow> (-1, w)
      | Some old_id \<Rightarrow>
        (case node_from_map w m old_id of
           None \<Rightarrow> (-1, w)
         | Some node \<Rightarrow>
           if is_directory (heap w node) \<and> starts_with new_path old_path then (-1, w)
           else
             let move = (\<lambda>w.
                   let w = update_node old_parent (set_entries (btree_remove old_name old_entries)) w;
                       w = update_node new_parent (set_entries (btree_insert new_name old_id new_entries)) w;
                       w = (case btree_get new_entries new_name of
                              None \<Rightarrow> w
                            | Some replaced_id \<Rightarrow>
                                nodes_remove m replaced_id
                                  (case node_from_map w m replaced_id of
                                     None \<Rightarrow> w | Some replaced \<Rightarrow> detach_node replaced w))
                   in (0, update_node node (\<lambda>n. n\<lparr>nd_parent := Some (nd_id (heap w new_parent))\<rparr>) w))
             in (case btree_get new_entries new_name of
                   None \<Rightarrow> move w
                 | Some replaced_id \<Rightarrow>
                     if replaced_id = old_id then (0, w)
                     else (case node_from_map w m replaced_id of
                             None \<Rightarrow> (-1, w)
                           | Some replaced \<Rightarrow>
                               if \<not> can_replace_node (heap w node) (heap w replaced) then (-1, w)
                               else move w))))"

definition rename_node_at :: "path \<Rightarrow> path \<Rightarrow> map_ref \<Rightarrow> node_id \<Rightarrow> ('k world, int) io" where
  "rename_node_at old_path new_path m root w =
     do { assert_absolute old_path;
          assert_absolute new_path;
          if old_path = [RootDir] \<or> new_path = [RootDir] then Done (-1, w)
          else if old_path = new_path then Done (0, w)
          else do { ro \<leftarrow> resolve_parent_from_root old_path w m root;
            (case ro of
              None \<Rightarrow> Done (-1, w)
            | Some (old_parent, old_name) \<Rightarrow> do { rn \<leftarrow> resolve_parent_from_root new_path w m root;
              Done (case rn of
                None \<Rightarrow> (-1, w)
              | Some (new_parent, new_name) \<Rightarrow>
                (case (nd_kind (heap w old_parent), nd_kind (heap w new_parent)) of
                   (Directory old_entries _, Directory new_entries _) \<Rightarrow>
                     if nd_id (heap w old_parent) = nd_id (heap w new_parent)
                     then rename_in_dir old_path new_path old_parent old_entries old_name new_name m w
                     else rename_between old_path new_path old_parent old_entries old_name
                            new_parent new_entries new_name m w
                 | _ \<Rightarrow> (-1, w))) }) } }"

section \<open>Paths relative to an opened node\<close>

definition can_resolve_relative_to_opened_node :: "path \<Rightarrow> bool" where
  "can_resolve_relative_to_opened_node path = (\<not> is_absolute path)"

fun walk_relative :: "'k world \<Rightarrow> map_ref \<Rightarrow> component list \<Rightarrow> node_id \<Rightarrow> node_id option" where
  "walk_relative w m [] n = Some n"
| "walk_relative w m (CurDir # cs) n = walk_relative w m cs n"
| "walk_relative w m (Normal name # cs) n =
     (case nd_kind (heap w n) of
        File _ \<Rightarrow> None
      | Directory entries _ \<Rightarrow>
          do { child_id \<leftarrow> btree_get entries name;
               n' \<leftarrow> node_from_map w m child_id;
               walk_relative w m cs n' })"
| "walk_relative w m (ParentDir # cs) n =
     do { parent_id \<leftarrow> nd_parent (heap w n);
          n' \<leftarrow> node_from_map w m parent_id;
          walk_relative w m cs n' }"
| "walk_relative w m (RootDir # cs) n = None"

definition resolve_relative :: "node_id \<Rightarrow> map_ref \<Rightarrow> path \<Rightarrow> 'k world \<Rightarrow> node_id option" where
  "resolve_relative start m path w =
     (if \<not> can_resolve_relative_to_opened_node path then None else walk_relative w m path start)"

definition create_relative_node ::
  "'k kernel \<Rightarrow> node_id \<Rightarrow> map_ref \<Rightarrow> path \<Rightarrow> vfs_entry_kind \<Rightarrow> mode_t \<Rightarrow> 'k world \<Rightarrow> node_id option \<times> 'k world" where
  "create_relative_node K start m path kind mode w =
     (if \<not> can_resolve_relative_to_opened_node path then (None, w)
      else (case do { pp \<leftarrow> parent_path path;
                      name \<leftarrow> file_name path;
                      parent \<leftarrow> resolve_relative start m pp w;
                      Some (parent, name) } of
              None \<Rightarrow> (None, w)
            | Some (parent, name) \<Rightarrow> create_node_in_dir K parent m name kind mode w))"

section \<open>Opening\<close>

definition open_resolved_node ::
  "'k kernel \<Rightarrow> node_id option \<Rightarrow> ('k world, node_id option) io \<Rightarrow> flags \<Rightarrow> ('k world, fd \<times> node_id option) io" where
  "open_resolved_node K existing create flags w =
     (if existing \<noteq> None \<and> flags AND (O_CREAT OR O_EXCL) = (O_CREAT OR O_EXCL) then Done ((-1, None), w)
      else do { (node, w) \<leftarrow>
                  (case existing of
                     Some node \<Rightarrow> Done (Some node, w)
                   | None \<Rightarrow> if flags AND O_CREAT \<noteq> 0 then create w else Done (None, w));
                Done (case node of
                        None \<Rightarrow> ((-1, None), w)
                      | Some node \<Rightarrow>
                          if flags AND O_DIRECTORY \<noteq> 0 \<and> \<not> is_directory (heap w node) then ((-1, None), w)
                          else (let (fd, w) = open_backing K (node_backing_fd (heap w node)) flags w
                                in if fd < 0 then ((fd, None), w) else ((fd, Some node), w))) })"

definition open_node ::
  "'k kernel \<Rightarrow> memory_fs \<Rightarrow> path \<Rightarrow> flags \<Rightarrow> mode_t \<Rightarrow> ('k world, fd \<times> node_id option) io" where
  "open_node K fs path flags mode w =
     do { assert_absolute path;
          existing \<leftarrow> resolve fs path w;
          open_resolved_node K existing (create_node K fs path FileKind mode) flags w }"

definition open_node_relative ::
  "'k kernel \<Rightarrow> node_id \<Rightarrow> map_ref \<Rightarrow> path \<Rightarrow> flags \<Rightarrow> mode_t \<Rightarrow> ('k world, (fd \<times> node_id option) option) io" where
  "open_node_relative K start m path flags mode w =
     (if \<not> can_resolve_relative_to_opened_node path then Done (None, w)
      else do { (r, w) \<leftarrow> open_resolved_node K (resolve_relative start m path w)
                            (\<lambda>w. Done (create_relative_node K start m path FileKind mode w)) flags w;
                Done (Some r, w) })"

section \<open>Metadata and listings\<close>

definition is_dir_id :: "'k world \<Rightarrow> map_ref \<Rightarrow> node_id \<Rightarrow> bool" where
  "is_dir_id w m i = (case node_from_map w m i of None \<Rightarrow> False | Some n \<Rightarrow> is_directory (heap w n))"

definition node_nlink :: "'k world \<Rightarrow> map_ref \<Rightarrow> node \<Rightarrow> nat" where
  "node_nlink w m n =
     (if nd_links n = 0 then 0
      else (case nd_kind n of
              File _ \<Rightarrow> 1
            | Directory entries _ \<Rightarrow> 2 + length (filter (is_dir_id w m) (map snd entries))))"

definition stat_node ::
  "'k kernel \<Rightarrow> node_id \<Rightarrow> map_ref \<Rightarrow> stat_buf \<Rightarrow> 'k world \<Rightarrow> (int \<times> stat_buf) \<times> 'k world" where
  "stat_node K a m statbuf w =
     (let n = heap w a;
          statbuf = zeroed_stat;
          (statbuf, w) =
            (case nd_kind n of
               File _ \<Rightarrow> let ((_, sb), k) = k_fstat K (node_backing_fd n) statbuf (kern w) in (sb, w\<lparr>kern := k\<rparr>)
             | Directory _ _ \<Rightarrow> (statbuf, w));
          statbuf = statbuf\<lparr>st_mode := (case nd_kind n of File _ \<Rightarrow> S_IFREG | Directory _ _ \<Rightarrow> S_IFDIR) OR nd_mode n\<rparr>;
          statbuf = statbuf\<lparr>st_ino := of_nat (nd_id n)\<rparr>;
          statbuf = statbuf\<lparr>st_nlink := node_nlink w m n\<rparr>;
          statbuf = statbuf\<lparr>st_blksize := 4096\<rparr>
      in ((0, statbuf), w))"

text \<open>Collecting an iterator of options: \<open>None\<close> if one of them is.\<close>

definition read_node_dir :: "'k world \<Rightarrow> map_ref \<Rightarrow> node_id \<Rightarrow> vfs_dir_entry list option" where
  "read_node_dir w m a =
     (case nd_kind (heap w a) of
        File _ \<Rightarrow> None
      | Directory entries _ \<Rightarrow>
          those (map (\<lambda>(name, i).
            do { n \<leftarrow> node_from_map w m i;
                 Some \<lparr>de_name = name, de_kind = entry_kind (heap w n), de_ino = Some (of_nat (nd_id (heap w n)))\<rparr> })
            entries))"

section \<open>The methods of an opened file\<close>

fun opened_stat :: "'k kernel \<Rightarrow> opened_file \<Rightarrow> stat_buf \<Rightarrow> 'k world \<Rightarrow> (int \<times> stat_buf) \<times> 'k world" where
  "opened_stat K (MemoryOpenedFile node m) statbuf w = stat_node K node m statbuf w"

fun opened_open_child ::
  "'k kernel \<Rightarrow> opened_file \<Rightarrow> path \<Rightarrow> flags \<Rightarrow> mode_t \<Rightarrow> ('k world, opened_file open_result option) io" where
  "opened_open_child K (MemoryOpenedFile node m) path flags mode w =
     do { (r, w) \<leftarrow> open_node_relative K node m path flags mode w;
          Done (map_option (\<lambda>(fd, n). \<lparr>or_fd = fd, or_opened = map_option (\<lambda>n. MemoryOpenedFile n m) n\<rparr>) r, w) }"

fun opened_mkdir_child :: "'k kernel \<Rightarrow> opened_file \<Rightarrow> path \<Rightarrow> mode_t \<Rightarrow> 'k world \<Rightarrow> int option \<times> 'k world" where
  "opened_mkdir_child K (MemoryOpenedFile node m) path mode w =
     (if \<not> can_resolve_relative_to_opened_node path then (None, w)
      else (let (r, w) = create_relative_node K node m path DirKind mode w
            in (Some (case r of None \<Rightarrow> -1 | Some _ \<Rightarrow> 0), w)))"

fun opened_read_dir :: "opened_file \<Rightarrow> 'k world \<Rightarrow> vfs_dir_entry list option" where
  "opened_read_dir (MemoryOpenedFile node m) w = read_node_dir w m node"

section \<open>The trait methods\<close>

definition mem_access :: "memory_fs \<Rightarrow> path \<Rightarrow> int \<Rightarrow> ('k world, int) io" where
  "mem_access fs path mode w =
     do { r \<leftarrow> resolve fs path w; Done (case r of None \<Rightarrow> -1 | Some _ \<Rightarrow> 0, w) }"

definition mem_open :: "'k kernel \<Rightarrow> memory_fs \<Rightarrow> path \<Rightarrow> flags \<Rightarrow> mode_t \<Rightarrow> ('k world, fd) io" where
  "mem_open K fs path flags mode w =
     do { ((fd, _), w) \<leftarrow> open_node K fs path flags mode w; Done (fd, w) }"

definition mem_open_with_handle ::
  "'k kernel \<Rightarrow> memory_fs \<Rightarrow> path \<Rightarrow> flags \<Rightarrow> mode_t \<Rightarrow> ('k world, opened_file open_result) io" where
  "mem_open_with_handle K fs path flags mode w =
     do { ((fd, n), w) \<leftarrow> open_node K fs path flags mode w;
          Done (\<lparr>or_fd = fd, or_opened = map_option (\<lambda>n. MemoryOpenedFile n (mem_nodes fs)) n\<rparr>, w) }"

definition mem_openat :: "'k kernel \<Rightarrow> memory_fs \<Rightarrow> fd \<Rightarrow> path \<Rightarrow> flags \<Rightarrow> mode_t \<Rightarrow> ('k world, fd) io" where
  "mem_openat K fs dirfd path flags mode w =
     do { assert_absolute path; mem_open K fs path flags mode w }"

definition mem_mkdir :: "'k kernel \<Rightarrow> memory_fs \<Rightarrow> path \<Rightarrow> mode_t \<Rightarrow> ('k world, int) io" where
  "mem_mkdir K fs path mode w =
     do { (r, w) \<leftarrow> create_node K fs path DirKind mode w;
          Done (case r of None \<Rightarrow> -1 | Some _ \<Rightarrow> 0, w) }"

definition mem_unlink :: "memory_fs \<Rightarrow> path \<Rightarrow> ('k world, int) io" where
  "mem_unlink fs path w = remove_node_at path (mem_nodes fs) (mem_root fs) FileKind w"

definition mem_rmdir :: "memory_fs \<Rightarrow> path \<Rightarrow> ('k world, int) io" where
  "mem_rmdir fs path w = remove_node_at path (mem_nodes fs) (mem_root fs) DirKind w"

definition mem_rename :: "memory_fs \<Rightarrow> path \<Rightarrow> path \<Rightarrow> ('k world, int) io" where
  "mem_rename fs old_path new_path w = rename_node_at old_path new_path (mem_nodes fs) (mem_root fs) w"

definition mem_chmod :: "'k kernel \<Rightarrow> memory_fs \<Rightarrow> path \<Rightarrow> mode_t \<Rightarrow> ('k world, int) io" where
  "mem_chmod K fs path mode w =
     do { r \<leftarrow> resolve fs path w;
          Done (case r of
                  None \<Rightarrow> (-1, w)
                | Some node \<Rightarrow>
                    let w = update_node node (\<lambda>n. n\<lparr>nd_mode := mode AND MODE_MASK\<rparr>) w
                    in (case nd_kind (heap w node) of
                          File _ \<Rightarrow> (0, w\<lparr>kern := snd (k_fchmod K (node_backing_fd (heap w node)) mode (kern w))\<rparr>)
                        | Directory _ _ \<Rightarrow> (0, w))) }"

definition mem_stat :: "'k kernel \<Rightarrow> memory_fs \<Rightarrow> path \<Rightarrow> stat_buf \<Rightarrow> ('k world, int \<times> stat_buf) io" where
  "mem_stat K fs path statbuf w =
     do { r \<leftarrow> resolve fs path w;
          Done (case r of
                  None \<Rightarrow> ((-1, statbuf), w)
                | Some node \<Rightarrow> stat_node K node (mem_nodes fs) statbuf w) }"

definition mem_read_dir :: "memory_fs \<Rightarrow> path \<Rightarrow> ('k world, vfs_dir_entry list option) io" where
  "mem_read_dir fs path w =
     do { r \<leftarrow> resolve fs path w;
          Done (case r of None \<Rightarrow> None | Some node \<Rightarrow> read_node_dir w (mem_nodes fs) node, w) }"

definition memory_fs_ops :: "'k kernel \<Rightarrow> memory_fs \<Rightarrow> ('k world, opened_file) fs_ops" where
  "memory_fs_ops K fs =
     \<lparr>fs_id = mem_id fs, fs_access = mem_access fs, fs_open = mem_open K fs, fs_openat = mem_openat K fs,
      fs_mkdir = mem_mkdir K fs, fs_unlink = mem_unlink fs, fs_rmdir = mem_rmdir fs,
      fs_rename = mem_rename fs, fs_chmod = mem_chmod K fs, fs_stat = mem_stat K fs,
      fs_open_with_handle = mem_open_with_handle K fs, fs_read_dir = mem_read_dir fs\<rparr>"

end
