(* ===== verification/NameTree.thy ===== *)
theory NameTree
  imports Prelude
begin

text \<open>
  The name structure of a file system, apart from its representation: a set \<open>N\<close> of nodes with a
  root \<open>r\<close>, a partial map \<open>child d x\<close> from a directory and a name to a node, and a parent of
  every node. \<open>name_tree\<close> is the local invariant that the operations keep; from it follows that
  no two paths from the root reach the same node, so a change to one directory entry changes the
  paths through that entry and no others. The three edits below (a new leaf, a removed entry, a
  moved entry) are all that the operations do to it.
\<close>

type_synonym 'a child = "'a \<Rightarrow> string \<Rightarrow> 'a option"

fun lookup_names :: "'a child \<Rightarrow> string list \<Rightarrow> 'a \<Rightarrow> 'a option" where
  "lookup_names child [] n = Some n"
| "lookup_names child (x # xs) n = Option.bind (child n x) (lookup_names child xs)"

definition name_tree :: "'a set \<Rightarrow> 'a \<Rightarrow> 'a child \<Rightarrow> ('a \<Rightarrow> 'a option) \<Rightarrow> bool" where
  "name_tree N r child parent \<longleftrightarrow>
     r \<in> N \<and> parent r = Some r \<and>
     (\<forall>d \<in> N. \<forall>x c. child d x = Some c \<longrightarrow> c \<in> N \<and> c \<noteq> r \<and> parent c = Some d) \<and>
     (\<forall>d \<in> N. \<forall>x y c. child d x = Some c \<longrightarrow> child d y = Some c \<longrightarrow> x = y)"

lemma lookup_append:
  "lookup_names child (xs @ ys) n = Option.bind (lookup_names child xs n) (lookup_names child ys)"
  by (induction xs arbitrary: n) (auto simp: bind_eq_None_conv split: bind_split)

lemma lookup_Nil_fun: "lookup_names child [] = Some"
  by (rule ext) simp

lemma lookup_snoc:
  "lookup_names child (xs @ [x]) n = Option.bind (lookup_names child xs n) (\<lambda>d. child d x)"
  by (induction xs arbitrary: n) (auto simp: lookup_Nil_fun Option.bind_assoc split: bind_split)

lemma name_tree_root: "name_tree N r child parent \<Longrightarrow> r \<in> N"
  by (simp add: name_tree_def)

lemma name_tree_child:
  "name_tree N r child parent \<Longrightarrow> d \<in> N \<Longrightarrow> child d x = Some c \<Longrightarrow> c \<in> N \<and> c \<noteq> r \<and> parent c = Some d"
  unfolding name_tree_def by blast

lemma name_tree_inj:
  "name_tree N r child parent \<Longrightarrow> d \<in> N \<Longrightarrow> child d x = Some c \<Longrightarrow> child d y = Some c \<Longrightarrow> x = y"
  unfolding name_tree_def by blast

lemma lookup_in:
  "name_tree N r child parent \<Longrightarrow> n \<in> N \<Longrightarrow> lookup_names child xs n = Some c \<Longrightarrow> c \<in> N"
  by (induction xs arbitrary: n) (auto simp: bind_eq_Some_conv dest: name_tree_child)

lemma lookup_not_root:
  assumes "name_tree N r child parent" "n \<in> N" "xs \<noteq> []" "lookup_names child xs n = Some c"
  shows "c \<noteq> r"
  using assms
  by (cases xs rule: rev_cases) (auto simp: lookup_snoc bind_eq_Some_conv dest: lookup_in name_tree_child)

text \<open>Every node is reached by at most one path.\<close>

lemma lookup_unique:
  assumes t: "name_tree N r child parent"
  shows "lookup_names child xs r = Some c \<Longrightarrow> lookup_names child ys r = Some c \<Longrightarrow> xs = ys"
proof (induction xs arbitrary: ys c rule: rev_induct)
  case Nil
  then show ?case
    using lookup_not_root [OF t name_tree_root [OF t]] by (metis lookup_names.simps(1) option.inject)
next
  case (snoc x xs)
  then have "c \<noteq> r"
    using lookup_not_root [OF t name_tree_root [OF t]] by blast
  with snoc.prems(2) obtain zs y where ys: "ys = zs @ [y]"
    by (cases ys rule: rev_cases) auto
  from snoc.prems(1) obtain d where d: "lookup_names child xs r = Some d" "child d x = Some c"
    by (auto simp: lookup_snoc bind_eq_Some_conv)
  from snoc.prems(2) ys obtain e where e: "lookup_names child zs r = Some e" "child e y = Some c"
    by (auto simp: lookup_snoc bind_eq_Some_conv)
  have "d \<in> N" "e \<in> N"
    using d e lookup_in [OF t name_tree_root [OF t]] by blast+
  with d e t have "d = e" by (metis name_tree_child option.inject)
  with d e t \<open>d \<in> N\<close> have "x = y" by (metis name_tree_inj)
  with snoc.IH [OF d(1)] e(1) \<open>d = e\<close> ys show ?case by simp
qed

lemma lookup_proper_prefix:
  assumes "name_tree N r child parent" "lookup_names child p r = Some d" "lookup_names child zs r = Some e"
    and "zs = p @ x # q"
  shows "d \<noteq> e"
proof
  assume "d = e"
  with assms(2,3) have "p = zs" by (blast intro: lookup_unique [OF assms(1)])
  with assms(4) show False by simp
qed

lemma lookup_other_edge:
  assumes "name_tree N r child parent" "lookup_names child p r = Some d" "lookup_names child xs r = Some e"
    and "zs = p @ z # q" and "\<not> prefix (xs @ [x]) zs"
  shows "\<not> (d = e \<and> z = x)"
proof
  assume "d = e \<and> z = x"
  with assms(2,3) have "p = xs" "z = x" by (blast intro: lookup_unique [OF assms(1)])+
  with assms(4,5) show False by (auto simp: prefix_def)
qed

text \<open>A change that a path does not pass through does not change the path.\<close>

lemma lookup_agree:
  assumes "\<And>p x q d. zs = p @ x # q \<Longrightarrow> lookup_names child p n = Some d \<Longrightarrow> child' d x = child d x"
  shows "lookup_names child' zs n = lookup_names child zs n"
  using assms
proof (induction zs arbitrary: n)
  case Nil
  then show ?case by simp
next
  case (Cons z zs)
  have z: "child' n z = child n z"
    using Cons.prems [of "[]" z zs n] by simp
  have "lookup_names child' zs c = lookup_names child zs c" if "child n z = Some c" for c
  proof (rule Cons.IH)
    fix p x q d
    assume "zs = p @ x # q" "lookup_names child p c = Some d"
    then show "child' d x = child d x"
      using Cons.prems [of "z # p" x q d] that by simp
  qed
  then show ?case using z by (cases "child n z") auto
qed

section \<open>A new leaf\<close>

definition child_insert :: "'a \<Rightarrow> string \<Rightarrow> 'a \<Rightarrow> 'a child \<Rightarrow> 'a child" where
  "child_insert p x i child = child(i := Map.empty, p := (child p)(x := Some i))"

lemma name_tree_insert:
  assumes t: "name_tree N r child parent" and i: "i \<notin> N" and p: "p \<noteq> i"
  shows "name_tree (insert i N) r (child_insert p x i child) (parent(i := Some p))"
proof -
  have fresh: "child d y \<noteq> Some i" if "d \<in> N" for d y
    using name_tree_child [OF t that] i by blast
  show ?thesis
    using t i p fresh unfolding name_tree_def child_insert_def
    by (auto split: if_splits)
qed

lemma lookup_insert:
  assumes t: "name_tree N r child parent" and i: "i \<notin> N" and p: "p \<noteq> i"
    and xs: "lookup_names child xs r = Some p" and free: "child p x = None"
  shows "lookup_names (child_insert p x i child) zs r =
           (if zs = xs @ [x] then Some i else lookup_names child zs r)"
proof (cases "prefix (xs @ [x]) zs")
  case False
  have "lookup_names (child_insert p x i child) zs r = lookup_names child zs r"
  proof (rule lookup_agree)
    fix q y s d
    assume zs: "zs = q @ y # s" and d: "lookup_names child q r = Some d"
    have "d \<in> N" using lookup_in [OF t name_tree_root [OF t] d] .
    then have "d \<noteq> i" using i by blast
    moreover have "\<not> (d = p \<and> y = x)"
      by (rule lookup_other_edge [OF t d xs zs False])
    ultimately show "child_insert p x i child d y = child d y"
      by (auto simp: child_insert_def)
  qed
  with False show ?thesis by auto
next
  case True
  then obtain t' where zs: "zs = xs @ [x] @ t'" by (auto simp: prefix_def)
  have old: "lookup_names child zs r = None"
    using xs free by (simp add: zs lookup_append)
  have "lookup_names (child_insert p x i child) xs r = Some p"
    unfolding xs [symmetric]
  proof (rule lookup_agree)
    fix q y s d
    assume zs: "xs = q @ y # s" and d: "lookup_names child q r = Some d"
    have "d \<in> N" using lookup_in [OF t name_tree_root [OF t] d] .
    moreover have "d \<noteq> p"
      by (rule lookup_proper_prefix [OF t d xs zs])
    ultimately show "child_insert p x i child d y = child d y"
      using i by (auto simp: child_insert_def)
  qed
  moreover have "child_insert p x i child p x = Some i" "child_insert p x i child i = Map.empty"
    using p by (auto simp: child_insert_def)
  ultimately show ?thesis
    using old by (cases t') (auto simp: zs lookup_append)
qed

section \<open>A removed entry\<close>

definition child_delete :: "'a \<Rightarrow> string \<Rightarrow> 'a child \<Rightarrow> 'a child" where
  "child_delete p x child = child(p := (child p)(x := None))"

lemma child_delete_apply:
  "child_delete p x child d z = (if d = p \<and> z = x then None else child d z)"
  by (simp add: child_delete_def)

lemma only_edge:
  assumes "name_tree N r child parent" "p \<in> N" "child p x = Some c" "d \<in> N" "child d z = Some c"
  shows "d = p \<and> z = x"
proof -
  have "parent c = Some p" "parent c = Some d"
    using name_tree_child [OF assms(1)] assms(2-5) by blast+
  then have "d = p" by simp
  then show ?thesis using name_tree_inj [OF assms(1)] assms(2-5) by blast
qed

lemma name_tree_delete:
  assumes t: "name_tree N r child parent" and p: "p \<in> N" and c: "child p x = Some c"
  shows "name_tree (N - {c}) r (child_delete p x child) (parent(c := None))"
proof -
  have cr: "c \<noteq> r" using name_tree_child [OF t p c] by blast
  have 1: "e \<in> N - {c} \<and> e \<noteq> r \<and> (parent(c := None)) e = Some d"
    if "d \<in> N - {c}" "child_delete p x child d z = Some e" for d z e
  proof -
    have d: "d \<in> N" and e: "child d z = Some e" and "\<not> (d = p \<and> z = x)"
      using that by (auto simp: child_delete_apply split: if_splits)
    then have "e \<noteq> c" using only_edge [OF t p c, of d z] by blast
    then show ?thesis using name_tree_child [OF t d e] by simp
  qed
  have 2: "z = z'"
    if "d \<in> N - {c}" "child_delete p x child d z = Some e" "child_delete p x child d z' = Some e" for d z z' e
    using that name_tree_inj [OF t, of d z e z'] by (simp add: child_delete_apply split: if_splits)
  have "r \<in> N - {c} \<and> (parent(c := None)) r = Some r"
    using t cr by (auto simp: name_tree_def)
  then show ?thesis unfolding name_tree_def using 1 2 by blast
qed

lemma lookup_delete:
  assumes t: "name_tree N r child parent"
    and xs: "lookup_names child xs r = Some p" and c: "child p x = Some c"
  shows "lookup_names (child_delete p x child) zs r =
           (if prefix (xs @ [x]) zs then None else lookup_names child zs r)"
proof (cases "prefix (xs @ [x]) zs")
  case False
  have "lookup_names (child_delete p x child) zs r = lookup_names child zs r"
  proof (rule lookup_agree)
    fix q y s d
    assume zs: "zs = q @ y # s" and d: "lookup_names child q r = Some d"
    have "\<not> (d = p \<and> y = x)"
      by (rule lookup_other_edge [OF t d xs zs False])
    then show "child_delete p x child d y = child d y"
      by (auto simp: child_delete_def)
  qed
  with False show ?thesis by auto
next
  case True
  then obtain t' where zs: "zs = xs @ [x] @ t'" by (auto simp: prefix_def)
  have "lookup_names (child_delete p x child) xs r = Some p"
    unfolding xs [symmetric]
  proof (rule lookup_agree)
    fix q y s d
    assume zs: "xs = q @ y # s" and d: "lookup_names child q r = Some d"
    have "d \<noteq> p" by (rule lookup_proper_prefix [OF t d xs zs])
    then show "child_delete p x child d y = child d y"
      by (auto simp: child_delete_def)
  qed
  then show ?thesis
    using True by (simp add: zs lookup_append child_delete_def)
qed

text \<open>Removing an entry whose node has no entries of its own removes one path.\<close>

lemma lookup_delete_leaf:
  assumes t: "name_tree N r child parent"
    and xs: "lookup_names child xs r = Some p" and c: "child p x = Some c" and leaf: "child c = Map.empty"
  shows "lookup_names (child_delete p x child) zs r =
           (if zs = xs @ [x] then None else lookup_names child zs r)"
proof -
  have "lookup_names child zs r = None" if pre: "prefix (xs @ [x]) zs" and "zs \<noteq> xs @ [x]"
  proof -
    from that obtain y ys where "zs = (xs @ [x]) @ y # ys"
      by (metis append_Nil2 neq_Nil_conv prefix_def)
    then show ?thesis using xs c leaf by (simp add: lookup_append)
  qed
  then show ?thesis
    using lookup_delete [OF t xs c, of zs] by auto
qed

section \<open>A moved entry\<close>

definition child_move :: "'a \<Rightarrow> string \<Rightarrow> 'a \<Rightarrow> string \<Rightarrow> 'a \<Rightarrow> 'a child \<Rightarrow> 'a child" where
  "child_move p x q y c child =
     (let child = child(p := (child p)(x := None)) in child(q := (child q)(y := Some c)))"

lemma child_move_apply:
  "child_move p x q y c child d z =
     (if d = q \<and> z = y then Some c else if d = p \<and> z = x then None else child d z)"
  by (simp add: child_move_def Let_def)

lemma name_tree_move:
  assumes t: "name_tree N r child parent" and p: "p \<in> N" and c: "child p x = Some c"
    and q: "q \<in> N" and free: "child q y = None"
  shows "name_tree N r (child_move p x q y c child) (parent(c := Some q))"
proof -
  have cN: "c \<in> N" "c \<noteq> r" using name_tree_child [OF t p c] by blast+
  have 1: "e \<in> N \<and> e \<noteq> r \<and> (parent(c := Some q)) e = Some d"
    if d: "d \<in> N" and z: "child_move p x q y c child d z = Some e" for d z e
  proof (cases "d = q \<and> z = y")
    case True
    then show ?thesis using z cN by (simp add: child_move_apply)
  next
    case False
    then have e: "child d z = Some e" and "\<not> (d = p \<and> z = x)"
      using z by (auto simp: child_move_apply split: if_splits)
    then have "e \<noteq> c" using only_edge [OF t p c d, of z] by blast
    then show ?thesis using name_tree_child [OF t d e] by simp
  qed
  have moved: "z = y" if "d \<in> N" "child_move p x q y c child d z = Some c" for d z
  proof (rule ccontr)
    assume "z \<noteq> y"
    then have "child d z = Some c" "\<not> (d = p \<and> z = x)"
      using that by (auto simp: child_move_apply split: if_splits)
    then show False using only_edge [OF t p c \<open>d \<in> N\<close>, of z] by blast
  qed
  have kept: "child d z = Some e" if "child_move p x q y c child d z = Some e" "e \<noteq> c" for d z e
    using that by (auto simp: child_move_apply split: if_splits)
  have 2: "z = z'" if d: "d \<in> N" and z: "child_move p x q y c child d z = Some e"
      "child_move p x q y c child d z' = Some e" for d z z' e
  proof (cases "e = c")
    case True
    then show ?thesis using moved [OF d] z by blast
  next
    case False
    then show ?thesis using kept z name_tree_inj [OF t d] by blast
  qed
  have "r \<in> N \<and> (parent(c := Some q)) r = Some r"
    using t cN by (auto simp: name_tree_def)
  then show ?thesis unfolding name_tree_def using 1 2 by blast
qed

lemma lookup_move:
  assumes t: "name_tree N r child parent"
    and xs: "lookup_names child xs r = Some p" and c: "child p x = Some c"
    and ys: "lookup_names child ys r = Some q" and free: "child q y = None"
    and below: "\<not> prefix (xs @ [x]) (ys @ [y])"
  shows "lookup_names (child_move p x q y c child) zs r =
           (if prefix (ys @ [y]) zs then lookup_names child (xs @ [x] @ drop (length ys + 1) zs) r
            else if prefix (xs @ [x]) zs then None
            else lookup_names child zs r)"
proof -
  let ?child = "child_move p x q y c child"
  have off: "lookup_names ?child zs r = lookup_names child zs r"
    if "\<not> prefix (ys @ [y]) zs" "\<not> prefix (xs @ [x]) zs" for zs
  proof (rule lookup_agree)
    fix u z s d
    assume zs: "zs = u @ z # s" and d: "lookup_names child u r = Some d"
    have "\<not> (d = p \<and> z = x)" "\<not> (d = q \<and> z = y)"
      using lookup_other_edge [OF t d xs zs that(2)] lookup_other_edge [OF t d ys zs that(1)] by blast+
    then show "?child d z = child d z" by (auto simp: child_move_apply)
  qed
  have notxy: "\<not> (p = q \<and> x = y)" using c free by auto
  show ?thesis
  proof (cases "prefix (ys @ [y]) zs")
    case True
    then obtain s where zs: "zs = ys @ [y] @ s" by (auto simp: prefix_def)
    have "\<not> prefix (ys @ [y]) ys" by (auto simp: prefix_def)
    moreover have "\<not> prefix (xs @ [x]) ys"
      using below by (metis prefix_prefix)
    ultimately have "lookup_names ?child ys r = Some q"
      using off ys by simp
    moreover have "?child q y = Some c" by (simp add: child_move_apply)
    moreover have "lookup_names ?child s c = lookup_names child s c"
    proof (rule lookup_agree)
      fix u z v d
      assume s: "s = u @ z # v" and d: "lookup_names child u c = Some d"
      then have path: "lookup_names child (xs @ [x] @ u) r = Some d"
        using xs c by (simp add: lookup_append)
      have "d \<noteq> p"
        using lookup_proper_prefix [OF t xs path, of x u] by simp
      moreover have "d \<noteq> q"
      proof
        assume "d = q"
        with path ys have "ys = xs @ [x] @ u" by (blast intro: lookup_unique [OF t])
        then show False using below by (auto simp: prefix_def)
      qed
      ultimately show "?child d z = child d z" by (auto simp: child_move_apply)
    qed
    ultimately show ?thesis
      using True xs c by (simp add: zs lookup_append)
  next
    case False
    show ?thesis
    proof (cases "prefix (xs @ [x]) zs")
      case pre: True
      then obtain s where zs: "zs = xs @ [x] @ s" by (auto simp: prefix_def)
      have "\<not> prefix (ys @ [y]) xs" using False zs by (auto simp: prefix_def)
      moreover have "\<not> prefix (xs @ [x]) xs" by (auto simp: prefix_def)
      ultimately have "lookup_names ?child xs r = Some p" using off xs by simp
      moreover have "?child p x = None" using notxy by (auto simp: child_move_apply)
      ultimately show ?thesis using False pre by (simp add: zs lookup_append)
    next
      case not_old: False
      then show ?thesis using off [OF False not_old] False by simp
    qed
  qed
qed

end
