(* ===== verification/MemoryInv.thy ===== *)
theory MemoryInv
  imports MemoryFS NameTree
begin

text \<open>
  The invariant of the in-memory file systems of a process, and that every operation keeps it.
  \<open>world_inv\<close>: the node map of each file system, with its directory entries and parent links, is
  a name tree; its nodes are allocated, carry their own id, have one link and sorted entries; two
  file systems share no node. \<open>handle_ok\<close>: the node of an opened file is either in the node map or
  detached (no parent, no links). \<open>evolves\<close>: what no operation ever changes of an existing node.
\<close>

section \<open>The name structure of a world\<close>

definition entries_of :: "node \<Rightarrow> (string, node_id) btree_map" where
  "entries_of n = (case nd_kind n of File _ \<Rightarrow> [] | Directory es _ \<Rightarrow> es)"

definition child :: "'k world \<Rightarrow> node_id child" where
  "child w d x = btree_get (entries_of (heap w d)) x"

definition parent_of :: "'k world \<Rightarrow> node_id \<Rightarrow> node_id option" where
  "parent_of w i = nd_parent (heap w i)"

definition node_ok :: "'k world \<Rightarrow> node_id \<Rightarrow> bool" where
  "node_ok w i \<longleftrightarrow> i < next_node_id w \<and> nd_id (heap w i) = i \<and> nd_links (heap w i) = 1 \<and>
     btree_sorted (entries_of (heap w i))"

definition mem_inv :: "'k world \<Rightarrow> map_ref \<Rightarrow> bool" where
  "mem_inv w r \<longleftrightarrow> name_tree (node_maps w r) r (child w) (parent_of w) \<and> is_directory (heap w r) \<and>
     (\<forall>i \<in> node_maps w r. node_ok w i)"

definition world_inv :: "'k world \<Rightarrow> bool" where
  "world_inv w \<longleftrightarrow> (\<forall>r. node_maps w r \<noteq> {} \<longrightarrow> mem_inv w r) \<and>
     (\<forall>r r'. r \<noteq> r' \<longrightarrow> node_maps w r \<inter> node_maps w r' = {})"

text \<open>A file system made by \<open>MemoryFS::new\<close> whose node map is in place.\<close>

definition live :: "'k world \<Rightarrow> memory_fs \<Rightarrow> bool" where
  "live w fs \<longleftrightarrow> node_maps w (mem_nodes fs) \<noteq> {} \<and> mem_root fs = mem_nodes fs"

fun handle_ok :: "'k world \<Rightarrow> opened_file \<Rightarrow> bool" where
  "handle_ok w (MemoryOpenedFile a m) \<longleftrightarrow>
     a < next_node_id w \<and> node_maps w m \<noteq> {} \<and> (\<forall>m'. m' \<noteq> m \<longrightarrow> a \<notin> node_maps w m') \<and>
     nd_id (heap w a) = a \<and> btree_sorted (entries_of (heap w a)) \<and>
     (a \<notin> node_maps w m \<longrightarrow> nd_links (heap w a) = 0 \<and> nd_parent (heap w a) = None)"

definition evolves :: "'k world \<Rightarrow> 'k world \<Rightarrow> bool" where
  "evolves w w' \<longleftrightarrow> next_node_id w \<le> next_node_id w' \<and>
     (\<forall>r. node_maps w r \<noteq> {} \<longrightarrow> node_maps w' r \<noteq> {}) \<and>
     (\<forall>a < next_node_id w.
        (\<forall>r. a \<in> node_maps w' r \<longrightarrow> a \<in> node_maps w r) \<and>
        nd_id (heap w' a) = nd_id (heap w a) \<and>
        is_directory (heap w' a) = is_directory (heap w a) \<and>
        node_backing_fd (heap w' a) = node_backing_fd (heap w a) \<and>
        (btree_sorted (entries_of (heap w a)) \<longrightarrow> btree_sorted (entries_of (heap w' a))) \<and>
        ((\<exists>r. a \<in> node_maps w r) \<and> (\<forall>r. a \<notin> node_maps w' r) \<longrightarrow>
           nd_links (heap w' a) = 0 \<and> nd_parent (heap w' a) = None) \<and>
        ((\<forall>r. a \<notin> node_maps w r) \<longrightarrow>
           nd_links (heap w' a) = nd_links (heap w a) \<and> nd_parent (heap w' a) = nd_parent (heap w a)))"

section \<open>Writes to the heap\<close>

lemma heap_update_node [mem_simps]:
  "heap (update_node a f w) b = (if b = a then f (heap w a) else heap w b)"
  by (simp add: update_node_def)

lemma world_update_node [mem_simps]:
  "node_maps (update_node a f w) = node_maps w"
  "next_node_id (update_node a f w) = next_node_id w"
  "kern (update_node a f w) = kern w"
  by (simp_all add: update_node_def)

lemma world_nodes_remove [mem_simps]:
  "node_maps (nodes_remove m i w) = (node_maps w)(m := node_maps w m - {i})"
  "heap (nodes_remove m i w) = heap w"
  "next_node_id (nodes_remove m i w) = next_node_id w"
  "kern (nodes_remove m i w) = kern w"
  by (simp_all add: nodes_remove_def)

lemma world_nodes_insert [mem_simps]:
  "node_maps (nodes_insert m i w) = (node_maps w)(m := insert i (node_maps w m))"
  "heap (nodes_insert m i w) = heap w"
  "next_node_id (nodes_insert m i w) = next_node_id w"
  "kern (nodes_insert m i w) = kern w"
  by (simp_all add: nodes_insert_def)

lemma entries_set_entries [mem_simps]:
  "entries_of (set_entries es n) = (if is_directory n then es else [])"
  by (auto simp: set_entries_def entries_of_def is_directory_def split: node_kind.splits)

lemma set_entries_other [mem_simps]:
  "nd_id (set_entries es n) = nd_id n"
  "nd_parent (set_entries es n) = nd_parent n"
  "nd_links (set_entries es n) = nd_links n"
  "nd_mode (set_entries es n) = nd_mode n"
  "is_directory (set_entries es n) = is_directory n"
  "node_backing_fd (set_entries es n) = node_backing_fd n"
  "entry_kind (set_entries es n) = entry_kind n"
  by (auto simp: set_entries_def is_directory_def node_backing_fd_def entry_kind_def split: node_kind.splits)

lemma node_field_updates [mem_simps]:
  "entries_of (n\<lparr>nd_parent := p\<rparr>) = entries_of n"
  "entries_of (n\<lparr>nd_links := l\<rparr>) = entries_of n"
  "entries_of (n\<lparr>nd_mode := md\<rparr>) = entries_of n"
  "is_directory (n\<lparr>nd_parent := p\<rparr>) = is_directory n"
  "is_directory (n\<lparr>nd_links := l\<rparr>) = is_directory n"
  "is_directory (n\<lparr>nd_mode := md\<rparr>) = is_directory n"
  "node_backing_fd (n\<lparr>nd_parent := p\<rparr>) = node_backing_fd n"
  "node_backing_fd (n\<lparr>nd_links := l\<rparr>) = node_backing_fd n"
  "node_backing_fd (n\<lparr>nd_mode := md\<rparr>) = node_backing_fd n"
  "entry_kind (n\<lparr>nd_parent := p\<rparr>) = entry_kind n"
  "entry_kind (n\<lparr>nd_links := l\<rparr>) = entry_kind n"
  "entry_kind (n\<lparr>nd_mode := md\<rparr>) = entry_kind n"
  by (simp_all add: entries_of_def is_directory_def node_backing_fd_def entry_kind_def)

lemma detach_node_simps [mem_simps]:
  "heap (detach_node a w) b = (if b = a then (heap w a)\<lparr>nd_parent := None, nd_links := 0\<rparr> else heap w b)"
  "node_maps (detach_node a w) = node_maps w"
  "next_node_id (detach_node a w) = next_node_id w"
  "kern (detach_node a w) = kern w"
  by (simp_all add: detach_node_def mem_simps)

lemma directory_kind: "nd_kind n = Directory es fd \<Longrightarrow> is_directory n \<and> entries_of n = es"
  by (simp add: is_directory_def entries_of_def)

lemma file_kind: "nd_kind n = File fd \<Longrightarrow> \<not> is_directory n \<and> entries_of n = []"
  by (simp add: is_directory_def entries_of_def)

lemma entry_kind_dir: "entry_kind n = (if is_directory n then DirKind else FileKind)"
  by (simp add: entry_kind_def is_directory_def split: node_kind.splits)

section \<open>Handles and evolution\<close>

lemma evolves_refl: "evolves w w"
  by (auto simp: evolves_def)

lemma evolves_trans:
  assumes 1: "evolves w w'" and 2: "evolves w' w''"
  shows "evolves w w''"
proof -
  have le: "next_node_id w \<le> next_node_id w'" using 1 by (simp add: evolves_def)
  have a: "a < next_node_id w'" if "a < next_node_id w" for a using that le by simp
  show ?thesis
    unfolding evolves_def
  proof (intro conjI allI impI)
    show "next_node_id w \<le> next_node_id w''" using 1 2 by (auto simp: evolves_def)
    show "node_maps w'' r \<noteq> {}" if "node_maps w r \<noteq> {}" for r
      using 1 2 that unfolding evolves_def by blast
    fix b assume b: "b < next_node_id w"
    show "b \<in> node_maps w r" if "b \<in> node_maps w'' r" for r
      using 1 2 b a that unfolding evolves_def by blast
    show "nd_id (heap w'' b) = nd_id (heap w b)" "is_directory (heap w'' b) = is_directory (heap w b)"
      "node_backing_fd (heap w'' b) = node_backing_fd (heap w b)"
      using 1 2 b a unfolding evolves_def by metis+
    show "btree_sorted (entries_of (heap w'' b))" if "btree_sorted (entries_of (heap w b))"
      using 1 2 b a that unfolding evolves_def by blast
    show "nd_links (heap w'' b) = 0" "nd_parent (heap w'' b) = None"
      if "(\<exists>r. b \<in> node_maps w r) \<and> (\<forall>r. b \<notin> node_maps w'' r)"
      using 1 2 b a that unfolding evolves_def by metis+
    show "nd_links (heap w'' b) = nd_links (heap w b)" "nd_parent (heap w'' b) = nd_parent (heap w b)"
      if "\<forall>r. b \<notin> node_maps w r"
      using 1 2 b a that unfolding evolves_def by metis+
  qed
qed

lemma evolves_handle:
  assumes "evolves w w'" "handle_ok w h"
  shows "handle_ok w' h"
proof (cases h)
  case (MemoryOpenedFile a m)
  have a: "a < next_node_id w" "node_maps w m \<noteq> {}" "\<And>m'. m' \<noteq> m \<Longrightarrow> a \<notin> node_maps w m'"
      "nd_id (heap w a) = a" "btree_sorted (entries_of (heap w a))"
      "a \<notin> node_maps w m \<Longrightarrow> nd_links (heap w a) = 0 \<and> nd_parent (heap w a) = None"
    using assms(2) MemoryOpenedFile by auto
  have others: "a \<notin> node_maps w' m'" if "m' \<noteq> m" for m'
    using assms(1) a(1) a(3) [OF that] unfolding evolves_def by blast
  have "nd_links (heap w' a) = 0 \<and> nd_parent (heap w' a) = None" if out: "a \<notin> node_maps w' m"
  proof (cases "a \<in> node_maps w m")
    case True
    have "\<forall>r. a \<notin> node_maps w' r" using others out by metis
    then show ?thesis using assms(1) a(1) True unfolding evolves_def by blast
  next
    case False
    then have "\<forall>r. a \<notin> node_maps w r" using a(3) by metis
    then show ?thesis using assms(1) a(1) a(6) False unfolding evolves_def by metis
  qed
  then show ?thesis
    using assms(1) a others MemoryOpenedFile by (auto simp: evolves_def)
qed

lemma evolves_live: "evolves w w' \<Longrightarrow> live w fs \<Longrightarrow> live w' fs"
  by (simp add: evolves_def live_def)

section \<open>Using and rebuilding the invariant\<close>

lemma world_inv_mem: "world_inv w \<Longrightarrow> node_maps w r \<noteq> {} \<Longrightarrow> mem_inv w r"
  by (simp add: world_inv_def)

lemma world_inv_in: "world_inv w \<Longrightarrow> i \<in> node_maps w r \<Longrightarrow> mem_inv w r \<and> node_ok w i"
  by (auto simp: world_inv_def mem_inv_def)

lemma world_inv_disjoint: "world_inv w \<Longrightarrow> i \<in> node_maps w r \<Longrightarrow> i \<in> node_maps w r' \<Longrightarrow> r = r'"
  unfolding world_inv_def by blast

lemma mem_inv_tree: "mem_inv w r \<Longrightarrow> name_tree (node_maps w r) r (child w) (parent_of w)"
  by (simp add: mem_inv_def)

lemma mem_inv_child:
  "mem_inv w r \<Longrightarrow> d \<in> node_maps w r \<Longrightarrow> child w d x = Some c \<Longrightarrow>
     c \<in> node_maps w r \<and> c \<noteq> r \<and> parent_of w c = Some d"
  by (rule name_tree_child [OF mem_inv_tree])

lemma name_tree_cong:
  assumes "name_tree N r ch pa" "\<And>i x. i \<in> N \<Longrightarrow> ch' i x = ch i x" "\<And>i. i \<in> N \<Longrightarrow> pa' i = pa i"
  shows "name_tree N r ch' pa'"
proof -
  have "c \<in> N \<and> c \<noteq> r \<and> pa' c = Some d" if "d \<in> N" "ch' d x = Some c" for d x c
    using name_tree_child [OF assms(1), of d x c] that assms(2,3) by simp
  moreover have "x = y" if "d \<in> N" "ch' d x = Some c" "ch' d y = Some c" for d x y c
    using name_tree_inj [OF assms(1), of d x c y] that assms(2) by simp
  moreover have "r \<in> N \<and> pa' r = Some r"
    using assms(1,3) by (simp add: name_tree_def)
  ultimately show ?thesis
    unfolding name_tree_def by blast
qed

lemma mem_inv_frame:
  assumes "mem_inv w r" "next_node_id w \<le> next_node_id w'" "node_maps w' r = node_maps w r"
    and heap: "\<And>i. i \<in> node_maps w r \<Longrightarrow> heap w' i = heap w i"
  shows "mem_inv w' r"
proof -
  have "name_tree (node_maps w r) r (child w') (parent_of w')"
    by (rule name_tree_cong [OF mem_inv_tree [OF assms(1)]])
       (simp_all add: child_def parent_of_def heap)
  moreover have "is_directory (heap w' r)"
    using assms heap name_tree_root by (metis mem_inv_def)
  moreover have "node_ok w' i" if "i \<in> node_maps w r" for i
    using assms(1,2) that heap [OF that] by (auto simp: mem_inv_def node_ok_def)
  ultimately show ?thesis using assms(3) by (simp add: mem_inv_def)
qed

text \<open>An operation on one file system: show its own structure, the others follow.\<close>

lemma world_inv_update:
  assumes w: "world_inv w" and le: "next_node_id w \<le> next_node_id w'"
    and maps: "node_maps w' = (node_maps w)(m := N')"
    and frame: "\<And>r i. r \<noteq> m \<Longrightarrow> i \<in> node_maps w r \<Longrightarrow> heap w' i = heap w i"
    and own: "mem_inv w' m"
    and disj: "\<And>r. r \<noteq> m \<Longrightarrow> N' \<inter> node_maps w r = {}"
  shows "world_inv w'"
proof -
  have "mem_inv w' r" if "r \<noteq> m" "node_maps w r \<noteq> {}" for r
  proof (rule mem_inv_frame [OF world_inv_mem [OF w that(2)] le])
    show "node_maps w' r = node_maps w r" using maps that by simp
    show "heap w' i = heap w i" if "i \<in> node_maps w r" for i
      using frame \<open>r \<noteq> m\<close> that .
  qed
  then have "node_maps w' r \<noteq> {} \<longrightarrow> mem_inv w' r" for r
    using own maps by (cases "r = m") auto
  moreover have "node_maps w' r \<inter> node_maps w' r' = {}" if "r \<noteq> r'" for r r'
    using w disj that unfolding maps world_inv_def by (cases "r = m"; cases "r' = m") auto
  ultimately show ?thesis by (simp add: world_inv_def)
qed

text \<open>No change but in the kernel, the counter, or a node's mode.\<close>

definition same_tree :: "'k world \<Rightarrow> 'k world \<Rightarrow> bool" where
  "same_tree w w' \<longleftrightarrow> next_node_id w \<le> next_node_id w' \<and> node_maps w' = node_maps w \<and>
     (\<exists>f. \<forall>i. heap w' i = (heap w i)\<lparr>nd_mode := f i\<rparr>)"

lemma same_tree_heap:
  assumes "same_tree w w'"
  shows "entries_of (heap w' i) = entries_of (heap w i)" "nd_parent (heap w' i) = nd_parent (heap w i)"
    "nd_id (heap w' i) = nd_id (heap w i)" "nd_links (heap w' i) = nd_links (heap w i)"
    "is_directory (heap w' i) = is_directory (heap w i)"
    "node_backing_fd (heap w' i) = node_backing_fd (heap w i)"
    "entry_kind (heap w' i) = entry_kind (heap w i)"
proof -
  obtain md where h: "heap w' i = (heap w i)\<lparr>nd_mode := md\<rparr>"
    using assms by (auto simp: same_tree_def)
  show "entries_of (heap w' i) = entries_of (heap w i)" "nd_parent (heap w' i) = nd_parent (heap w i)"
    "nd_id (heap w' i) = nd_id (heap w i)" "nd_links (heap w' i) = nd_links (heap w i)"
    "is_directory (heap w' i) = is_directory (heap w i)"
    "node_backing_fd (heap w' i) = node_backing_fd (heap w i)"
    "entry_kind (heap w' i) = entry_kind (heap w i)"
    by (simp_all add: h mem_simps)
qed

lemma same_tree_child: "same_tree w w' \<Longrightarrow> child w' = child w"
  by (simp add: child_def fun_eq_iff same_tree_heap)

lemma same_tree_parent: "same_tree w w' \<Longrightarrow> parent_of w' = parent_of w"
  by (simp add: parent_of_def fun_eq_iff same_tree_heap)

lemma same_tree_refl: "same_tree w w"
  by (auto simp: same_tree_def intro!: exI [of _ "\<lambda>i. nd_mode (heap w i)"])

lemma same_treeI:
  assumes "next_node_id w \<le> next_node_id w'" "node_maps w' = node_maps w" "heap w' = heap w"
  shows "same_tree w w'"
  using assms same_tree_refl [of w] unfolding same_tree_def by simp

lemma same_tree_kern: "same_tree w (w\<lparr>kern := k\<rparr>)"
  by (rule same_treeI) simp_all

lemma same_tree_mode: "same_tree w (update_node a (\<lambda>n. n\<lparr>nd_mode := md\<rparr>) w)"
  unfolding same_tree_def
  by (auto simp: mem_simps intro!: exI [of _ "\<lambda>i. if i = a then md else nd_mode (heap w i)"])

lemma same_tree_trans:
  assumes "same_tree w w'" "same_tree w' w''"
  shows "same_tree w w''"
proof -
  obtain f g where "\<And>i. heap w' i = (heap w i)\<lparr>nd_mode := f i\<rparr>" "\<And>i. heap w'' i = (heap w' i)\<lparr>nd_mode := g i\<rparr>"
    using assms by (auto simp: same_tree_def)
  then have "\<And>i. heap w'' i = (heap w i)\<lparr>nd_mode := g i\<rparr>" by simp
  then show ?thesis using assms unfolding same_tree_def by auto
qed

lemma same_tree_maps: "same_tree w w' \<Longrightarrow> node_maps w' = node_maps w"
  by (simp add: same_tree_def)

lemma same_tree_next: "same_tree w w' \<Longrightarrow> next_node_id w \<le> next_node_id w'"
  by (simp add: same_tree_def)

lemma same_tree_inv:
  assumes st: "same_tree w w'" and w: "world_inv w"
  shows "world_inv w'"
proof -
  have "mem_inv w' r" if "mem_inv w r" for r
  proof -
    have "node_ok w' i" if "node_ok w i" for i
      using that same_tree_next [OF st] by (simp add: node_ok_def same_tree_heap [OF st])
    then show ?thesis
      using that by (simp add: mem_inv_def same_tree_child [OF st] same_tree_parent [OF st]
          same_tree_maps [OF st] same_tree_heap [OF st])
  qed
  then show ?thesis
    using w by (simp add: world_inv_def same_tree_maps [OF st])
qed

lemma same_tree_evolves: "same_tree w w' \<Longrightarrow> evolves w w'"
  unfolding evolves_def
  by (auto simp: same_tree_heap same_tree_maps same_tree_next)

end
