(* ===== verification/MemoryEdits.thy ===== *)
theory MemoryEdits
  imports MemoryInv
begin

text \<open>
  The effect of each mutation of the in-memory file system on the name structure: creation,
  removal and the two branches of a rename as edits of the name tree. From the edits follow that
  the invariant is kept and how the set of visible paths changes.
\<close>

section \<open>Fields\<close>

lemma child_parent_writes [mem_simps]:
  "child (update_node a (\<lambda>n. n\<lparr>nd_parent := p\<rparr>) w) = child w"
  "parent_of (update_node a (\<lambda>n. n\<lparr>nd_parent := p\<rparr>) w) = (parent_of w)(a := p)"
  "parent_of (update_node a (set_entries es) w) = parent_of w"
  "child (detach_node a w) = child w"
  "parent_of (detach_node a w) = (parent_of w)(a := None)"
  "child (nodes_remove m i w) = child w"
  "parent_of (nodes_remove m i w) = parent_of w"
  "child (w\<lparr>kern := k\<rparr>) = child w"
  "parent_of (w\<lparr>kern := k\<rparr>) = parent_of w"
  by (auto simp: child_def parent_of_def fun_eq_iff mem_simps)

lemma child_set_entries:
  "is_directory (heap w a) \<Longrightarrow> child (update_node a (set_entries es) w) = (child w)(a := btree_get es)"
  by (auto simp: child_def fun_eq_iff mem_simps)

lemma child_file: "\<not> is_directory (heap w a) \<Longrightarrow> child w a x = None"
  by (auto simp: child_def entries_of_def is_directory_def btree_get_def split: node_kind.splits)

lemma child_directory: "child w a x = Some c \<Longrightarrow> is_directory (heap w a)"
  using child_file by fastforce

lemma empty_entries_child: "entries_of (heap w a) = [] \<Longrightarrow> child w a = Map.empty"
  by (simp add: child_def fun_eq_iff btree_get_def)

lemma child_empty_entries:
  assumes "node_ok w a"
  shows "entries_of (heap w a) = [] \<longleftrightarrow> child w a = Map.empty"
  using assms bt.iter_Nil_iff [of "entries_of (heap w a)"] by (auto simp: node_ok_def child_def fun_eq_iff)

section \<open>Evolution of single writes\<close>

lemma evolves_entries:
  assumes "btree_sorted (entries_of (heap w a)) \<Longrightarrow> btree_sorted es"
  shows "evolves w (update_node a (set_entries es) w)"
  using assms unfolding evolves_def
  by (auto simp: mem_simps btree_sorted_def)

lemma evolves_parent:
  assumes "a \<in> node_maps w m"
  shows "evolves w (update_node a (\<lambda>n. n\<lparr>nd_parent := p\<rparr>) w)"
  using assms unfolding evolves_def by (auto simp: mem_simps)

lemma evolves_drop:
  assumes c: "c \<in> node_maps w m" and r: "r \<in> node_maps w m" "c \<noteq> r"
  shows "evolves w (nodes_remove m c (detach_node c w))"
  unfolding evolves_def
proof (intro conjI allI impI)
  show "node_maps (nodes_remove m c (detach_node c w)) r' \<noteq> {}" if "node_maps w r' \<noteq> {}" for r'
    using that r by (auto simp: mem_simps)
  fix a
  show "a \<in> node_maps w r'" if "a \<in> node_maps (nodes_remove m c (detach_node c w)) r'" for r'
    using that by (simp add: mem_simps split: if_splits)
  {
    assume gone: "(\<exists>r. a \<in> node_maps w r) \<and> (\<forall>r. a \<notin> node_maps (nodes_remove m c (detach_node c w)) r)"
    then have "a = c" by (auto simp: mem_simps split: if_splits)
    then show "nd_links (heap (nodes_remove m c (detach_node c w)) a) = 0"
      "nd_parent (heap (nodes_remove m c (detach_node c w)) a) = None"
      by (simp_all add: mem_simps)
  }
  assume "\<forall>r. a \<notin> node_maps w r"
  then have "a \<noteq> c" using c by blast
  then show "nd_links (heap (nodes_remove m c (detach_node c w)) a) = nd_links (heap w a)"
    "nd_parent (heap (nodes_remove m c (detach_node c w)) a) = nd_parent (heap w a)"
    by (simp_all add: mem_simps)
qed (auto simp: mem_simps)

section \<open>Edits within one file system\<close>

lemma world_inv_edit:
  assumes w: "world_inv w" and N: "node_maps w m \<noteq> {}"
    and next_id: "next_node_id w' = next_node_id w"
    and maps: "node_maps w' = (node_maps w)(m := N')" and sub: "N' \<subseteq> node_maps w m"
    and tree: "name_tree N' m (child w') (parent_of w')"
    and frame: "\<And>i. i \<notin> node_maps w m \<Longrightarrow> heap w' i = heap w i"
    and ev: "evolves w w'"
    and links: "\<And>i. i \<in> N' \<Longrightarrow> nd_links (heap w' i) = nd_links (heap w i)"
  shows "world_inv w'"
proof (rule world_inv_update [OF w _ maps])
  have own: "mem_inv w m" using w N by (rule world_inv_mem)
  show "next_node_id w \<le> next_node_id w'" using next_id by simp
  show "heap w' i = heap w i" if "r \<noteq> m" "i \<in> node_maps w r" for r i
    using frame world_inv_disjoint [OF w] that by blast
  show "N' \<inter> node_maps w r = {}" if "r \<noteq> m" for r
    using sub world_inv_disjoint [OF w] that by blast
  have keep: "node_ok w' i" if i: "i \<in> N'" for i
  proof -
    have "node_ok w i" using own sub i by (auto simp: mem_inv_def)
    then show ?thesis
      using links [OF i] ev next_id by (auto simp: node_ok_def evolves_def)
  qed
  have "m \<in> N'" using tree by (rule name_tree_root)
  then have "node_ok w m" using own sub by (auto simp: mem_inv_def)
  moreover have "is_directory (heap w m)" using own by (simp add: mem_inv_def)
  ultimately have "is_directory (heap w' m)"
    using ev by (auto simp: evolves_def node_ok_def)
  then show "mem_inv w' m"
    using tree keep maps by (simp add: mem_inv_def)
qed

subsection \<open>Removal\<close>

text \<open>The writes of \<open>remove_node_at\<close>.\<close>

definition remove_entry :: "map_ref \<Rightarrow> node_id \<Rightarrow> string \<Rightarrow> node_id \<Rightarrow> 'k world \<Rightarrow> 'k world" where
  "remove_entry m d x c w =
     nodes_remove m c (detach_node c
       (update_node d (set_entries (btree_remove x (entries_of (heap w d)))) w))"

lemma remove_entry_effect:
  assumes w: "world_inv w" and d: "d \<in> node_maps w m" and c: "child w d x = Some c"
    and leaf: "child w c = Map.empty"
  shows "world_inv (remove_entry m d x c w)" "evolves w (remove_entry m d x c w)"
    "child (remove_entry m d x c w) = child_delete d x (child w)"
proof -
  let ?w = "remove_entry m d x c w"
  have inv: "mem_inv w m" and dok: "node_ok w d" using world_inv_in [OF w d] by auto
  have cN: "c \<in> node_maps w m" "c \<noteq> m" using mem_inv_child [OF inv d c] by auto
  have dc: "d \<noteq> c" using c leaf by auto
  have get: "btree_get (btree_remove x (entries_of (heap w d))) = (child w d)(x := None)"
    using dok by (simp add: bt.get_remove node_ok_def child_def fun_eq_iff)
  show ch: "child ?w = child_delete d x (child w)"
    using child_directory [OF c] by (simp add: remove_entry_def mem_simps child_set_entries get child_delete_def)
  have pa: "parent_of ?w = (parent_of w)(c := None)"
    by (simp add: remove_entry_def mem_simps)
  have "evolves w (update_node d (set_entries (btree_remove x (entries_of (heap w d)))) w)"
    by (rule evolves_entries) (rule bt.invar_remove)
  moreover have "evolves (update_node d (set_entries (btree_remove x (entries_of (heap w d)))) w) ?w"
    unfolding remove_entry_def
    by (rule evolves_drop [of _ _ _ m])
       (use cN name_tree_root [OF mem_inv_tree [OF inv]] in \<open>auto simp: mem_simps\<close>)
  ultimately show ev: "evolves w ?w" by (rule evolves_trans)
  show "world_inv ?w"
  proof (rule world_inv_edit [OF w, where m = m and N' = "node_maps w m - {c}"])
    show "name_tree (node_maps w m - {c}) m (child ?w) (parent_of ?w)"
      unfolding ch pa by (rule name_tree_delete [OF mem_inv_tree [OF inv] d c])
  qed (use d cN ev in \<open>auto simp: remove_entry_def mem_simps\<close>)
qed

subsection \<open>Moving, with or without a replaced node\<close>

text \<open>
  What both branches of \<open>rename_node_at\<close> amount to: an optional replaced node leaves the
  namespace, then the entry moves.
\<close>

definition replace_child :: "node_id option \<Rightarrow> node_id \<Rightarrow> string \<Rightarrow> node_id child \<Rightarrow> node_id child" where
  "replace_child rep q y ch = (case rep of None \<Rightarrow> ch | Some _ \<Rightarrow> child_delete q y ch)"

definition clear_parent :: "node_id option \<Rightarrow> (node_id \<Rightarrow> node_id option) \<Rightarrow> node_id \<Rightarrow> node_id option" where
  "clear_parent rep pa = (case rep of None \<Rightarrow> pa | Some e \<Rightarrow> pa(e := None))"

lemma move_tree:
  assumes t: "name_tree N r ch pa" and p: "p \<in> N" and c: "ch p x = Some c" and q: "q \<in> N"
    and rep: "ch q y = rep" and leaf: "\<And>e. rep = Some e \<Longrightarrow> ch e = Map.empty \<and> e \<noteq> c"
  shows "name_tree (N - set_option rep) r (child_move p x q y c (replace_child rep q y ch))
           ((clear_parent rep pa)(c := Some q))"
proof (cases rep)
  case None
  then show ?thesis
    using name_tree_move [OF t p c q] rep by (simp add: replace_child_def clear_parent_def)
next
  case (Some e)
  have e: "ch q y = Some e" "ch e = Map.empty" "e \<noteq> c" using rep leaf Some by auto
  then have ne: "q \<noteq> e" "p \<noteq> e" using c by auto
  have "name_tree (N - {e}) r (child_delete q y ch) (pa(e := None))"
    by (rule name_tree_delete [OF t q e(1)])
  then have "name_tree (N - {e}) r (child_move p x q y c (child_delete q y ch)) ((pa(e := None))(c := Some q))"
    by (rule name_tree_move) (use p q c e ne in \<open>auto simp: child_delete_apply\<close>)
  then show ?thesis using Some by (simp add: replace_child_def clear_parent_def)
qed

definition move_entry ::
  "map_ref \<Rightarrow> node_id \<Rightarrow> string \<Rightarrow> node_id \<Rightarrow> string \<Rightarrow> node_id \<Rightarrow> node_id option \<Rightarrow> 'k world \<Rightarrow> 'k world \<Rightarrow> bool" where
  "move_entry m p x q y c rep w w' \<longleftrightarrow>
     next_node_id w' = next_node_id w \<and>
     node_maps w' = (node_maps w)(m := node_maps w m - set_option rep) \<and>
     child w' = child_move p x q y c (replace_child rep q y (child w)) \<and>
     parent_of w' = (clear_parent rep (parent_of w))(c := Some q) \<and>
     evolves w w' \<and>
     (\<forall>i. i \<notin> node_maps w m \<longrightarrow> heap w' i = heap w i) \<and>
     (\<forall>i. i \<notin> set_option rep \<longrightarrow> nd_links (heap w' i) = nd_links (heap w i)) \<and>
     (\<forall>i. nd_mode (heap w' i) = nd_mode (heap w i))"

lemma move_entry_inv:
  assumes w: "world_inv w" and p: "p \<in> node_maps w m" and c: "child w p x = Some c"
    and q: "q \<in> node_maps w m" and rep: "child w q y = rep"
    and leaf: "\<And>e. rep = Some e \<Longrightarrow> child w e = Map.empty \<and> e \<noteq> c"
    and mv: "move_entry m p x q y c rep w w'"
  shows "world_inv w'"
proof (rule world_inv_edit [OF w, where m = m and N' = "node_maps w m - set_option rep"])
  have "mem_inv w m" using world_inv_in [OF w p] by auto
  from move_tree [OF mem_inv_tree [OF this] p c q rep leaf]
  show "name_tree (node_maps w m - set_option rep) m (child w') (parent_of w')"
    using mv by (simp add: move_entry_def)
qed (use p mv in \<open>auto simp: move_entry_def\<close>)

section \<open>Creation\<close>

text \<open>The memfd name each kind of node asks the kernel for, and whether the kernel grants it.\<close>

definition memfd_name :: "vfs_entry_kind \<Rightarrow> string" where
  "memfd_name kind = (case kind of FileKind \<Rightarrow> ''sandbox-vfs-file'' | DirKind \<Rightarrow> ''sandbox-vfs-dir'')"

definition memfd_ok :: "'k kernel \<Rightarrow> vfs_entry_kind \<Rightarrow> 'k world \<Rightarrow> bool" where
  "memfd_ok K kind w \<longleftrightarrow> 0 \<le> fst (k_memfd_create K (memfd_name kind) (kern w))"

text \<open>The node that \<open>create_node_in_dir\<close> adds.\<close>

definition new_node :: "'k kernel \<Rightarrow> node_id \<Rightarrow> vfs_entry_kind \<Rightarrow> mode_t \<Rightarrow> 'k world \<Rightarrow> node" where
  "new_node K p kind mode w =
     (let fd = fst (k_memfd_create K (memfd_name kind) (kern w))
      in \<lparr>nd_id = next_node_id w, nd_parent = Some (nd_id (heap w p)), nd_mode = mode AND MODE_MASK,
          nd_links = 1, nd_kind = (case kind of FileKind \<Rightarrow> File fd | DirKind \<Rightarrow> Directory [] fd)\<rparr>)"

definition add_node :: "'k kernel \<Rightarrow> node_id \<Rightarrow> map_ref \<Rightarrow> string \<Rightarrow> vfs_entry_kind \<Rightarrow> mode_t \<Rightarrow> 'k world \<Rightarrow> 'k world" where
  "add_node K p m x kind mode w =
     update_node p (set_entries (btree_insert x (next_node_id w) (entries_of (heap w p))))
       (nodes_insert m (next_node_id w)
         (w\<lparr>next_node_id := next_node_id w + 1,
            kern := snd (k_memfd_create K (memfd_name kind) (kern w)),
            heap := (heap w)(next_node_id w := new_node K p kind mode w)\<rparr>))"

lemma new_node_fields [mem_simps]:
  "nd_id (new_node K p kind mode w) = next_node_id w"
  "nd_parent (new_node K p kind mode w) = Some (nd_id (heap w p))"
  "nd_links (new_node K p kind mode w) = 1"
  "nd_mode (new_node K p kind mode w) = mode AND MODE_MASK"
  "entries_of (new_node K p kind mode w) = []"
  "entry_kind (new_node K p kind mode w) = kind"
  "node_backing_fd (new_node K p kind mode w) = fst (k_memfd_create K (memfd_name kind) (kern w))"
  by (auto simp: new_node_def Let_def entries_of_def entry_kind_def node_backing_fd_def
      split: vfs_entry_kind.splits)

lemma create_node_in_dir_file:
  "\<not> is_directory (heap w p) \<Longrightarrow> create_node_in_dir K p m x kind mode w = (None, w)"
  by (auto simp: create_node_in_dir_def is_directory_def split: node_kind.splits)

lemma create_node_in_dir_exists:
  "child w p x = Some c \<Longrightarrow> create_node_in_dir K p m x kind mode w = (None, w)"
  by (auto simp: create_node_in_dir_def child_def entries_of_def contains_key_def btree_get_def
      split: node_kind.splits)

lemma create_node_in_dir_fail:
  assumes "is_directory (heap w p)" "child w p x = None" "\<not> memfd_ok K kind w"
  shows "create_node_in_dir K p m x kind mode w =
           (None, w\<lparr>next_node_id := next_node_id w + 1,
                    kern := snd (k_memfd_create K (memfd_name kind) (kern w))\<rparr>)"
  using assms
  by (cases kind)
     (auto simp: create_node_in_dir_def is_directory_def child_def entries_of_def contains_key_def
        fetch_add_node_id_def create_memfd_def memfd_ok_def memfd_name_def Let_def kind_backing_fd_def
        split: node_kind.splits prod.splits)

lemma create_node_in_dir_ok:
  assumes "is_directory (heap w p)" "child w p x = None" "memfd_ok K kind w" "p \<noteq> next_node_id w"
  shows "create_node_in_dir K p m x kind mode w = (Some (next_node_id w), add_node K p m x kind mode w)"
proof -
  obtain es fd where k: "nd_kind (heap w p) = Directory es fd"
    using assms(1) by (auto simp: is_directory_def split: node_kind.splits)
  have "\<not> contains_key es x" using assms(2) k by (simp add: child_def entries_of_def contains_key_def)
  then show ?thesis
    using assms(3,4) k
    by (cases kind)
       (auto simp: create_node_in_dir_def fetch_add_node_id_def create_memfd_def memfd_ok_def memfd_name_def
          Let_def kind_backing_fd_def add_node_def new_node_def entries_of_def update_node_def
          nodes_insert_def split: prod.splits)
qed

lemma create_node_in_dir_cases:
  assumes "create_node_in_dir K p m x kind mode w = (res, w')" "p < next_node_id w"
  shows "(res = None \<and> same_tree w w') \<or>
         (res = Some (next_node_id w) \<and> is_directory (heap w p) \<and> child w p x = None \<and>
            memfd_ok K kind w \<and> w' = add_node K p m x kind mode w)"
proof (cases "is_directory (heap w p) \<and> child w p x = None")
  case False
  then have "create_node_in_dir K p m x kind mode w = (None, w)"
    using create_node_in_dir_file create_node_in_dir_exists by fastforce
  then show ?thesis using assms(1) same_tree_refl by auto
next
  case True
  show ?thesis
  proof (cases "memfd_ok K kind w")
    case ok: True
    then show ?thesis using assms True create_node_in_dir_ok [of w p x K kind m mode] by auto
  next
    case fail: False
    then show ?thesis
      using assms(1) True create_node_in_dir_fail [of w p x K kind m mode]
      by (auto intro!: same_treeI)
  qed
qed

text \<open>The node an operation creates in: in the node map, or kept by a handle.\<close>

lemma map_node_handle_ok:
  assumes "world_inv w" "a \<in> node_maps w m"
  shows "handle_ok w (MemoryOpenedFile a m)"
  using assms world_inv_in [OF assms] world_inv_disjoint [OF assms(1)]
  by (auto simp: node_ok_def)

lemma add_node_fields:
  assumes p: "p < next_node_id w" and dir: "is_directory (heap w p)"
    and sorted: "btree_sorted (entries_of (heap w p))"
  shows "next_node_id (add_node K p m x kind mode w) = next_node_id w + 1"
    "node_maps (add_node K p m x kind mode w) = (node_maps w)(m := insert (next_node_id w) (node_maps w m))"
    "child (add_node K p m x kind mode w) = child_insert p x (next_node_id w) (child w)"
    "parent_of (add_node K p m x kind mode w) = (parent_of w)(next_node_id w := Some (nd_id (heap w p)))"
    "heap (add_node K p m x kind mode w) i =
       (if i = p then set_entries (btree_insert x (next_node_id w) (entries_of (heap w p))) (heap w p)
        else if i = next_node_id w then new_node K p kind mode w else heap w i)"
proof -
  show "next_node_id (add_node K p m x kind mode w) = next_node_id w + 1"
    "node_maps (add_node K p m x kind mode w) = (node_maps w)(m := insert (next_node_id w) (node_maps w m))"
    by (simp_all add: add_node_def mem_simps)
  show h: "heap (add_node K p m x kind mode w) i =
       (if i = p then set_entries (btree_insert x (next_node_id w) (entries_of (heap w p))) (heap w p)
        else if i = next_node_id w then new_node K p kind mode w else heap w i)" for i
    using p by (auto simp: add_node_def mem_simps)
  have get: "btree_get (btree_insert x (next_node_id w) (entries_of (heap w p))) = (child w p)(x := Some (next_node_id w))"
    using sorted by (simp add: bt.get_insert child_def fun_eq_iff)
  show "child (add_node K p m x kind mode w) = child_insert p x (next_node_id w) (child w)"
  proof (intro ext)
    fix d z
    show "child (add_node K p m x kind mode w) d z = child_insert p x (next_node_id w) (child w) d z"
      using p dir get by (auto simp: child_def [of "add_node K p m x kind mode w"] h mem_simps
          child_insert_def btree_get_def [of "[]"]) (auto simp: child_def)
  qed
  show "parent_of (add_node K p m x kind mode w) = (parent_of w)(next_node_id w := Some (nd_id (heap w p)))"
    using p by (auto simp: parent_of_def h mem_simps fun_eq_iff)
qed

lemma add_node_effect:
  assumes w: "world_inv w" and h: "handle_ok w (MemoryOpenedFile p m)" and dir: "is_directory (heap w p)"
  shows "world_inv (add_node K p m x kind mode w)" "evolves w (add_node K p m x kind mode w)"
proof -
  let ?w = "add_node K p m x kind mode w" and ?i = "next_node_id w"
  have p: "p < ?i" "nd_id (heap w p) = p" "btree_sorted (entries_of (heap w p))"
      "\<And>m'. m' \<noteq> m \<Longrightarrow> p \<notin> node_maps w m'" and N: "node_maps w m \<noteq> {}"
    using h by auto
  note f = add_node_fields [OF p(1) dir p(3), of K m x kind mode]
  have fresh: "?i \<notin> node_maps w r" for r
    using world_inv_in [OF w, of ?i r] by (auto simp: node_ok_def)
  have inv: "mem_inv w m" by (rule world_inv_mem [OF w N])
  have sorted: "btree_sorted (btree_insert x ?i (entries_of (heap w p)))"
    by (rule bt.invar_insert [OF p(3)])
  show "evolves w ?w"
    unfolding evolves_def f
  proof (intro conjI allI impI)
    fix a assume "a < ?i"
    then have a: "a \<noteq> ?i" by simp
    {
      assume out: "(\<exists>r. a \<in> node_maps w r) \<and> (\<forall>r. a \<notin> ((node_maps w)(m := insert ?i (node_maps w m))) r)"
      then obtain r where "a \<in> node_maps w r" by blast
      then have "a \<in> ((node_maps w)(m := insert ?i (node_maps w m))) r" by auto
      with out have False by blast
      then show "nd_links (if a = p then set_entries (btree_insert x ?i (entries_of (heap w p))) (heap w p)
          else if a = ?i then new_node K p kind mode w else heap w a) = 0"
        "nd_parent (if a = p then set_entries (btree_insert x ?i (entries_of (heap w p))) (heap w p)
          else if a = ?i then new_node K p kind mode w else heap w a) = None" by blast+
    }
  qed (use sorted dir N in \<open>auto simp: mem_simps split: if_splits\<close>)
  have ok: "node_ok ?w j" if "j \<in> insert ?i (node_maps w m)" for j
  proof (cases "j = ?i")
    case True
    then show ?thesis using p(1) by (simp add: node_ok_def f mem_simps bt.invar_empty)
  next
    case False
    then have "node_ok w j" using that inv by (simp add: mem_inv_def)
    then show ?thesis using False dir sorted by (auto simp: node_ok_def f mem_simps)
  qed
  have "name_tree (insert ?i (node_maps w m)) m (child ?w) (parent_of ?w)"
    unfolding f p(2)
    by (rule name_tree_insert [OF mem_inv_tree [OF inv] fresh]) (use p in auto)
  moreover have "is_directory (heap ?w m)"
    using inv world_inv_in [OF w name_tree_root [OF mem_inv_tree [OF inv]]]
    by (auto simp: f mem_simps mem_inv_def node_ok_def)
  ultimately have own: "mem_inv ?w m"
    using ok by (simp add: mem_inv_def f)
  show "world_inv ?w"
  proof (rule world_inv_update [OF w _ f(2) _ own])
    show "next_node_id w \<le> next_node_id ?w" by (simp add: f)
    show "heap ?w j = heap w j" if "r \<noteq> m" "j \<in> node_maps w r" for r j
      using p(4) that fresh by (auto simp: f)
    show "insert ?i (node_maps w m) \<inter> node_maps w r = {}" if "r \<noteq> m" for r
      using fresh world_inv_disjoint [OF w] that by blast
  qed
qed

lemma create_node_in_dir_effect:
  assumes w: "world_inv w" and h: "handle_ok w (MemoryOpenedFile p m)"
    and res: "create_node_in_dir K p m x kind mode w = (res, w')"
  shows "world_inv w' \<and> evolves w w' \<and> (\<forall>i. res = Some i \<longrightarrow> i \<in> node_maps w' m)"
proof -
  have p: "p < next_node_id w" "btree_sorted (entries_of (heap w p))" using h by auto
  from create_node_in_dir_cases [OF res p(1)] show ?thesis
    using same_tree_inv [OF _ w] same_tree_evolves add_node_effect [OF w h]
      add_node_fields(2) [OF p(1) _ p(2)] by auto
qed

end
