(* ===== verification/MemorySteps.thy ===== *)
theory MemorySteps
  imports MemoryEdits
begin

text \<open>
  The operations of the in-memory file system in terms of names: resolution follows the name
  tree, and unlink, rmdir and rename are the edits of \<open>MemoryEdits\<close> under the conditions the code
  checks. Every operation keeps \<open>world_inv\<close>, and \<open>memory_fs_ops\<close> meets the contract \<open>backend\<close>.
\<close>

section \<open>Resolution\<close>

definition names_of :: "path \<Rightarrow> string list" where
  "names_of p = List.map_filter (\<lambda>c. case c of Normal s \<Rightarrow> Some s | _ \<Rightarrow> None) p"

lemma names_of_simps [simp]:
  "names_of [] = []" "names_of (RootDir # p) = names_of p" "names_of (CurDir # p) = names_of p"
  "names_of (ParentDir # p) = names_of p" "names_of (Normal s # p) = s # names_of p"
  by (simp_all add: names_of_def List.map_filter_simps)

lemma names_of_append [simp]: "names_of (p @ q) = names_of p @ names_of q"
  by (simp add: names_of_def map_filter_append)

lemma names_of_map_Normal [simp]: "names_of (map Normal ns) = ns"
  by (induction ns) auto

lemma names_of_names_path [simp]: "names_of (names_path ns) = ns"
  by (simp add: names_path_def)

text \<open>The node a list of names leads to from the root: what the file system looks like.\<close>

definition view :: "'k world \<Rightarrow> memory_fs \<Rightarrow> string list \<Rightarrow> node_id option" where
  "view w fs ns = lookup_names (child w) ns (mem_root fs)"

lemma child_kind:
  assumes "child w d x = Some c"
  obtains es fd where "nd_kind (heap w d) = Directory es fd" "entries_of (heap w d) = es" "btree_get es x = Some c"
  using assms by (cases "nd_kind (heap w d)") (auto simp: child_def entries_of_def btree_get_def)

lemma walk_closed:
  "(\<And>d x c. d \<in> node_maps w m \<Longrightarrow> child w d x = Some c \<Longrightarrow> c \<in> node_maps w m) \<Longrightarrow> n \<in> node_maps w m \<Longrightarrow>
     walk w m cs n = lookup_names (child w) (names_of cs) n"
proof (induction w m cs n rule: walk.induct)
  case (2 w m name cs n)
  show ?case
  proof (cases "child w n name")
    case None
    then show ?thesis
      by (auto simp: child_def entries_of_def btree_get_def split: node_kind.splits)
  next
    case (Some c)
    then obtain es fd where "nd_kind (heap w n) = Directory es fd" "btree_get es name = Some c"
      by (rule child_kind)
    moreover have "c \<in> node_maps w m" using "2.prems" Some by blast
    ultimately show ?thesis using 2 Some by (simp add: node_from_map_def)
  qed
qed auto

lemma walk_names:
  "mem_inv w m \<Longrightarrow> n \<in> node_maps w m \<Longrightarrow> walk w m cs n = lookup_names (child w) (names_of cs) n"
  using walk_closed mem_inv_child by blast

lemma assert_absolute_simps [simp]:
  "is_absolute p \<Longrightarrow> assert_absolute p = Done ()"
  "\<not> is_absolute p \<Longrightarrow> assert_absolute p = Panic"
  by (simp_all add: assert_absolute_def)

lemma mem_root_in: "mem_inv w m \<Longrightarrow> m \<in> node_maps w m"
  using name_tree_root [OF mem_inv_tree] .

lemma resolve_from_root_names:
  assumes "mem_inv w m" "is_absolute p"
  shows "resolve_from_root p w m m = Done (lookup_names (child w) (names_of p) m)"
  using assms mem_root_in [OF assms(1)]
  by (simp add: resolve_from_root_def node_from_map_def walk_names)

lemma file_name_Some: "file_name p = Some x \<longleftrightarrow> (\<exists>q. p = q @ [Normal x])"
proof
  assume "file_name p = Some x"
  then have "p = butlast p @ [Normal x]"
    by (cases p rule: rev_cases) (auto simp: file_name_def split: if_splits component.splits)
  then show "\<exists>q. p = q @ [Normal x]" ..
qed (auto simp: file_name_def)

lemma parent_path_snoc: "parent_path (q @ [Normal x]) = Some q"
  by (simp add: parent_path_def)

lemma absolute_snoc: "is_absolute (q @ [Normal x]) \<longleftrightarrow> is_absolute q"
  by (cases q rule: is_absolute.cases) auto

lemma resolve_parent_names:
  assumes "mem_inv w m" "is_absolute p"
  shows "resolve_parent_from_root p w m m =
           Done (case file_name p of
                   None \<Rightarrow> None
                 | Some x \<Rightarrow> map_option (\<lambda>n. (n, x)) (lookup_names (child w) (names_of (butlast p)) m))"
proof (cases "parent_path p")
  case None
  then have "file_name p = None"
    by (auto simp: parent_path_def file_name_def split: if_splits)
  then show ?thesis using assms None by (simp add: resolve_parent_from_root_def)
next
  case (Some q)
  then have "is_absolute q" "q = butlast p"
    using assms(2) parent_absolute by (auto simp: parent_path_def split: if_splits)
  then show ?thesis
    using assms Some by (auto simp: resolve_parent_from_root_def resolve_from_root_names
        split: option.splits bind_splits)
qed

lemma resolve_eq: "resolve fs p w = resolve_from_root p w (mem_nodes fs) (mem_root fs)"
  by (simp add: resolve_def resolve_from_root_def mem_node_def node_from_map_def)

lemma resolve_parent_eq:
  "resolve_parent fs p w = resolve_parent_from_root p w (mem_nodes fs) (mem_root fs)"
  by (cases "parent_path p") (simp_all add: resolve_parent_def resolve_parent_from_root_def resolve_eq)

lemma live_inv: "world_inv w \<Longrightarrow> live w fs \<Longrightarrow> mem_inv w (mem_nodes fs) \<and> mem_root fs = mem_nodes fs"
  by (simp add: live_def world_inv_mem)

lemma resolve_view:
  "world_inv w \<Longrightarrow> live w fs \<Longrightarrow> is_absolute p \<Longrightarrow> resolve fs p w = Done (view w fs (names_of p))"
  using live_inv [of w fs] by (simp add: resolve_eq resolve_from_root_names view_def)

lemma view_in:
  "world_inv w \<Longrightarrow> live w fs \<Longrightarrow> view w fs ns = Some n \<Longrightarrow> n \<in> node_maps w (mem_nodes fs)"
  using live_inv [of w fs] by (auto simp: view_def intro: lookup_in [OF mem_inv_tree mem_root_in])

section \<open>Removal\<close>

definition removable :: "'k world \<Rightarrow> node_id \<Rightarrow> vfs_entry_kind \<Rightarrow> bool" where
  "removable w c kind \<longleftrightarrow> entry_kind (heap w c) = kind \<and> entries_of (heap w c) = []"

lemma remove_spec:
  assumes inv: "mem_inv w m" and p: "is_absolute p"
  shows "remove_node_at p m m kind w =
     Done (case file_name p of
             None \<Rightarrow> (-1, w)
           | Some x \<Rightarrow>
               (case lookup_names (child w) (names_of (butlast p)) m of
                  None \<Rightarrow> (-1, w)
                | Some d \<Rightarrow>
                    (case child w d x of
                       None \<Rightarrow> (-1, w)
                     | Some c \<Rightarrow> if removable w c kind then (0, remove_entry m d x c w) else (-1, w))))"
proof (cases "\<exists>x d. file_name p = Some x \<and> lookup_names (child w) (names_of (butlast p)) m = Some d")
  case False
  then have "resolve_parent_from_root p w m m = Done None"
    by (auto simp: resolve_parent_names [OF inv p] split: option.splits)
  then show ?thesis
    using p False by (auto simp: remove_node_at_def split: option.splits)
next
  case True
  then obtain x d where x: "file_name p = Some x" and d: "lookup_names (child w) (names_of (butlast p)) m = Some d"
    by blast
  have root: "p \<noteq> [RootDir]" using x by (auto simp: file_name_def)
  have res: "resolve_parent_from_root p w m m = Done (Some (d, x))"
    using resolve_parent_names [OF inv p] x d by simp
  have dN: "d \<in> node_maps w m" using lookup_in [OF mem_inv_tree [OF inv] mem_root_in [OF inv] d] .
  show ?thesis
  proof (cases "child w d x")
    case None
    then show ?thesis
      using p root res x d
      by (auto simp: remove_node_at_def child_def entries_of_def split: node_kind.splits)
  next
    case (Some c)
    then obtain es fd where k: "nd_kind (heap w d) = Directory es fd" "entries_of (heap w d) = es"
        "btree_get es x = Some c"
      by (rule child_kind)
    have c: "node_from_map w m c = Some c"
      using mem_inv_child [OF inv dN Some] by (simp add: node_from_map_def)
    show ?thesis
      using p root res x d k c Some
      by (cases kind; cases "nd_kind (heap w c)")
         (simp_all add: remove_node_at_def removable_def remove_entry_def entry_kind_def entries_of_def)
  qed
qed

section \<open>Renaming\<close>

lemma can_replace_iff:
  "can_replace_node s t \<longleftrightarrow> entry_kind s = entry_kind t \<and> entries_of t = []"
  by (auto simp: can_replace_node_def entry_kind_def entries_of_def split: node_kind.splits)

text \<open>Where the code goes ahead and moves the entry.\<close>

definition move_allowed :: "path \<Rightarrow> path \<Rightarrow> node_id \<Rightarrow> node_id option \<Rightarrow> 'k world \<Rightarrow> bool" where
  "move_allowed old_path new_path c rep w \<longleftrightarrow>
     \<not> (is_directory (heap w c) \<and> starts_with new_path old_path) \<and>
     (case rep of None \<Rightarrow> True | Some e \<Rightarrow> can_replace_node (heap w c) (heap w e))"

lemma rename_in_dir_move:
  assumes w: "world_inv w" and d: "d \<in> node_maps w m" and c: "child w d x = Some c"
    and rep: "child w d y = rep" "rep \<noteq> Some c" and ok: "move_allowed old new c rep w"
  shows "\<exists>w'. rename_in_dir old new d (entries_of (heap w d)) x y m w = (0, w') \<and>
           move_entry m d x d y c rep w w'"
proof -
  have inv: "mem_inv w m" and dok: "node_ok w d" using world_inv_in [OF w d] by auto
  have cN: "c \<in> node_maps w m" "parent_of w c = Some d" using mem_inv_child [OF inv d c] by auto
  let ?es = "entries_of (heap w d)"
  let ?upd = "update_node d (set_entries (btree_insert y c (btree_remove x ?es)))"
  have dir: "is_directory (heap w d)" using child_directory [OF c] .
  have sorted: "btree_sorted ?es" using dok by (simp add: node_ok_def)
  have get: "btree_get (btree_insert y c (btree_remove x ?es)) = (child w d)(x := None, y := Some c)"
    using bt.get_insert_remove [OF sorted] by (simp add: child_def fun_eq_iff)
  have srt: "btree_sorted (btree_insert y c (btree_remove x ?es))"
    by (intro bt.invar_insert bt.invar_remove sorted)
  have gx: "btree_get ?es x = Some c" "node_from_map w m c = Some c"
    using c cN by (simp_all add: child_def node_from_map_def)
  show ?thesis
  proof (cases rep)
    case None
    have "rename_in_dir old new d ?es x y m w = (0, ?upd w)"
      using gx ok rep None by (auto simp: rename_in_dir_def move_allowed_def child_def)
    moreover have "move_entry m d x d y c rep w (?upd w)"
      unfolding move_entry_def
      using None cN(2) d dir evolves_entries [of w d, OF srt]
      by (auto simp: mem_simps child_set_entries get replace_child_def clear_parent_def child_move_def fun_eq_iff)
    ultimately show ?thesis by blast
  next
    case (Some e)
    have e: "e \<in> node_maps w m" "e \<noteq> m" using mem_inv_child [OF inv d, of y e] rep(1) Some by auto
    have ec: "e \<noteq> c" using rep Some by simp
    have "entries_of (heap w e) = []" using ok Some by (simp add: move_allowed_def can_replace_iff)
    then have ed: "d \<noteq> e" using gx(1) by (auto simp: btree_get_def)
    let ?drop = "nodes_remove m e (detach_node e w)"
    have "rename_in_dir old new d ?es x y m w = (0, ?upd ?drop)"
      using gx ok rep Some e
      by (auto simp: rename_in_dir_def move_allowed_def child_def node_from_map_def)
    moreover have "evolves w (?upd ?drop)"
    proof (rule evolves_trans [OF evolves_drop evolves_entries])
      show "m \<in> node_maps w m" by (rule mem_root_in [OF inv])
    qed (use e srt in auto)
    then have "move_entry m d x d y c rep w (?upd ?drop)"
      unfolding move_entry_def
      using Some cN(2) d e ec ed dir
      by (auto simp: mem_simps child_set_entries get replace_child_def clear_parent_def child_move_def
          child_delete_def fun_eq_iff)
    ultimately show ?thesis by blast
  qed
qed

lemma child_move_replace:
  "p \<noteq> q \<Longrightarrow> child_move p x q y c (replace_child rep q y ch) =
     ch(p := (ch p)(x := None), q := (ch q)(y := Some c))"
  by (cases rep) (auto simp: replace_child_def child_move_def child_delete_def Let_def fun_eq_iff)

text \<open>Both directories after the entry has moved from one to the other.\<close>

abbreviation moved_entries :: "node_id \<Rightarrow> string \<Rightarrow> node_id \<Rightarrow> string \<Rightarrow> node_id \<Rightarrow> 'k world \<Rightarrow> 'k world" where
  "moved_entries p x q y c w \<equiv>
     update_node q (set_entries (btree_insert y c (entries_of (heap w q))))
       (update_node p (set_entries (btree_remove x (entries_of (heap w p)))) w)"

lemma moved_entries_effect:
  assumes w: "world_inv w" and p: "p \<in> node_maps w m" and c: "child w p x = Some c"
    and q: "q \<in> node_maps w m" "is_directory (heap w q)" "p \<noteq> q"
  shows "evolves w (moved_entries p x q y c w)"
    "child (moved_entries p x q y c w) = (child w)(p := (child w p)(x := None), q := (child w q)(y := Some c))"
    "nd_id (heap (moved_entries p x q y c w) q) = q"
proof -
  have sp: "btree_sorted (entries_of (heap w p))" and sq: "btree_sorted (entries_of (heap w q))" and idq: "nd_id (heap w q) = q"
    using world_inv_in [OF w p] world_inv_in [OF w q(1)] by (simp_all add: node_ok_def)
  have gp: "btree_get (btree_remove x (entries_of (heap w p))) = (child w p)(x := None)"
    using bt.get_remove [OF sp] by (simp add: child_def fun_eq_iff)
  have gq: "btree_get (btree_insert y c (entries_of (heap w q))) = (child w q)(y := Some c)"
    using bt.get_insert [OF sq] by (simp add: child_def fun_eq_iff)
  show "evolves w (moved_entries p x q y c w)"
    by (rule evolves_trans [OF evolves_entries evolves_entries])
       (use sp sq q(3) in \<open>auto simp: mem_simps intro: bt.invar_remove bt.invar_insert\<close>)
  show "child (moved_entries p x q y c w) = (child w)(p := (child w p)(x := None), q := (child w q)(y := Some c))"
    using child_directory [OF c] q by (simp add: child_set_entries mem_simps gp gq)
  show "nd_id (heap (moved_entries p x q y c w) q) = q" using idq q(3) by (simp add: mem_simps)
qed

lemma rename_between_fresh:
  assumes w: "world_inv w" and p: "p \<in> node_maps w m" and c: "child w p x = Some c"
    and q: "q \<in> node_maps w m" "is_directory (heap w q)" "p \<noteq> q"
    and rep: "child w q y = None" and ok: "move_allowed old new c None w"
  shows "\<exists>w'. rename_between old new p (entries_of (heap w p)) x q (entries_of (heap w q)) y m w = (0, w') \<and>
           move_entry m p x q y c None w w'"
proof -
  have inv: "mem_inv w m" using world_inv_in [OF w p] by auto
  have cN: "c \<in> node_maps w m" using mem_inv_child [OF inv p c] by auto
  then have gx: "btree_get (entries_of (heap w p)) x = Some c" "node_from_map w m c = Some c"
    using c by (simp_all add: child_def node_from_map_def)
  note moved = moved_entries_effect [OF w p c q, of y]
  let ?w' = "update_node c (\<lambda>n. n\<lparr>nd_parent := Some q\<rparr>) (moved_entries p x q y c w)"
  have "rename_between old new p (entries_of (heap w p)) x q (entries_of (heap w q)) y m w = (0, ?w')"
    using gx ok rep moved(3) by (auto simp: rename_between_def move_allowed_def child_def Let_def)
  moreover have "evolves w ?w'"
    by (rule evolves_trans [OF moved(1) evolves_parent]) (use cN in \<open>simp add: mem_simps\<close>)
  then have "move_entry m p x q y c None w ?w'"
    unfolding move_entry_def
    using p q cN moved(2) by (auto simp: mem_simps replace_child_def clear_parent_def child_move_def fun_eq_iff)
  ultimately show ?thesis by blast
qed

lemma rename_between_replace:
  assumes w: "world_inv w" and p: "p \<in> node_maps w m" and c: "child w p x = Some c"
    and q: "q \<in> node_maps w m" "is_directory (heap w q)" "p \<noteq> q"
    and rep: "child w q y = Some e" "e \<noteq> c" and ok: "move_allowed old new c (Some e) w"
  shows "\<exists>w'. rename_between old new p (entries_of (heap w p)) x q (entries_of (heap w q)) y m w = (0, w') \<and>
           move_entry m p x q y c (Some e) w w'"
proof -
  have inv: "mem_inv w m" using world_inv_in [OF w p] by auto
  have cN: "c \<in> node_maps w m" using mem_inv_child [OF inv p c] by auto
  then have gx: "btree_get (entries_of (heap w p)) x = Some c" "node_from_map w m c = Some c"
    using c by (simp_all add: child_def node_from_map_def)
  have e: "e \<in> node_maps w m" "e \<noteq> m" using mem_inv_child [OF inv q(1), of y e] rep(1) by auto
  have leaf: "entries_of (heap w e) = []" using ok by (simp add: move_allowed_def can_replace_iff)
  then have ne: "p \<noteq> e" "q \<noteq> e" using gx(1) rep(1) by (auto simp: child_def btree_get_def)
  note moved = moved_entries_effect [OF w p c q, of y]
  let ?w2 = "moved_entries p x q y c w"
  let ?w3 = "nodes_remove m e (detach_node e ?w2)"
  let ?w' = "update_node c (\<lambda>n. n\<lparr>nd_parent := Some q\<rparr>) ?w3"
  have in_maps: "node_from_map w m e = Some e" "node_from_map ?w2 m e = Some e"
    using e by (simp_all add: node_from_map_def mem_simps)
  have idq: "nd_id (heap ?w3 q) = q" using moved(3) ne by (simp add: mem_simps)
  have "rename_between old new p (entries_of (heap w p)) x q (entries_of (heap w q)) y m w =
      (0, update_node c (\<lambda>n. n\<lparr>nd_parent := Some (nd_id (heap ?w3 q))\<rparr>) ?w3)"
    using gx ok rep in_maps by (auto simp: rename_between_def move_allowed_def child_def Let_def)
  then have res: "rename_between old new p (entries_of (heap w p)) x q (entries_of (heap w q)) y m w = (0, ?w')"
    unfolding idq .
  have "evolves w ?w'"
  proof (rule evolves_trans [OF evolves_trans [OF moved(1) evolves_drop] evolves_parent])
    show "e \<in> node_maps ?w2 m" "e \<noteq> m" "m \<in> node_maps ?w2 m" using e mem_root_in [OF inv] by (simp_all add: mem_simps)
    show "c \<in> node_maps ?w3 m" using cN rep(2) by (simp add: mem_simps)
  qed
  moreover have "i \<noteq> p \<and> i \<noteq> q \<and> i \<noteq> e \<and> i \<noteq> c" if "i \<notin> node_maps w m" for i using that p q(1) cN e by auto
  ultimately have "move_entry m p x q y c (Some e) w ?w'"
    unfolding move_entry_def child_move_replace [OF q(3)] using rep(2) by (simp add: mem_simps moved(2) clear_parent_def)
  then show ?thesis using res by auto
qed

lemma rename_between_move:
  assumes "world_inv w" "p \<in> node_maps w m" "child w p x = Some c" "q \<in> node_maps w m" "is_directory (heap w q)" "p \<noteq> q"
    and rep: "child w q y = rep" "rep \<noteq> Some c" and ok: "move_allowed old new c rep w"
  shows "\<exists>w'. rename_between old new p (entries_of (heap w p)) x q (entries_of (heap w q)) y m w = (0, w') \<and>
           move_entry m p x q y c rep w w'"
proof (cases rep)
  case None
  then show ?thesis using rename_between_fresh [OF assms(1-6)] rep(1) ok by simp
next
  case (Some e)
  then show ?thesis using rename_between_replace [OF assms(1-6), of y e] rep ok by auto
qed

text \<open>The whole of \<open>rename_node_at\<close>, by the names of its two paths.\<close>

definition rename_outcome ::
  "path \<Rightarrow> path \<Rightarrow> map_ref \<Rightarrow> node_id \<Rightarrow> string \<Rightarrow> node_id \<Rightarrow> string \<Rightarrow> 'k world \<Rightarrow> int \<Rightarrow> 'k world \<Rightarrow> bool" where
  "rename_outcome old new m p x q y w r w' \<longleftrightarrow>
     (case child w p x of
        None \<Rightarrow> r = -1 \<and> w' = w
      | Some c \<Rightarrow>
          if \<not> is_directory (heap w q) \<or> (is_directory (heap w c) \<and> starts_with new old) then r = -1 \<and> w' = w
          else if child w q y = Some c then r = 0 \<and> w' = w
          else if move_allowed old new c (child w q y) w
               then r = 0 \<and> move_entry m p x q y c (child w q y) w w'
               else r = -1 \<and> w' = w)"

lemma rename_dirs_outcome:
  assumes w: "world_inv w" and p: "p \<in> node_maps w m" "nd_kind (heap w p) = Directory pe pfd"
    and q: "q \<in> node_maps w m" "nd_kind (heap w q) = Directory qe qfd"
    and res: "(if p = q then rename_in_dir old new p pe x y m w
               else rename_between old new p pe x q qe y m w) = (r, w')"
  shows "rename_outcome old new m p x q y w r w'"
proof -
  have es: "entries_of (heap w p) = pe" "entries_of (heap w q) = qe" "is_directory (heap w q)"
    using directory_kind [OF p(2)] directory_kind [OF q(2)] by auto
  have inv: "mem_inv w m" using world_inv_in [OF w p(1)] by auto
  have in_map: "node_from_map w m e = Some e" if "child w d z = Some e" "d \<in> node_maps w m" for d z e
    using mem_inv_child [OF inv that(2,1)] by (simp add: node_from_map_def)
  show ?thesis
  proof (cases "child w p x")
    case None
    then show ?thesis
      using res es by (auto simp: rename_outcome_def rename_in_dir_def rename_between_def child_def split: if_splits)
  next
    case (Some c)
    note c = this in_map [OF this p(1)]
    then have gc: "btree_get pe x = Some c" using es by (simp add: child_def)
    have rep: "btree_get qe y = child w q y" using es by (simp add: child_def)
    show ?thesis
    proof (cases "(is_directory (heap w c) \<and> starts_with new old) \<or> child w q y = Some c \<or>
        \<not> move_allowed old new c (child w q y) w")
      case True
      then show ?thesis
        using res c gc rep es in_map q(1)
        by (cases "child w q y")
           (auto simp: rename_outcome_def rename_in_dir_def rename_between_def move_allowed_def Let_def
              split: if_splits)
    next
      case False
      then have "\<exists>w'. (if p = q then rename_in_dir old new p pe x y m w
               else rename_between old new p pe x q qe y m w) = (0, w') \<and>
               move_entry m p x q y c (child w q y) w w'"
        using rename_in_dir_move [OF w p(1) c(1), of y] es
          rename_between_move [OF w p(1) c(1) q(1) es(3), of y "child w q y"]
        by (cases "p = q") auto
      then show ?thesis using res False c es by (auto simp: rename_outcome_def)
    qed
  qed
qed

lemma rename_spec:
  assumes w: "world_inv w" and N: "node_maps w m \<noteq> {}" and old: "is_absolute old" and new: "is_absolute new"
  shows "\<exists>r w'. rename_node_at old new m m w = Done (r, w') \<and>
     (if old = [RootDir] \<or> new = [RootDir] then r = -1 \<and> w' = w
      else if old = new then r = 0 \<and> w' = w
      else (case (file_name old, lookup_names (child w) (names_of (butlast old)) m,
                  file_name new, lookup_names (child w) (names_of (butlast new)) m) of
              (Some x, Some p, Some y, Some q) \<Rightarrow> rename_outcome old new m p x q y w r w'
            | _ \<Rightarrow> r = -1 \<and> w' = w))"
proof (cases "old = [RootDir] \<or> new = [RootDir] \<or> old = new")
  case True
  then show ?thesis using old new by (auto simp: rename_node_at_def)
next
  case False
  then have notroot: "old \<noteq> [RootDir]" "new \<noteq> [RootDir]" "old \<noteq> new" by auto
  have inv: "mem_inv w m" using world_inv_mem [OF w N] .
  note t = mem_inv_tree [OF inv]
  note simps = rename_node_at_def resolve_parent_names [OF inv] old new notroot
  show ?thesis
  proof (cases "\<exists>x p y q. file_name old = Some x \<and> lookup_names (child w) (names_of (butlast old)) m = Some p \<and>
      file_name new = Some y \<and> lookup_names (child w) (names_of (butlast new)) m = Some q")
    case out: False
    have "rename_node_at old new m m w = Done (-1, w)"
      using out by (cases "file_name old"; cases "file_name new";
          cases "lookup_names (child w) (names_of (butlast old)) m";
          cases "lookup_names (child w) (names_of (butlast new)) m") (simp_all add: simps)
    then show ?thesis
      using out notroot by (intro exI [of _ "-1"] exI [of _ w]) (auto split: option.splits)
  next
    case True
    then obtain x p y q where x: "file_name old = Some x" and p: "lookup_names (child w) (names_of (butlast old)) m = Some p"
      and y: "file_name new = Some y" and q: "lookup_names (child w) (names_of (butlast new)) m = Some q"
      by blast
    have pN: "p \<in> node_maps w m" using lookup_in [OF t mem_root_in [OF inv] p] .
    have qN: "q \<in> node_maps w m" using lookup_in [OF t mem_root_in [OF inv] q] .
    have ids: "nd_id (heap w p) = p" "nd_id (heap w q) = q"
      using world_inv_in [OF w pN] world_inv_in [OF w qN] by (auto simp: node_ok_def)
    show ?thesis
    proof (cases "is_directory (heap w p) \<and> is_directory (heap w q)")
      case True
      then obtain pe pfd qe qfd where k: "nd_kind (heap w p) = Directory pe pfd" "nd_kind (heap w q) = Directory qe qfd"
        by (auto simp: is_directory_def split: node_kind.splits)
      obtain r w' where res: "(if p = q then rename_in_dir old new p pe x y m w
               else rename_between old new p pe x q qe y m w) = (r, w')" by fastforce
      have "rename_node_at old new m m w = Done (r, w')"
        using x y p q k ids res by (simp add: simps)
      then show ?thesis
        using rename_dirs_outcome [OF w pN k(1) qN k(2) res] notroot x p y q by simp
    next
      case False
      then have "rename_node_at old new m m w = Done (-1, w)"
        using x y p q by (auto simp: simps is_directory_def split: node_kind.splits)
      moreover have "rename_outcome old new m p x q y w (-1) w"
        using False child_directory [of w p x] by (auto simp: rename_outcome_def split: option.splits)
      ultimately show ?thesis using notroot x p y q by auto
    qed
  qed
qed

end
