(* ===== verification/MemoryBackend.thy ===== *)
theory MemoryBackend
  imports MemorySteps
begin

text \<open>
  Every method of the in-memory file system and of its opened files returns, keeps the invariant
  of all in-memory file systems and keeps every handle valid; so \<open>memory_fs_ops\<close> is a backend.
\<close>

section \<open>Steps of the world\<close>

text \<open>What an operation on a valid world leads to.\<close>

definition good_step :: "'k world \<Rightarrow> 'k world \<Rightarrow> bool" where
  "good_step w w' \<longleftrightarrow> world_inv w' \<and> evolves w w'"

lemma good_step_refl: "world_inv w \<Longrightarrow> good_step w w"
  by (simp add: good_step_def evolves_refl)

lemma good_step_trans: "good_step w w' \<Longrightarrow> good_step w' w'' \<Longrightarrow> good_step w w''"
  by (auto simp: good_step_def intro: evolves_trans)

lemma good_step_same: "world_inv w \<Longrightarrow> same_tree w w' \<Longrightarrow> good_step w w'"
  by (simp add: good_step_def same_tree_inv same_tree_evolves)

text \<open>Kernel calls change nothing else.\<close>

lemma create_memfd_snd: "snd (create_memfd K name w) = w\<lparr>kern := snd (k_memfd_create K name (kern w))\<rparr>"
  by (simp add: create_memfd_def split: prod.splits)

lemma open_backing_same: "open_backing K b fl w = (fd, w') \<Longrightarrow> same_tree w w'"
  by (auto simp: open_backing_def Let_def same_tree_kern split: prod.splits)

lemma stat_node_world: "stat_node K a m sb w = (r, w') \<Longrightarrow> same_tree w w' \<and> heap w' = heap w \<and> fst r = 0"
  by (auto simp: stat_node_def Let_def same_tree_kern same_tree_refl split: prod.splits node_kind.splits)

section \<open>Creating, opening\<close>

lemma create_node_names:
  assumes "world_inv w" "live w fs" "is_absolute p"
  shows "create_node K fs p kind mode w =
     Done (case file_name p of
             None \<Rightarrow> (None, w)
           | Some x \<Rightarrow> (case view w fs (names_of (butlast p)) of
                None \<Rightarrow> (None, w)
              | Some d \<Rightarrow> create_node_in_dir K d (mem_nodes fs) x kind mode w))"
  using live_inv [OF assms(1,2)] assms(3)
  by (cases "file_name p"; cases "view w fs (names_of (butlast p))")
     (simp_all add: create_node_def resolve_parent_eq resolve_parent_names view_def)

lemma create_node_step:
  assumes w: "world_inv w" and fs: "live w fs" and p: "is_absolute p"
  shows "\<exists>r w'. create_node K fs p kind mode w = Done (r, w') \<and> good_step w w' \<and>
           (\<forall>i. r = Some i \<longrightarrow> i \<in> node_maps w' (mem_nodes fs))"
proof (cases "\<exists>x d. file_name p = Some x \<and> view w fs (names_of (butlast p)) = Some d")
  case False
  then have "create_node K fs p kind mode w = Done (None, w)"
    by (auto simp: create_node_names [OF assms] split: option.splits)
  then show ?thesis using good_step_refl [OF w] by auto
next
  case True
  then obtain x d where x: "file_name p = Some x" and d: "view w fs (names_of (butlast p)) = Some d" by blast
  obtain r w' where r: "create_node_in_dir K d (mem_nodes fs) x kind mode w = (r, w')" by fastforce
  have "handle_ok w (MemoryOpenedFile d (mem_nodes fs))"
    by (rule map_node_handle_ok [OF w view_in [OF w fs d]])
  from create_node_in_dir_effect [OF w this r] show ?thesis
    using x d r by (simp add: create_node_names [OF assms] good_step_def)
qed

text \<open>The common part of the two opens, for any way to create the missing node.\<close>

lemma open_resolved_step:
  assumes w: "world_inv w"
    and existing: "\<And>a. existing = Some a \<Longrightarrow> handle_ok w (MemoryOpenedFile a m)"
    and create: "\<exists>r w'. create w = Done (r, w') \<and> good_step w w' \<and> (\<forall>i. r = Some i \<longrightarrow> i \<in> node_maps w' m)"
  shows "\<exists>fd n w'. open_resolved_node K existing create fl w = Done ((fd, n), w') \<and> good_step w w' \<and>
           (\<forall>a. n = Some a \<longrightarrow> handle_ok w' (MemoryOpenedFile a m)) \<and> (n = None \<longleftrightarrow> fd < 0)"
proof -
  have fin: "\<exists>fd n w''. (if fl AND O_DIRECTORY \<noteq> 0 \<and> \<not> is_directory (heap w' a) then ((-1, None), w')
        else (let (fd, w) = open_backing K (node_backing_fd (heap w' a)) fl w'
              in if fd < 0 then ((fd, None), w) else ((fd, Some a), w))) = ((fd, n), w'') \<and> good_step w' w'' \<and>
      (\<forall>a. n = Some a \<longrightarrow> handle_ok w'' (MemoryOpenedFile a m)) \<and> (n = None \<longleftrightarrow> fd < 0)"
    if "world_inv w'" "handle_ok w' (MemoryOpenedFile a m)" for w' a
  proof -
    obtain fd w'' where o: "open_backing K (node_backing_fd (heap w' a)) fl w' = (fd, w'')" by fastforce
    then have st: "same_tree w' w''" by (rule open_backing_same)
    then have "handle_ok w'' (MemoryOpenedFile a m)"
      using evolves_handle [OF same_tree_evolves that(2)] by blast
    then show ?thesis
      using o good_step_same [OF that(1) st] good_step_refl [OF that(1)] by (cases "fd < 0") auto
  qed
  show ?thesis
  proof (cases existing)
    case (Some a)
    then show ?thesis
      using fin [OF w existing [OF Some]] good_step_refl [OF w] by (auto simp: open_resolved_node_def)
  next
    case None
    show ?thesis
    proof (cases "fl AND O_CREAT \<noteq> 0")
      case False
      then show ?thesis using None good_step_refl [OF w] by (auto simp: open_resolved_node_def)
    next
      case True
      from create obtain r w1 where c: "create w = Done (r, w1)" "good_step w w1"
          "\<And>i. r = Some i \<Longrightarrow> i \<in> node_maps w1 m" by blast
      have w1: "world_inv w1" using c(2) by (simp add: good_step_def)
      show ?thesis
      proof (cases r)
        case None
        then show ?thesis using True c \<open>existing = None\<close> by (auto simp: open_resolved_node_def)
      next
        case (Some i)
        have "handle_ok w1 (MemoryOpenedFile i m)"
          by (rule map_node_handle_ok [OF w1 c(3) [OF Some]])
        from fin [OF w1 this] obtain fd n w'' where
          "(if fl AND O_DIRECTORY \<noteq> 0 \<and> \<not> is_directory (heap w1 i) then ((-1, None), w1)
            else (let (fd, w) = open_backing K (node_backing_fd (heap w1 i)) fl w1
                  in if fd < 0 then ((fd, None), w) else ((fd, Some i), w))) = ((fd, n), w'')"
          "good_step w1 w''" "\<forall>a. n = Some a \<longrightarrow> handle_ok w'' (MemoryOpenedFile a m)" "(n = None \<longleftrightarrow> fd < 0)"
          by blast
        then show ?thesis
          using True c Some \<open>existing = None\<close> good_step_trans [OF c(2)]
          by (auto simp: open_resolved_node_def)
      qed
    qed
  qed
qed

lemma open_node_step:
  assumes w: "world_inv w" and fs: "live w fs" and p: "is_absolute p"
  shows "\<exists>fd n w'. open_node K fs p fl mode w = Done ((fd, n), w') \<and> good_step w w' \<and>
           (\<forall>a. n = Some a \<longrightarrow> handle_ok w' (MemoryOpenedFile a (mem_nodes fs))) \<and> (n = None \<longleftrightarrow> fd < 0)"
proof -
  have h: "handle_ok w (MemoryOpenedFile a (mem_nodes fs))" if "view w fs (names_of p) = Some a" for a
    by (rule map_node_handle_ok [OF w view_in [OF w fs that]])
  show ?thesis
    using open_resolved_step [where existing = "view w fs (names_of p)" and
        create = "create_node K fs p FileKind mode", OF w h create_node_step [OF w fs p], of K fl] p
    by (simp add: open_node_def resolve_view [OF w fs p] del: handle_ok.simps)
qed

section \<open>Relative operations of a handle\<close>

lemma walk_relative_handle:
  "world_inv w \<Longrightarrow> handle_ok w (MemoryOpenedFile n m) \<Longrightarrow> walk_relative w m cs n = Some a \<Longrightarrow>
     handle_ok w (MemoryOpenedFile a m)"
proof (induction w m cs n rule: walk_relative.induct)
  case (3 w m name cs n)
  from "3.prems"(3) obtain es fd c where "nd_kind (heap w n) = Directory es fd" "btree_get es name = Some c"
      "node_from_map w m c = Some c" "c \<in> node_maps w m" "walk_relative w m cs c = Some a"
    by (auto simp: bind_eq_Some_conv node_from_map_def split: node_kind.splits if_splits)
  then show ?case using "3.IH" "3.prems"(1) map_node_handle_ok by blast
next
  case (4 w m cs n)
  from "4.prems"(3) obtain d where "nd_parent (heap w n) = Some d" "node_from_map w m d = Some d"
      "d \<in> node_maps w m" "walk_relative w m cs d = Some a"
    by (auto simp: bind_eq_Some_conv node_from_map_def split: if_splits)
  then show ?case using "4.IH" "4.prems"(1) map_node_handle_ok by blast
qed auto

lemma resolve_relative_handle:
  "world_inv w \<Longrightarrow> handle_ok w (MemoryOpenedFile n m) \<Longrightarrow> resolve_relative n m p w = Some a \<Longrightarrow>
     handle_ok w (MemoryOpenedFile a m)"
  by (auto simp: resolve_relative_def simp del: handle_ok.simps split: if_splits intro: walk_relative_handle)

lemma create_relative_step:
  assumes w: "world_inv w" and h: "handle_ok w (MemoryOpenedFile n m)"
  shows "\<exists>r w'. create_relative_node K n m p kind mode w = (r, w') \<and> good_step w w' \<and>
           (\<forall>i. r = Some i \<longrightarrow> i \<in> node_maps w' m)"
proof (cases "can_resolve_relative_to_opened_node p \<and>
    (\<exists>pp x d. parent_path p = Some pp \<and> file_name p = Some x \<and> resolve_relative n m pp w = Some d)")
  case False
  then have "create_relative_node K n m p kind mode w = (None, w)"
    by (auto simp: create_relative_node_def split: option.splits bind_splits)
  then show ?thesis using good_step_refl [OF w] by auto
next
  case True
  then obtain pp x d where x: "can_resolve_relative_to_opened_node p" "parent_path p = Some pp"
      "file_name p = Some x" and d: "resolve_relative n m pp w = Some d" by blast
  obtain r w' where r: "create_node_in_dir K d m x kind mode w = (r, w')" by fastforce
  from create_node_in_dir_effect [OF w resolve_relative_handle [OF w h d] r] show ?thesis
    using x d r by (simp add: create_relative_node_def good_step_def)
qed

lemma opened_open_child_step:
  assumes w: "world_inv w" and h: "handle_ok w h"
  shows "\<exists>r w'. opened_open_child K h p fl mode w = Done (r, w') \<and> good_step w w' \<and>
           (\<forall>z h'. r = Some z \<longrightarrow> or_opened z = Some h' \<longrightarrow> handle_ok w' h') \<and>
           (r = None \<longleftrightarrow> is_absolute p) \<and>
           (\<forall>z. r = Some z \<longrightarrow> (or_opened z = None \<longleftrightarrow> or_fd z < 0))"
proof (cases h)
  case (MemoryOpenedFile n m)
  show ?thesis
  proof (cases "is_absolute p")
    case True
    then show ?thesis
      using MemoryOpenedFile good_step_refl [OF w]
      by (simp add: open_node_relative_def can_resolve_relative_to_opened_node_def)
  next
    case False
    have h': "handle_ok w (MemoryOpenedFile n m)" using h MemoryOpenedFile by simp
    have "\<exists>r w'. Done (create_relative_node K n m p FileKind mode w) = Done (r, w') \<and> good_step w w' \<and>
        (\<forall>i. r = Some i \<longrightarrow> i \<in> node_maps w' m)"
      using create_relative_step [OF w h', of K p FileKind mode] by simp
    from open_resolved_step [where existing = "resolve_relative n m p w" and
        create = "\<lambda>w. Done (create_relative_node K n m p FileKind mode w)",
        OF w resolve_relative_handle [OF w h', of p] this, of K fl] show ?thesis
      using MemoryOpenedFile False
      by (auto simp: open_node_relative_def can_resolve_relative_to_opened_node_def
          simp del: handle_ok.simps)
  qed
qed

lemma opened_mkdir_child_step:
  assumes w: "world_inv w" and h: "handle_ok w h"
  shows "\<exists>r w'. opened_mkdir_child K h p mode w = (r, w') \<and> good_step w w'"
proof (cases h)
  case (MemoryOpenedFile n m)
  then show ?thesis
    using create_relative_step [OF w, of n m K p DirKind mode] h good_step_refl [OF w]
    by (cases "can_resolve_relative_to_opened_node p") (auto simp del: handle_ok.simps)
qed

section \<open>The trait methods\<close>

lemma remove_step:
  assumes w: "world_inv w" and fs: "live w fs" and p: "is_absolute p"
  shows "\<exists>r w'. remove_node_at p (mem_nodes fs) (mem_root fs) kind w = Done (r, w') \<and> good_step w w'"
proof -
  have inv: "mem_inv w (mem_nodes fs)" and root: "mem_root fs = mem_nodes fs"
    using live_inv [OF w fs] by auto
  note spec = remove_spec [OF inv p, of kind]
  show ?thesis
  proof (cases "\<exists>x d c. file_name p = Some x \<and> lookup_names (child w) (names_of (butlast p)) (mem_nodes fs) = Some d \<and>
      child w d x = Some c \<and> removable w c kind")
    case False
    then have "remove_node_at p (mem_nodes fs) (mem_root fs) kind w = Done (-1, w)"
      unfolding root spec by (auto split: option.splits)
    then show ?thesis using good_step_refl [OF w] by auto
  next
    case True
    then obtain x d c where x: "file_name p = Some x"
      and d: "lookup_names (child w) (names_of (butlast p)) (mem_nodes fs) = Some d"
      and c: "child w d x = Some c" "removable w c kind" by blast
    have dN: "d \<in> node_maps w (mem_nodes fs)"
      using lookup_in [OF mem_inv_tree [OF inv] mem_root_in [OF inv] d] .
    have "child w c = Map.empty" using c(2) by (intro empty_entries_child) (simp add: removable_def)
    from remove_entry_effect [OF w dN c(1) this] show ?thesis
      unfolding root spec using x d c by (simp add: good_step_def)
  qed
qed

lemma rename_cases:
  assumes w: "world_inv w" and fs: "live w fs" and old: "is_absolute old" and new: "is_absolute new"
  obtains r w' where "rename_node_at old new (mem_nodes fs) (mem_root fs) w = Done (r, w')" "w' = w"
  | r w' p x q y c where "rename_node_at old new (mem_nodes fs) (mem_root fs) w = Done (r, w')"
      "p \<in> node_maps w (mem_nodes fs)" "q \<in> node_maps w (mem_nodes fs)" "child w p x = Some c" "child w q y \<noteq> Some c"
      "move_allowed old new c (child w q y) w" "move_entry (mem_nodes fs) p x q y c (child w q y) w w'"
proof -
  let ?m = "mem_nodes fs"
  have inv: "mem_inv w ?m" and root: "mem_root fs = ?m" using live_inv [OF w fs] by auto
  note t = mem_inv_tree [OF inv]
  from fs have "node_maps w ?m \<noteq> {}" by (simp add: live_def)
  from rename_spec [OF w this old new] obtain r w' where
    res: "rename_node_at old new ?m (mem_root fs) w = Done (r, w')" and
    out: "if old = [RootDir] \<or> new = [RootDir] then r = -1 \<and> w' = w
      else if old = new then r = 0 \<and> w' = w
      else (case (file_name old, lookup_names (child w) (names_of (butlast old)) ?m,
                  file_name new, lookup_names (child w) (names_of (butlast new)) ?m) of
              (Some x, Some p, Some y, Some q) \<Rightarrow> rename_outcome old new ?m p x q y w r w'
            | _ \<Rightarrow> r = -1 \<and> w' = w)" unfolding root by blast
  show thesis
  proof (cases "w' = w")
    case True
    then show thesis using res that(1) by blast
  next
    case False
    with out obtain x p y q where p: "lookup_names (child w) (names_of (butlast old)) ?m = Some p"
      and q: "lookup_names (child w) (names_of (butlast new)) ?m = Some q"
      and ro: "rename_outcome old new ?m p x q y w r w'"
      by (auto split: if_splits option.splits)
    have pq: "p \<in> node_maps w ?m" "q \<in> node_maps w ?m"
      using lookup_in [OF t mem_root_in [OF inv]] p q by blast+
    from ro False obtain c where "child w p x = Some c" "child w q y \<noteq> Some c"
        "move_allowed old new c (child w q y) w" "move_entry ?m p x q y c (child w q y) w w'"
      by (auto simp: rename_outcome_def split: option.splits if_splits)
    with res pq show thesis by (rule that(2))
  qed
qed

lemma rename_step:
  assumes w: "world_inv w" and fs: "live w fs" and old: "is_absolute old" and new: "is_absolute new"
  shows "\<exists>r w'. rename_node_at old new (mem_nodes fs) (mem_root fs) w = Done (r, w') \<and> good_step w w'"
proof (cases rule: rename_cases [OF assms])
  case 1
  then show ?thesis using good_step_refl [OF w] by auto
next
  case (2 r w' p x q y c)
  have "child w e = Map.empty \<and> e \<noteq> c" if "child w q y = Some e" for e
    using 2(5,6) that empty_entries_child [of w e] by (auto simp: move_allowed_def can_replace_iff)
  from move_entry_inv [OF w 2(2,4,3) refl this 2(7)] show ?thesis
    using 2(1,7) by (simp add: good_step_def move_entry_def)
qed

lemma chmod_step:
  assumes w: "world_inv w" and fs: "live w fs" and p: "is_absolute p"
  shows "\<exists>r w'. mem_chmod K fs p mode w = Done (r, w') \<and> same_tree w w'"
proof (cases "view w fs (names_of p)")
  case None
  then show ?thesis using same_tree_refl by (auto simp: mem_chmod_def resolve_view [OF w fs p])
next
  case (Some a)
  have 1: "same_tree w (update_node a (\<lambda>n. n\<lparr>nd_mode := mode AND MODE_MASK\<rparr>) w)"
    by (rule same_tree_mode)
  show ?thesis
    using Some 1 same_tree_trans [OF 1 same_tree_kern]
    by (auto simp: mem_chmod_def resolve_view [OF w fs p] Let_def split: node_kind.split)
qed

section \<open>The contract\<close>

text \<open>The invariant when the file systems \<open>F\<close> are in use.\<close>

definition mem_ok :: "memory_fs set \<Rightarrow> 'k world \<Rightarrow> bool" where
  "mem_ok F w \<longleftrightarrow> world_inv w \<and> (\<forall>fs \<in> F. live w fs)"

lemma mem_ok_step: "mem_ok F w \<Longrightarrow> good_step w w' \<Longrightarrow> mem_ok F w'"
  by (auto simp: mem_ok_def good_step_def intro: evolves_live)

lemma good_safe:
  fixes io :: "('k world, 'a) io"
  assumes "\<And>w. mem_ok F w \<Longrightarrow> \<exists>r w'. io w = Done (r, w') \<and> good_step w w'"
  shows "safe_io (mem_ok F) handle_ok io"
  unfolding safe_io_def
proof (intro allI impI)
  fix w :: "'k world" assume "mem_ok F w"
  with assms obtain r w' where "io w = Done (r, w')" "good_step w w'" by blast
  with \<open>mem_ok F w\<close> show "\<exists>r w'. io w = Done (r, w') \<and> mem_ok F w' \<and> (\<forall>h. handle_ok w h \<longrightarrow> handle_ok w' h)"
    using mem_ok_step evolves_handle by (auto simp: good_step_def simp del: handle_ok.simps)
qed

lemma normal_absolute: "normal_path p \<Longrightarrow> is_absolute p"
  by (cases p rule: normal_path.cases) auto

lemma mem_ok_fs: "mem_ok (insert fs F) w \<Longrightarrow> world_inv w \<and> live w fs"
  by (simp add: mem_ok_def)

interpretation mem: backend "memory_fs_ops K fs" "mem_ok (insert fs F)" handle_ok
  for K :: "'k kernel" and fs F
proof unfold_locales
  fix p q md fl mo sb
  assume p: "normal_path p"
  note ab = normal_absolute [OF p]
  note step = good_step_refl good_step_same
  show "safe_io (mem_ok (insert fs F)) handle_ok (fs_access (memory_fs_ops K fs) p md)"
    by (rule good_safe) (use ab step in \<open>auto dest!: mem_ok_fs simp: memory_fs_ops_def mem_access_def resolve_view\<close>)
  show "safe_io (mem_ok (insert fs F)) handle_ok (fs_open (memory_fs_ops K fs) p fl mo)"
  proof (rule good_safe)
    fix w :: "'k world" assume "mem_ok (insert fs F) w"
    then show "\<exists>r w'. fs_open (memory_fs_ops K fs) p fl mo w = Done (r, w') \<and> good_step w w'"
      using open_node_step [OF _ _ ab, of w fs K fl mo] by (auto dest!: mem_ok_fs simp: memory_fs_ops_def mem_open_def)
  qed
  show "safe_io (mem_ok (insert fs F)) handle_ok (fs_mkdir (memory_fs_ops K fs) p mo)"
  proof (rule good_safe)
    fix w :: "'k world" assume "mem_ok (insert fs F) w"
    then show "\<exists>r w'. fs_mkdir (memory_fs_ops K fs) p mo w = Done (r, w') \<and> good_step w w'"
      using create_node_step [OF _ _ ab, of w fs K DirKind mo] by (auto dest!: mem_ok_fs simp: memory_fs_ops_def mem_mkdir_def)
  qed
  show "safe_io (mem_ok (insert fs F)) handle_ok (fs_unlink (memory_fs_ops K fs) p)"
    by (rule good_safe) (use ab remove_step in \<open>auto dest!: mem_ok_fs simp: memory_fs_ops_def mem_unlink_def\<close>)
  show "safe_io (mem_ok (insert fs F)) handle_ok (fs_rmdir (memory_fs_ops K fs) p)"
    by (rule good_safe) (use ab remove_step in \<open>auto dest!: mem_ok_fs simp: memory_fs_ops_def mem_rmdir_def\<close>)
  show "safe_io (mem_ok (insert fs F)) handle_ok (fs_rename (memory_fs_ops K fs) p q)" if "normal_path q"
    by (rule good_safe) (use ab normal_absolute [OF that] rename_step in
        \<open>auto dest!: mem_ok_fs simp: memory_fs_ops_def mem_rename_def\<close>)
  show "safe_io (mem_ok (insert fs F)) handle_ok (fs_chmod (memory_fs_ops K fs) p mo)"
  proof (rule good_safe)
    fix w :: "'k world" assume "mem_ok (insert fs F) w"
    then show "\<exists>r w'. fs_chmod (memory_fs_ops K fs) p mo w = Done (r, w') \<and> good_step w w'"
      using chmod_step [OF _ _ ab, of w fs K mo] good_step_same by (fastforce dest!: mem_ok_fs simp: memory_fs_ops_def)
  qed
  show "safe_io (mem_ok (insert fs F)) handle_ok (fs_stat (memory_fs_ops K fs) p sb)"
  proof (rule good_safe)
    fix w :: "'k world" assume ok: "mem_ok (insert fs F) w"
    then have w: "world_inv w" "live w fs" by (auto dest: mem_ok_fs)
    show "\<exists>r w'. fs_stat (memory_fs_ops K fs) p sb w = Done (r, w') \<and> good_step w w'"
    proof (cases "view w fs (names_of p)")
      case None
      then show ?thesis
        using w ab good_step_refl by (auto simp: memory_fs_ops_def mem_stat_def resolve_view)
    next
      case (Some a)
      obtain r w' where st: "stat_node K a (mem_nodes fs) sb w = (r, w')" by fastforce
      then show ?thesis
        using Some w ab good_step_same [OF w(1)] stat_node_world [OF st]
        by (auto simp: memory_fs_ops_def mem_stat_def resolve_view)
    qed
  qed
  show "safe_open (mem_ok (insert fs F)) handle_ok (fs_open_with_handle (memory_fs_ops K fs) p fl mo)"
    unfolding safe_open_def
  proof (intro allI impI)
    fix w :: "'k world" assume ok: "mem_ok (insert fs F) w"
    then have w: "world_inv w" "live w fs" by (auto dest: mem_ok_fs)
    from open_node_step [OF w ab, of K fl mo] obtain fd n w' where
      "open_node K fs p fl mo w = Done ((fd, n), w')" "good_step w w'"
      "\<forall>a. n = Some a \<longrightarrow> handle_ok w' (MemoryOpenedFile a (mem_nodes fs))" by blast
    then show "\<exists>r s'. fs_open_with_handle (memory_fs_ops K fs) p fl mo w = Done (r, s') \<and>
        mem_ok (insert fs F) s' \<and> (\<forall>h. handle_ok w h \<longrightarrow> handle_ok s' h) \<and>
        (\<forall>h. or_opened r = Some h \<longrightarrow> handle_ok s' h)"
      using mem_ok_step [OF ok] evolves_handle
      by (auto simp: memory_fs_ops_def mem_open_with_handle_def good_step_def simp del: handle_ok.simps)
  qed
  show "safe_io (mem_ok (insert fs F)) handle_ok (fs_read_dir (memory_fs_ops K fs) p)"
    by (rule good_safe) (use ab step in \<open>auto dest!: mem_ok_fs simp: memory_fs_ops_def mem_read_dir_def resolve_view\<close>)
qed

end
