(* ===== verification/MemorySpec.thy ===== *)
theory MemorySpec
  imports MemoryBackend
begin

text \<open>
  The abstract file system and the refinement. \<open>abs_fs\<close> maps a list of names to the inode and the
  kind of what is found there. The specifications \<open>spec_create\<close>, \<open>spec_remove\<close> and
  \<open>spec_rename\<close> are defined on this map alone (a create adds one path, a remove deletes one, a
  rename moves a subtree), and the lemmas state that the operations on nodes, entries and parent
  links implement them, with the return codes of every branch.
\<close>

section \<open>The abstract file system\<close>

type_synonym abs_fs = "string list \<Rightarrow> (node_id \<times> vfs_entry_kind) option"

definition abs_fs :: "'k world \<Rightarrow> memory_fs \<Rightarrow> abs_fs" where
  "abs_fs w fs ns = map_option (\<lambda>i. (i, entry_kind (heap w i))) (view w fs ns)"

definition spec_create :: "abs_fs \<Rightarrow> string list \<Rightarrow> node_id \<Rightarrow> vfs_entry_kind \<Rightarrow> abs_fs option" where
  "spec_create t ns i kind =
     (if ns \<noteq> [] \<and> t ns = None \<and> map_option snd (t (butlast ns)) = Some DirKind
      then Some (t(ns \<mapsto> (i, kind))) else None)"

definition spec_remove :: "abs_fs \<Rightarrow> string list \<Rightarrow> vfs_entry_kind \<Rightarrow> abs_fs option" where
  "spec_remove t ns kind =
     (if ns \<noteq> [] \<and> map_option snd (t ns) = Some kind \<and> (\<forall>x. t (ns @ [x]) = None)
      then Some (t(ns := None)) else None)"

text \<open>
  A rename of a path to itself succeeds before the path is looked up. A directory is not moved
  below itself; a target that exists is replaced if it has the same kind and no entries.
\<close>

definition spec_rename :: "abs_fs \<Rightarrow> string list \<Rightarrow> string list \<Rightarrow> abs_fs option" where
  "spec_rename t old new =
     (if old = [] \<or> new = [] then None
      else if old = new then Some t
      else case t old of
        None \<Rightarrow> None
      | Some (i, kind) \<Rightarrow>
          if map_option snd (t (butlast new)) = Some DirKind \<and> \<not> (kind = DirKind \<and> prefix old new) \<and>
             (t new = None \<or> map_option snd (t new) = Some kind \<and> (\<forall>x. t (new @ [x]) = None))
          then Some (\<lambda>zs. if prefix new zs then t (old @ drop (length new) zs)
                          else if prefix old zs then None else t zs)
          else None)"

section \<open>From nodes to paths\<close>

lemma abs_None_iff: "abs_fs w fs ns = None \<longleftrightarrow> view w fs ns = None"
  by (simp add: abs_fs_def)

lemma abs_kind: "map_option snd (abs_fs w fs ns) = map_option (\<lambda>i. entry_kind (heap w i)) (view w fs ns)"
  by (cases "view w fs ns") (simp_all add: abs_fs_def)

lemma view_snoc: "view w fs (ns @ [x]) = Option.bind (view w fs ns) (\<lambda>d. child w d x)"
  by (simp add: view_def lookup_snoc)

lemma abs_kind_evolves:
  assumes "world_inv w" "live w fs" "evolves w w'" "view w fs ns = Some i"
  shows "entry_kind (heap w' i) = entry_kind (heap w i)"
proof -
  have "i < next_node_id w"
    using world_inv_in [OF assms(1) view_in [OF assms(1,2,4)]] by (simp add: node_ok_def)
  then show ?thesis using assms(3) by (simp add: evolves_def entry_kind_dir)
qed

text \<open>A change of the namespace shows in the abstract file system as it shows in the view.\<close>

lemma abs_same:
  assumes "world_inv w" "live w fs" "evolves w w'" "\<And>ns. view w' fs ns = view w fs ns"
  shows "abs_fs w' fs = abs_fs w fs"
proof
  fix ns
  show "abs_fs w' fs ns = abs_fs w fs ns"
    using abs_kind_evolves [OF assms(1,2,3), of ns] assms(4) by (cases "view w fs ns") (auto simp: abs_fs_def)
qed

lemma same_tree_view: "same_tree w w' \<Longrightarrow> view w' fs = view w fs"
  by (simp add: view_def fun_eq_iff same_tree_child)

lemma same_tree_abs: "same_tree w w' \<Longrightarrow> abs_fs w' fs = abs_fs w fs"
  by (simp add: abs_fs_def fun_eq_iff same_tree_view same_tree_heap)

lemma leaf_abs:
  assumes "world_inv w" "live w fs" "view w fs ns = Some c"
  shows "entries_of (heap w c) = [] \<longleftrightarrow> (\<forall>x. abs_fs w fs (ns @ [x]) = None)"
proof -
  have "node_ok w c" using world_inv_in [OF assms(1) view_in [OF assms]] by simp
  then show ?thesis
    using assms(3) by (auto simp: child_empty_entries abs_None_iff view_snoc fun_eq_iff)
qed

lemma is_directory_kind: "is_directory n \<longleftrightarrow> entry_kind n = DirKind"
  by (simp add: entry_kind_dir)

section \<open>Creation\<close>

lemma create_in_view:
  assumes w: "world_inv w" and fs: "live w fs" and d: "view w fs ns = Some d"
    and dir: "is_directory (heap w d)" and free: "child w d x = None"
  shows "abs_fs (add_node K d (mem_nodes fs) x kind mode w) fs =
           (abs_fs w fs)(ns @ [x] \<mapsto> (next_node_id w, kind))"
proof
  fix zs
  let ?m = "mem_nodes fs" and ?i = "next_node_id w" and ?w = "add_node K d (mem_nodes fs) x kind mode w"
  have inv: "mem_inv w ?m" and root: "mem_root fs = ?m" using live_inv [OF w fs] by auto
  have dN: "d \<in> node_maps w ?m" by (rule view_in [OF w fs d])
  then have ok: "node_ok w d" using world_inv_in [OF w] by auto
  then have d': "d < ?i" "btree_sorted (entries_of (heap w d))" by (simp_all add: node_ok_def)
  note f = add_node_fields [OF d'(1) dir d'(2), of K ?m x kind mode]
  have fresh: "?i \<notin> node_maps w ?m"
    using world_inv_in [OF w, of ?i ?m] by (auto simp: node_ok_def)
  have view: "view ?w fs zs = (if zs = ns @ [x] then Some ?i else view w fs zs)"
    unfolding view_def f root
    by (rule lookup_insert [OF mem_inv_tree [OF inv] fresh]) (use d d' free root in \<open>auto simp: view_def\<close>)
  have ev: "evolves w ?w"
    by (rule add_node_effect(2) [OF w map_node_handle_ok [OF w dN] dir])
  show "abs_fs ?w fs zs = ((abs_fs w fs)(ns @ [x] \<mapsto> (?i, kind))) zs"
  proof (cases "zs = ns @ [x]")
    case True
    then show ?thesis using view d' by (simp add: abs_fs_def f(5) mem_simps)
  next
    case False
    then show ?thesis
      using view abs_kind_evolves [OF w fs ev, of zs] by (cases "view w fs zs") (auto simp: abs_fs_def)
  qed
qed

lemma create_node_refines:
  assumes w: "world_inv w" and fs: "live w fs"
  shows "\<exists>r w'. create_node K fs (names_path ns) kind mode w = Done (r, w') \<and>
     (case (if memfd_ok K kind w then spec_create (abs_fs w fs) ns (next_node_id w) kind else None) of
        None \<Rightarrow> r = None \<and> same_tree w w'
      | Some t \<Rightarrow> r = Some (next_node_id w) \<and> abs_fs w' fs = t \<and>
          (\<exists>d. view w fs (butlast ns) = Some d \<and> w' = add_node K d (mem_nodes fs) (last ns) kind mode w))"
proof (cases "ns = []")
  case True
  then show ?thesis
    using same_tree_refl by (simp add: create_node_names [OF w fs] path_simps spec_create_def)
next
  case False
  then obtain ms x where ns: "ns = ms @ [x]" by (cases ns rule: rev_cases) auto
  have bl: "names_of (butlast (names_path (ms @ [x]))) = ms"
    by (simp add: names_path_def butlast_append)
  note cn = create_node_names [OF w fs names_path_absolute]
  show ?thesis
  proof (cases "view w fs ms")
    case None
    then show ?thesis
      using same_tree_refl ns
      by (simp add: cn path_simps bl spec_create_def abs_fs_def)
  next
    case (Some d)
    have dlt: "d < next_node_id w"
      using world_inv_in [OF w view_in [OF w fs Some]] by (simp add: node_ok_def)
    obtain r w' where res: "create_node_in_dir K d (mem_nodes fs) x kind mode w = (r, w')" by fastforce
    have call: "create_node K fs (names_path ns) kind mode w = Done (r, w')"
      using Some ns res by (simp add: cn path_simps bl)
    have free: "abs_fs w fs ns = None \<longleftrightarrow> child w d x = None"
      using Some ns by (simp add: abs_None_iff view_snoc)
    have dir: "map_option snd (abs_fs w fs ms) = Some DirKind \<longleftrightarrow> is_directory (heap w d)"
      using Some by (simp add: abs_kind is_directory_kind)
    show ?thesis
    proof (cases "memfd_ok K kind w \<and> is_directory (heap w d) \<and> child w d x = None")
      case True
      then have "r = Some (next_node_id w)" "w' = add_node K d (mem_nodes fs) x kind mode w"
        using res create_node_in_dir_ok [of w d x K kind "mem_nodes fs" mode] dlt by auto
      then show ?thesis
        using True call free dir ns Some create_in_view [OF w fs Some, of x K kind mode]
        by (simp add: spec_create_def)
    next
      case False
      then have "r = None \<and> same_tree w w'"
        using create_node_in_dir_cases [OF res dlt] by auto
      then show ?thesis using False call free dir ns by (auto simp: spec_create_def)
    qed
  qed
qed

section \<open>Removal\<close>

lemma remove_refines:
  assumes w: "world_inv w" and fs: "live w fs"
  shows "\<exists>r w'. remove_node_at (names_path ns) (mem_nodes fs) (mem_root fs) kind w = Done (r, w') \<and>
     (case spec_remove (abs_fs w fs) ns kind of
        None \<Rightarrow> r = -1 \<and> w' = w
      | Some t \<Rightarrow> r = 0 \<and> abs_fs w' fs = t)"
proof (cases "ns = []")
  case True
  then show ?thesis using live_inv [OF w fs]
    by (simp add: remove_spec path_simps spec_remove_def)
next
  case False
  then obtain ms x where ns: "ns = ms @ [x]" by (cases ns rule: rev_cases) auto
  let ?m = "mem_nodes fs"
  have inv: "mem_inv w ?m" and root: "mem_root fs = ?m" using live_inv [OF w fs] by auto
  have bl: "names_of (butlast (names_path (ms @ [x]))) = ms"
    by (simp add: names_path_def butlast_append)
  note sp = remove_spec [OF inv names_path_absolute]
  show ?thesis
  proof (cases "\<exists>d c. view w fs ms = Some d \<and> child w d x = Some c")
    case False
    then have "view w fs ns = None" using ns by (cases "view w fs ms") (auto simp: view_snoc)
    moreover have "remove_node_at (names_path ns) ?m ?m kind w = Done (-1, w)"
      using False ns root by (auto simp: sp path_simps bl view_def split: option.splits)
    ultimately show ?thesis using root by (simp add: spec_remove_def abs_fs_def)
  next
    case True
    then obtain d c where d: "view w fs ms = Some d" and c: "child w d x = Some c" by blast
    then have vns: "view w fs ns = Some c" using ns by (simp add: view_snoc)
    have kind: "removable w c kind \<longleftrightarrow>
        map_option snd (abs_fs w fs ns) = Some kind \<and> (\<forall>y. abs_fs w fs (ns @ [y]) = None)"
      using vns leaf_abs [OF w fs vns] by (simp add: removable_def abs_kind)
    have call: "remove_node_at (names_path ns) ?m ?m kind w =
        Done (if removable w c kind then (0, remove_entry ?m d x c w) else (-1, w))"
      using d c ns root by (simp add: sp path_simps bl view_def)
    show ?thesis
    proof (cases "removable w c kind")
      case False
      then show ?thesis using call kind root by (auto simp: spec_remove_def)
    next
      case rem: True
      then have leaf: "child w c = Map.empty" by (intro empty_entries_child) (simp add: removable_def)
      note eff = remove_entry_effect [OF w view_in [OF w fs d] c leaf]
      have view: "view (remove_entry ?m d x c w) fs zs = (if zs = ns then None else view w fs zs)" for zs
        using lookup_delete_leaf [OF mem_inv_tree [OF inv] _ c leaf, of ms zs] d ns root
        by (simp add: view_def eff(3))
      have "abs_fs (remove_entry ?m d x c w) fs zs = ((abs_fs w fs)(ns := None)) zs" for zs
        using view abs_kind_evolves [OF w fs eff(2), of zs]
        by (cases "view w fs zs") (auto simp: abs_fs_def)
      then have "abs_fs (remove_entry ?m d x c w) fs = (abs_fs w fs)(ns := None)" ..
      then show ?thesis using call kind rem root ns by (simp add: spec_remove_def)
    qed
  qed
qed

section \<open>Renaming\<close>

lemma butlast_names: "ns \<noteq> [] \<Longrightarrow> names_of (butlast (names_path ns)) = butlast ns"
  by (cases ns rule: rev_cases) (simp_all add: names_path_def butlast_append)

lemma view_last:
  "ns \<noteq> [] \<Longrightarrow> view w fs ns = Option.bind (view w fs (butlast ns)) (\<lambda>d. child w d (last ns))"
  using view_snoc [of w fs "butlast ns" "last ns"] by simp

text \<open>The subtree that a move shows at its new place.\<close>

lemma move_view:
  assumes w: "world_inv w" and fs: "live w fs" and ne: "old \<noteq> []" "new \<noteq> []"
    and p: "view w fs (butlast old) = Some p" and c: "child w p (last old) = Some c"
    and q: "view w fs (butlast new) = Some q" and rep: "child w q (last new) = rep"
    and leaf: "\<And>e. rep = Some e \<Longrightarrow> child w e = Map.empty \<and> e \<noteq> c"
    and below: "\<not> prefix old new"
    and mv: "move_entry (mem_nodes fs) p (last old) q (last new) c rep w w'"
  shows "view w' fs zs =
           (if prefix new zs then view w fs (old @ drop (length new) zs)
            else if prefix old zs then None else view w fs zs)"
proof -
  let ?m = "mem_nodes fs"
  have inv: "mem_inv w ?m" and root: "mem_root fs = ?m" using live_inv [OF w fs] by auto
  have old: "butlast old @ [last old] = old" and new: "butlast new @ [last new] = new" using ne by auto
  have len: "length (butlast new) + 1 = length new" using ne(2) by (cases new rule: rev_cases) auto
  have ch: "child w' = child_move p (last old) q (last new) c (replace_child rep q (last new) (child w))"
    using mv by (simp add: move_entry_def)
  have pN: "p \<in> node_maps w ?m" "q \<in> node_maps w ?m" using view_in [OF w fs] p q by blast+
  have mid: "butlast old @ last old # ys = old @ ys" for ys
    by (metis append.assoc append_Cons append_Nil old)
  note t = mem_inv_tree [OF inv]
  show ?thesis
  proof (cases rep)
    case None
    then show ?thesis
      using lookup_move [OF t _ c _ rep [unfolded None], of "butlast old" "butlast new" zs] p q below old new len root
      by (simp add: view_def ch replace_child_def mid)
  next
    case (Some e)
    have e: "child w q (last new) = Some e" "child w e = Map.empty" "e \<noteq> c" using rep leaf Some by auto
    let ?ch = "child_delete q (last new) (child w)"
    have t': "name_tree (node_maps w ?m - {e}) ?m ?ch ((parent_of w)(e := None))"
      by (rule name_tree_delete [OF t pN(2) e(1)])
    have del: "lookup_names ?ch ys ?m = (if ys = new then None else lookup_names (child w) ys ?m)" for ys
      using lookup_delete_leaf [OF t _ e(1,2), of "butlast new" ys] q new root by (simp add: view_def)
    have "new \<noteq> old" using below by auto
    moreover have "butlast old \<noteq> new"
    proof
      assume "butlast old = new"
      then have "view w fs new = Some p" using p by simp
      then have "e = p" using q e(1) ne(2) by (simp add: view_last)
      then show False using c e(2) by simp
    qed
    moreover have "butlast new \<noteq> new" using ne(2) by (cases new rule: rev_cases) auto
    moreover have "?ch p (last old) = Some c" "?ch q (last new) = None"
      using c e by (auto simp: child_delete_apply)
    ultimately have "lookup_names (child w') zs ?m =
        (if prefix new zs then lookup_names ?ch (old @ drop (length new) zs) ?m
         else if prefix old zs then None else lookup_names ?ch zs ?m)"
      using lookup_move [OF t', of "butlast old" p "last old" c "butlast new" q "last new" zs]
        p q below old new len root Some
      by (simp add: view_def ch replace_child_def del mid)
    moreover have "old @ drop (length new) zs \<noteq> new" using below by (metis prefixI)
    ultimately show ?thesis by (auto simp: view_def root del)
  qed
qed

text \<open>When both parents are there, the code moves the entry exactly if the specification allows it.\<close>

lemma rename_allowed:
  assumes w: "world_inv w" and fs: "live w fs" and ne: "old \<noteq> []" "new \<noteq> []" "old \<noteq> new"
    and c: "view w fs old = Some c" and q: "view w fs (butlast new) = Some q"
  shows "is_directory (heap w q) \<and> move_allowed (names_path old) (names_path new) c (child w q (last new)) w \<longleftrightarrow>
     spec_rename (abs_fs w fs) old new \<noteq> None"
proof -
  have vn: "view w fs new = child w q (last new)" using q ne by (simp add: view_last)
  have "(case child w q (last new) of None \<Rightarrow> True | Some e \<Rightarrow> can_replace_node (heap w c) (heap w e)) \<longleftrightarrow>
      abs_fs w fs new = None \<or>
      map_option snd (abs_fs w fs new) = Some (entry_kind (heap w c)) \<and> (\<forall>x. abs_fs w fs (new @ [x]) = None)"
  proof (cases "child w q (last new)")
    case None
    then show ?thesis using vn by (simp add: abs_fs_def)
  next
    case (Some e)
    then show ?thesis
      using leaf_abs [OF w fs, of new e] vn by (auto simp: can_replace_iff abs_kind abs_None_iff)
  qed
  then show ?thesis
    using ne c q
    by (auto simp: spec_rename_def move_allowed_def is_directory_kind abs_kind path_simps abs_fs_def [of w fs old])
qed

lemma move_abs:
  assumes w: "world_inv w" and fs: "live w fs" and ne: "old \<noteq> []" "new \<noteq> []"
    and p: "view w fs (butlast old) = Some p" and c: "child w p (last old) = Some c"
    and q: "view w fs (butlast new) = Some q" "is_directory (heap w q)" and diff: "child w q (last new) \<noteq> Some c"
    and ok: "move_allowed (names_path old) (names_path new) c (child w q (last new)) w"
    and mv: "move_entry (mem_nodes fs) p (last old) q (last new) c (child w q (last new)) w w'"
  shows "abs_fs w' fs = (\<lambda>zs. if prefix new zs then abs_fs w fs (old @ drop (length new) zs)
            else if prefix old zs then None else abs_fs w fs zs)"
proof
  fix zs
  have vo: "view w fs old = Some c" using p c ne(1) by (simp add: view_last)
  have nodir: "\<not> (is_directory (heap w c) \<and> prefix old new)" using ok by (simp add: move_allowed_def path_simps)
  have leaf: "child w e = Map.empty \<and> e \<noteq> c" if "child w q (last new) = Some e" for e
    using that ok diff empty_entries_child [of w e] by (auto simp: move_allowed_def can_replace_iff)
  have "old \<noteq> new" using vo ne diff q(1) by (auto simp: view_last)
  have below: "\<not> prefix old new"
  proof
    assume pre: "prefix old new"
    then obtain z zs where "butlast new = old @ zs"
      using \<open>old \<noteq> new\<close> by (metis prefix_def butlast_append append.right_neutral)
    then show False using q vo nodir pre child_file [of w c] by (cases zs) (auto simp: view_def lookup_append)
  qed
  have ev: "evolves w w'" using mv by (simp add: move_entry_def)
  show "abs_fs w' fs zs = (if prefix new zs then abs_fs w fs (old @ drop (length new) zs)
      else if prefix old zs then None else abs_fs w fs zs)"
    using move_view [OF w fs ne p c q(1) refl leaf below mv, of zs] abs_kind_evolves [OF w fs ev, of zs]
      abs_kind_evolves [OF w fs ev, of "old @ drop (length new) zs"]
    by (cases "view w fs zs"; cases "view w fs (old @ drop (length new) zs)") (auto simp: abs_fs_def)
qed

lemma spec_rename_result:
  "spec_rename t old new = Some t' \<Longrightarrow> old \<noteq> new \<Longrightarrow>
     t' = (\<lambda>zs. if prefix new zs then t (old @ drop (length new) zs) else if prefix old zs then None else t zs)"
  by (simp add: spec_rename_def split: option.splits if_splits prod.splits)

lemma rename_outcome_refines:
  assumes w: "world_inv w" and fs: "live w fs" and ne: "old \<noteq> []" "new \<noteq> []" "old \<noteq> new"
    and out: "case (view w fs (butlast old), view w fs (butlast new)) of
          (Some p, Some q) \<Rightarrow> rename_outcome (names_path old) (names_path new) (mem_nodes fs) p (last old) q (last new) w r w'
        | _ \<Rightarrow> r = -1 \<and> w' = w"
  shows "case spec_rename (abs_fs w fs) old new of None \<Rightarrow> r = -1 \<and> w' = w | Some t \<Rightarrow> r = 0 \<and> abs_fs w' fs = t"
proof (cases "view w fs old = None \<or> view w fs (butlast new) = None")
  case True
  then have "r = -1 \<and> w' = w" using out ne by (auto simp: view_last rename_outcome_def split: option.splits)
  moreover have "spec_rename (abs_fs w fs) old new = None"
    using True ne by (auto simp: spec_rename_def abs_fs_def split: option.splits)
  ultimately show ?thesis by simp
next
  case False
  then obtain c q where vo: "view w fs old = Some c" and q: "view w fs (butlast new) = Some q" by auto
  with ne obtain p where p: "view w fs (butlast old) = Some p" and c: "child w p (last old) = Some c"
    by (auto simp: view_last bind_eq_Some_conv)
  have ro: "rename_outcome (names_path old) (names_path new) (mem_nodes fs) p (last old) q (last new) w r w'"
    using out p q by simp
  have "view w fs new = child w q (last new)" using q ne by (simp add: view_last)
  then have diff: "child w q (last new) \<noteq> Some c"
    using vo ne(3) lookup_unique [OF mem_inv_tree, of w "mem_nodes fs" old c new] live_inv [OF w fs] by (auto simp: view_def)
  show ?thesis
  proof (cases "spec_rename (abs_fs w fs) old new")
    case None
    then have "\<not> is_directory (heap w q) \<or> \<not> move_allowed (names_path old) (names_path new) c (child w q (last new)) w"
      using rename_allowed [OF w fs ne vo q] by simp
    then show ?thesis using None ro c diff by (auto simp: rename_outcome_def split: if_splits)
  next
    case (Some t)
    then have go: "is_directory (heap w q)" "move_allowed (names_path old) (names_path new) c (child w q (last new)) w"
      using rename_allowed [OF w fs ne vo q] by auto
    then have "\<not> (is_directory (heap w c) \<and> prefix old new)" by (simp add: move_allowed_def path_simps)
    then have mv: "r = 0" "move_entry (mem_nodes fs) p (last old) q (last new) c (child w q (last new)) w w'"
      using ro c diff go by (auto simp: rename_outcome_def path_simps)
    show ?thesis
      using move_abs [OF w fs ne(1,2) p c q go(1) diff go(2) mv(2)] spec_rename_result [OF Some ne(3)] mv(1) Some by simp
  qed
qed

lemma rename_refines:
  assumes w: "world_inv w" and fs: "live w fs"
  shows "\<exists>r w'. rename_node_at (names_path old) (names_path new) (mem_nodes fs) (mem_root fs) w = Done (r, w') \<and>
     (case spec_rename (abs_fs w fs) old new of
        None \<Rightarrow> r = -1 \<and> w' = w
      | Some t \<Rightarrow> r = 0 \<and> abs_fs w' fs = t)"
proof -
  let ?m = "mem_nodes fs"
  have root: "mem_root fs = ?m" using live_inv [OF w fs] by auto
  from fs have N: "node_maps w ?m \<noteq> {}" by (simp add: live_def)
  from rename_spec [OF w N names_path_absolute names_path_absolute, of old new] obtain r w' where
    res: "rename_node_at (names_path old) (names_path new) ?m ?m w = Done (r, w')" and
    out: "if names_path old = [RootDir] \<or> names_path new = [RootDir] then r = -1 \<and> w' = w
      else if names_path old = names_path new then r = 0 \<and> w' = w
      else (case (file_name (names_path old), lookup_names (child w) (names_of (butlast (names_path old))) ?m,
                  file_name (names_path new), lookup_names (child w) (names_of (butlast (names_path new))) ?m) of
              (Some x, Some p, Some y, Some q) \<Rightarrow> rename_outcome (names_path old) (names_path new) ?m p x q y w r w'
            | _ \<Rightarrow> r = -1 \<and> w' = w)" by blast
  have "case spec_rename (abs_fs w fs) old new of None \<Rightarrow> r = -1 \<and> w' = w | Some t \<Rightarrow> r = 0 \<and> abs_fs w' fs = t"
  proof (cases "old = [] \<or> new = [] \<or> old = new")
    case True
    then show ?thesis using out by (auto simp: spec_rename_def)
  next
    case False
    then have ne: "old \<noteq> []" "new \<noteq> []" "old \<noteq> new" by auto
    show ?thesis
      by (rule rename_outcome_refines [OF w fs ne])
        (use out ne root in \<open>simp add: path_simps butlast_names view_def split: option.splits\<close>)
  qed
  then show ?thesis unfolding root using res by blast
qed

end
