(* ===== verification/MemoryReach.thy ===== *)
theory MemoryReach
  imports MemorySpec
begin

text \<open>
  The worlds a process can reach: from the start, by creating in-memory file systems, calling
  their methods with absolute paths and calling the methods of the opened files they return. All
  of them satisfy the invariant. A small kernel and a small world of it serve the examples.
\<close>

section \<open>Creating a file system\<close>

definition boot :: "'k \<Rightarrow> 'k world" where
  "boot k = \<lparr>next_node_id = 1,
     heap = (\<lambda>_. \<lparr>nd_id = 0, nd_parent = None, nd_mode = 0, nd_links = 0, nd_kind = File 0\<rparr>),
     node_maps = (\<lambda>_. {}), kern = k\<rparr>"

lemma boot_inv: "world_inv (boot k)"
  by (simp add: world_inv_def boot_def)

lemma fresh_map: "world_inv w \<Longrightarrow> node_maps w (next_node_id w) = {}"
proof (rule ccontr)
  assume w: "world_inv w" and "node_maps w (next_node_id w) \<noteq> {}"
  then have "mem_inv w (next_node_id w)" by (intro world_inv_mem)
  then have "node_ok w (next_node_id w)" using mem_root_in by (auto simp: mem_inv_def)
  then show False by (simp add: node_ok_def)
qed

lemma fresh_id: "world_inv w \<Longrightarrow> next_node_id w \<notin> node_maps w r"
  using world_inv_in [of w "next_node_id w" r] by (auto simp: node_ok_def)

lemma memory_fs_new_step:
  assumes w: "world_inv w" and new: "memory_fs_new K name w = (fs, w')"
  shows "good_step w w'" "live w' fs" "abs_fs w' fs = [[] \<mapsto> (next_node_id w, DirKind)]"
proof -
  let ?i = "next_node_id w"
  let ?root = "\<lparr>nd_id = ?i, nd_parent = Some ?i, nd_mode = MODE_755, nd_links = 1,
     nd_kind = Directory [] (fst (k_memfd_create K ''sandbox-vfs-dir'' (kern w)))\<rparr>"
  have w': "next_node_id w' = ?i + 1" "heap w' = (heap w)(?i := ?root)"
      "node_maps w' = (node_maps w)(?i := {?i})"
    and fs: "mem_root fs = ?i" "mem_nodes fs = ?i"
    using new by (auto simp: memory_fs_new_def fetch_add_node_id_def create_memfd_def Let_def split: prod.splits)
  have root: "is_directory ?root" "entries_of ?root = []"
    by (simp_all add: is_directory_def entries_of_def)
  have ch: "child w' ?i = Map.empty" by (simp add: child_def w' entries_of_def btree_get_def fun_eq_iff)
  have own: "mem_inv w' ?i"
    using root ch by (auto simp: mem_inv_def name_tree_def node_ok_def parent_of_def w' btree_sorted_def)
  have "world_inv w'"
  proof (rule world_inv_update [OF w _ w'(3) _ own])
    show "{?i} \<inter> node_maps w r = {}" for r using fresh_id [OF w] by simp
  qed (use w' fresh_id [OF w] in auto)
  moreover have "evolves w w'"
  proof -
    have "(\<forall>r. r \<noteq> ?i \<longrightarrow> a \<notin> node_maps w r) \<longleftrightarrow> (\<forall>r. a \<notin> node_maps w r)" for a
      using fresh_map [OF w] by (metis empty_iff)
    then show ?thesis
      using fresh_id [OF w] fresh_map [OF w] by (auto simp: evolves_def w' split: if_splits)
  qed
  ultimately show "good_step w w'" by (simp add: good_step_def)
  show "live w' fs" by (simp add: live_def fs w')
  have "view w' fs ns = (if ns = [] then Some ?i else None)" for ns
    by (cases ns) (simp_all add: view_def fs ch)
  then show "abs_fs w' fs = [[] \<mapsto> (?i, DirKind)]"
    using root by (auto simp: abs_fs_def w' fun_eq_iff is_directory_kind)
qed

section \<open>Steps of a process\<close>

text \<open>
  A state is a world with the file systems and the opened files in use. The operations run one
  at a time, each on a file system or a handle of the state.
\<close>

type_synonym 'k mem_state = "'k world \<times> memory_fs set \<times> opened_file set"

inductive mem_step :: "'k kernel \<Rightarrow> 'k mem_state \<Rightarrow> 'k mem_state \<Rightarrow> bool" for K where
  new: "memory_fs_new K name w = (fs, w') \<Longrightarrow> mem_step K (w, F, H) (w', insert fs F, H)"
| access: "fs \<in> F \<Longrightarrow> is_absolute p \<Longrightarrow> mem_access fs p md w = Done (r, w') \<Longrightarrow> mem_step K (w, F, H) (w', F, H)"
| open_fd: "fs \<in> F \<Longrightarrow> is_absolute p \<Longrightarrow> mem_open K fs p fl mo w = Done (r, w') \<Longrightarrow> mem_step K (w, F, H) (w', F, H)"
| open_handle: "fs \<in> F \<Longrightarrow> is_absolute p \<Longrightarrow> mem_open_with_handle K fs p fl mo w = Done (z, w') \<Longrightarrow>
    mem_step K (w, F, H) (w', F, H \<union> set_option (or_opened z))"
| mkdir: "fs \<in> F \<Longrightarrow> is_absolute p \<Longrightarrow> mem_mkdir K fs p mo w = Done (r, w') \<Longrightarrow> mem_step K (w, F, H) (w', F, H)"
| unlink: "fs \<in> F \<Longrightarrow> is_absolute p \<Longrightarrow> mem_unlink fs p w = Done (r, w') \<Longrightarrow> mem_step K (w, F, H) (w', F, H)"
| rmdir: "fs \<in> F \<Longrightarrow> is_absolute p \<Longrightarrow> mem_rmdir fs p w = Done (r, w') \<Longrightarrow> mem_step K (w, F, H) (w', F, H)"
| rename: "fs \<in> F \<Longrightarrow> is_absolute p \<Longrightarrow> is_absolute q \<Longrightarrow> mem_rename fs p q w = Done (r, w') \<Longrightarrow>
    mem_step K (w, F, H) (w', F, H)"
| chmod: "fs \<in> F \<Longrightarrow> is_absolute p \<Longrightarrow> mem_chmod K fs p mo w = Done (r, w') \<Longrightarrow> mem_step K (w, F, H) (w', F, H)"
| stat: "fs \<in> F \<Longrightarrow> is_absolute p \<Longrightarrow> mem_stat K fs p sb w = Done (z, w') \<Longrightarrow> mem_step K (w, F, H) (w', F, H)"
| handle_stat: "h \<in> H \<Longrightarrow> opened_stat K h sb w = (r, w') \<Longrightarrow> mem_step K (w, F, H) (w', F, H)"
| handle_open: "h \<in> H \<Longrightarrow> opened_open_child K h p fl mo w = Done (z, w') \<Longrightarrow>
    mem_step K (w, F, H) (w', F, H \<union> set_option (Option.bind z or_opened))"
| handle_mkdir: "h \<in> H \<Longrightarrow> opened_mkdir_child K h p mo w = (r, w') \<Longrightarrow> mem_step K (w, F, H) (w', F, H)"

inductive_cases mem_stepE: "mem_step K (w, F, H) (w', F', H')"

abbreviation mem_steps :: "'k kernel \<Rightarrow> 'k mem_state \<Rightarrow> 'k mem_state \<Rightarrow> bool" where
  "mem_steps K \<equiv> (mem_step K)\<^sup>*\<^sup>*"

text \<open>Reachable from the start of the process.\<close>

definition mem_reach :: "'k kernel \<Rightarrow> 'k mem_state \<Rightarrow> bool" where
  "mem_reach K s \<longleftrightarrow> (\<exists>k. mem_steps K (boot k, {}, {}) s)"

section \<open>The invariant of reachable states\<close>

definition all_ok :: "'k world \<Rightarrow> memory_fs set \<Rightarrow> opened_file set \<Rightarrow> bool" where
  "all_ok w F H \<longleftrightarrow> world_inv w \<and> (\<forall>fs \<in> F. live w fs) \<and> (\<forall>h \<in> H. handle_ok w h)"

lemma all_ok_step:
  assumes "all_ok w F H" "good_step w w'" "\<And>h. h \<in> H' \<Longrightarrow> handle_ok w' h"
  shows "all_ok w' F (H \<union> H')"
  using assms evolves_live evolves_handle by (fastforce simp: all_ok_def good_step_def simp del: handle_ok.simps)

lemma all_ok_step': "all_ok w F H \<Longrightarrow> good_step w w' \<Longrightarrow> all_ok w' F H"
  using all_ok_step [of w F H w' "{}"] by simp

lemma access_good:
  assumes "world_inv w" "live w fs" "is_absolute p" "mem_access fs p md w = Done (r, w')"
  shows "good_step w w'"
  using assms good_step_refl by (auto simp: mem_access_def resolve_view)

lemma stat_good:
  assumes w: "world_inv w" and "live w fs" "is_absolute p" "mem_stat K fs p sb w = Done (r, w')"
  shows "good_step w w'"
proof (cases "view w fs (names_of p)")
  case None
  then show ?thesis using assms good_step_refl [OF w] by (simp add: mem_stat_def resolve_view)
next
  case (Some a)
  then have "stat_node K a (mem_nodes fs) sb w = (r, w')"
    using assms by (simp add: mem_stat_def resolve_view)
  then show ?thesis using good_step_same [OF w] stat_node_world by blast
qed

lemma mem_step_good:
  assumes step: "mem_step K (w, F, H) (w', F', H')" and ok: "all_ok w F H"
  shows "good_step w w' \<and> (\<forall>fs \<in> F'. live w' fs) \<and> (\<forall>h \<in> H'. h \<in> H \<or> handle_ok w' h)"
proof -
  have w: "world_inv w" and lv: "\<And>fs. fs \<in> F \<Longrightarrow> live w fs" and hok: "\<And>h. h \<in> H \<Longrightarrow> handle_ok w h"
    using ok by (auto simp: all_ok_def)
  have keep: "\<forall>fs \<in> F. live w' fs" if "good_step w w'"
    using that lv evolves_live by (auto simp: good_step_def)
  have plain: ?thesis if "good_step w w'" "F' = F" "H' = H" using that keep by auto
  from step show ?thesis
  proof (cases rule: mem_stepE [consumes 1])
    case (1 name fs)
    then show ?thesis using memory_fs_new_step [OF w, of K name fs w'] keep by auto
  next
    case (2 fs p md r)
    then show ?thesis using access_good [OF w lv] by (intro plain) auto
  next
    case (3 fs p fl mo r)
    then show ?thesis
      using open_node_step [OF w lv, of fs p K fl mo] by (intro plain) (auto simp: mem_open_def)
  next
    case (4 fs p fl mo z)
    then have "good_step w w' \<and> (\<forall>h \<in> set_option (or_opened z). handle_ok w' h)"
      using open_node_step [OF w lv, of fs p K fl mo]
      by (auto simp: mem_open_with_handle_def simp del: handle_ok.simps)
    then show ?thesis using 4 keep by auto
  next
    case (5 fs p mo r)
    then show ?thesis
      using create_node_step [OF w lv, of fs p K DirKind mo] by (intro plain) (auto simp: mem_mkdir_def)
  next
    case (6 fs p r)
    then show ?thesis
      using remove_step [OF w lv, of fs p FileKind] by (intro plain) (auto simp: mem_unlink_def)
  next
    case (7 fs p r)
    then show ?thesis
      using remove_step [OF w lv, of fs p DirKind] by (intro plain) (auto simp: mem_rmdir_def)
  next
    case (8 fs p q r)
    then show ?thesis
      using rename_step [OF w lv, of fs p q] by (intro plain) (auto simp: mem_rename_def)
  next
    case (9 fs p mo r)
    then show ?thesis
      using chmod_step [OF w lv, of fs p K mo] good_step_same [OF w] by (intro plain) auto
  next
    case (10 fs p sb z)
    then show ?thesis using stat_good [OF w lv] by (intro plain) auto
  next
    case (11 h sb r)
    then have "same_tree w w'" by (cases h) (auto dest: stat_node_world)
    then show ?thesis using 11 good_step_same [OF w] by (intro plain) auto
  next
    case (12 h p fl mo z)
    then have "good_step w w' \<and> (\<forall>h \<in> set_option (Option.bind z or_opened). handle_ok w' h)"
      using opened_open_child_step [OF w hok, of h K p fl mo]
      by (auto simp: bind_eq_Some_conv simp del: handle_ok.simps opened_open_child.simps)
    then show ?thesis using 12 keep by auto
  next
    case (13 h p mo r)
    then show ?thesis
      using opened_mkdir_child_step [OF w hok, of h K p mo] by (intro plain) auto
  qed
qed

lemma mem_step_ok:
  assumes step: "mem_step K (w, F, H) (w', F', H')" and ok: "all_ok w F H"
  shows "all_ok w' F' H' \<and> evolves w w'"
proof -
  have ev: "evolves w w'" "world_inv w'" using mem_step_good [OF assms] by (auto simp: good_step_def)
  have "handle_ok w' h" if "h \<in> H'" for h
    using mem_step_good [OF assms] evolves_handle [OF ev(1)] that ok by (auto simp: all_ok_def)
  then show ?thesis using ev mem_step_good [OF assms] by (simp add: all_ok_def)
qed

lemma mem_steps_ok_aux:
  "mem_steps K s s' \<Longrightarrow> (case s of (w, F, H) \<Rightarrow> all_ok w F H) \<Longrightarrow>
     (case (s, s') of ((w, F, H), (w', F', H')) \<Rightarrow> all_ok w' F' H' \<and> evolves w w')"
proof (induction rule: rtranclp_induct)
  case base
  then show ?case by (auto simp: evolves_refl)
next
  case (step s1 s2)
  obtain w F H w1 F1 H1 w2 F2 H2 where s: "s = (w, F, H)" "s1 = (w1, F1, H1)" "s2 = (w2, F2, H2)"
    by (metis prod_cases3)
  with step have "all_ok w1 F1 H1" "evolves w w1" by auto
  moreover from this have "all_ok w2 F2 H2 \<and> evolves w1 w2"
    using mem_step_ok [of K w1 F1 H1 w2 F2 H2] step.hyps(2) s by simp
  ultimately show ?case using s evolves_trans by auto
qed

lemma mem_steps_ok:
  "mem_steps K (w, F, H) (w', F', H') \<Longrightarrow> all_ok w F H \<Longrightarrow> all_ok w' F' H' \<and> evolves w w'"
  using mem_steps_ok_aux [of K "(w, F, H)" "(w', F', H')"] by simp

lemma mem_reach_ok: "mem_reach K (w, F, H) \<Longrightarrow> all_ok w F H"
  using mem_steps_ok [where F = "{}" and H = "{}"] by (fastforce simp: mem_reach_def all_ok_def boot_inv)

lemma mem_reach_steps: "mem_reach K s \<Longrightarrow> mem_steps K s s' \<Longrightarrow> mem_reach K s'"
  unfolding mem_reach_def by (blast intro: rtranclp_trans)

end
