(* ===== verification/Sample.thy ===== *)
theory Sample
  imports MemoryReach
begin

text \<open>
  A small kernel that always succeeds (descriptors are handed out in order) and a small world of
  it, with the directory \<open>/d\<close>, the file \<open>/d/f\<close> and a handle to each: the concrete instance on
  which the properties are evaluated.
\<close>

definition sample_kernel :: "nat kernel" where
  "sample_kernel =
     \<lparr>k_memfd_create = (\<lambda>_ k. (int k, k + 1)), k_sys_openat = (\<lambda>_ _ _ _ k. (int k, k + 1)),
      k_fstat = (\<lambda>_ sb k. ((0, sb\<lparr>st_size := 5\<rparr>), k)), k_fchmod = (\<lambda>_ _ k. (0, k)),
      k_access = (\<lambda>_ _ k. (0, k)), k_open = (\<lambda>_ _ _ k. (int k, k + 1)), k_mkdir = (\<lambda>_ _ k. (0, k)),
      k_unlink = (\<lambda>_ k. (0, k)), k_rmdir = (\<lambda>_ k. (0, k)), k_rename = (\<lambda>_ _ k. (0, k)),
      k_chmod = (\<lambda>_ _ k. (0, k)), k_stat = (\<lambda>_ sb k. ((0, sb\<lparr>st_size := 5\<rparr>), k)), k_close = (\<lambda>_ k. (0, k))\<rparr>"

definition sample_fs :: memory_fs where
  "sample_fs = \<lparr>mem_id = ''mem'', mem_root = 1, mem_nodes = 1\<rparr>"

definition sample_world :: "nat world" where
  "sample_world =
     (let w = snd (memory_fs_new sample_kernel ''mem'' (boot 3));
          w = snd (the (mem_mkdir sample_kernel sample_fs (names_path [''d'']) 0x1ED w));
          w = snd (the (mem_open_with_handle sample_kernel sample_fs (names_path [''d'', ''f'']) O_CREAT 0x1A4 w))
      in snd (the (mem_open_with_handle sample_kernel sample_fs (names_path [''d'']) O_DIRECTORY 0 w)))"

definition sample_handles :: "opened_file set" where
  "sample_handles = {MemoryOpenedFile 2 1, MemoryOpenedFile 3 1}"

lemma sample_reach: "mem_reach sample_kernel (sample_world, {sample_fs}, sample_handles)"
proof -
  let ?K = sample_kernel
  define w0 where "w0 = snd (memory_fs_new ?K ''mem'' (boot 3))"
  define w1 where "w1 = snd (the (mem_mkdir ?K sample_fs (names_path [''d'']) 0x1ED w0))"
  define w2 where "w2 = snd (the (mem_open_with_handle ?K sample_fs (names_path [''d'', ''f'']) O_CREAT 0x1A4 w1))"
  have w3: "sample_world = snd (the (mem_open_with_handle ?K sample_fs (names_path [''d'']) O_DIRECTORY 0 w2))"
    by (simp add: sample_world_def w0_def w1_def w2_def Let_def)
  note defs = w0_def w1_def w2_def
  have "memory_fs_new ?K ''mem'' (boot 3) = (sample_fs, w0)"
    by (simp add: w0_def prod_eq_iff memory_fs_new_def fetch_add_node_id_def create_memfd_def sample_fs_def
        sample_kernel_def boot_def)
  note s0 = mem_step.new [OF this, of "{}" "{}"]
  have "mem_mkdir ?K sample_fs (names_path [''d'']) 0x1ED w0 = Done (0, w1)"
    unfolding w1_def by (rule io_run) (unfold w0_def, code_simp)
  note s1 = mem_step.mkdir [of sample_fs "{sample_fs}", OF _ names_path_absolute this, of "{}"]
  have "mem_open_with_handle ?K sample_fs (names_path [''d'', ''f'']) O_CREAT 0x1A4 w1 =
      Done (\<lparr>or_fd = 6, or_opened = Some (MemoryOpenedFile 3 1)\<rparr>, w2)"
    unfolding w2_def by (rule io_run) (unfold w1_def w0_def, code_simp)
  note s2 = mem_step.open_handle [of sample_fs "{sample_fs}", OF _ names_path_absolute this, of "{}"]
  have "mem_open_with_handle ?K sample_fs (names_path [''d'']) O_DIRECTORY 0 w2 =
      Done (\<lparr>or_fd = 7, or_opened = Some (MemoryOpenedFile 2 1)\<rparr>, sample_world)"
    unfolding w3 by (rule io_run) (unfold w2_def w1_def w0_def, code_simp)
  note s3 = mem_step.open_handle [of sample_fs "{sample_fs}", OF _ names_path_absolute this,
      of "{MemoryOpenedFile 3 1}"]
  have "mem_steps ?K (boot 3, {}, {}) (sample_world, {sample_fs}, sample_handles)"
    using s0 s1 s2 s3
    by (simp add: sample_handles_def)
  then show ?thesis by (auto simp: mem_reach_def)
qed

lemma sample_ok: "world_inv sample_world" "live sample_world sample_fs"
  using mem_reach_ok [OF sample_reach] by (simp_all add: all_ok_def)

end
