(* ===== verification/MemoryProps.thy ===== *)
theory MemoryProps
  imports Sample
begin

text \<open>
  What the in-memory file system guarantees, stated of the trait methods of \<open>memory_fs_ops\<close> and of
  the methods of an opened file.
\<close>

section \<open>Lemmas\<close>

lemma reach_inv: "mem_reach K (w, F, H) \<Longrightarrow> world_inv w"
  and reach_live: "mem_reach K (w, F, H) \<Longrightarrow> fs \<in> F \<Longrightarrow> live w fs"
  and reach_handle: "mem_reach K (w, F, H) \<Longrightarrow> h \<in> H \<Longrightarrow> handle_ok w h"
  using mem_reach_ok [of K w F H] by (simp_all add: all_ok_def)

lemma steps_evolve: "mem_reach K (w, F, H) \<Longrightarrow> mem_steps K (w, F, H) (w', F', H') \<Longrightarrow> evolves w w'"
  using mem_steps_ok mem_reach_ok by blast

lemma same_tree_spec: "same_tree w w' \<Longrightarrow> abs_fs w' fs = abs_fs w fs"
  by (rule same_tree_abs)

section \<open>Properties\<close>

text \<open>C1: In every state that a process can reach by creating in-memory file systems, calling their
  methods with absolute paths and calling the methods of opened files, the node maps, directory
  entries, parent links, ids and link counts are consistent (\<open>world_inv\<close>), every file system keeps
  its root, and every handle refers to a node that is in the namespace or has no parent and no links.\<close>

theorem reachable_consistent:
  assumes "mem_reach K (w, F, H)"
  shows "world_inv w \<and> (\<forall>fs \<in> F. live w fs) \<and> (\<forall>h \<in> H. handle_ok w h)"
  using mem_reach_ok [OF assms] by (simp add: all_ok_def)

theorem reachable_consistent_witness:
  "world_inv sample_world \<and> live sample_world sample_fs \<and> handle_ok sample_world (MemoryOpenedFile 3 1)"
  using reachable_consistent [OF sample_reach] by (simp add: sample_handles_def del: handle_ok.simps)

text \<open>C2: No two absolute paths of names resolve to the same node, so a directory is never below
  itself and a node has one name.\<close>

theorem one_path_per_node:
  assumes "mem_reach K (w, F, H)" and "fs \<in> F"
    and "resolve fs (names_path xs) w = Done (Some i)" and "resolve fs (names_path ys) w = Done (Some i)"
  shows "xs = ys"
proof -
  note w = reach_inv [OF assms(1)] and lv = reach_live [OF assms(1,2)]
  have "view w fs xs = Some i" "view w fs ys = Some i"
    using assms(3,4) by (simp_all add: resolve_view [OF w lv])
  then show ?thesis
    using lookup_unique [OF mem_inv_tree, of w "mem_nodes fs" xs i ys] live_inv [OF w lv] by (simp add: view_def)
qed

theorem one_path_per_node_witness:
  "{ys. resolve sample_fs (names_path ys) sample_world = Done (Some 3)} = {[''d'', ''f'']}"
proof -
  have "resolve sample_fs (names_path [''d'', ''f'']) sample_world = Done (Some 3)" by code_simp
  then show ?thesis using one_path_per_node [OF sample_reach] by blast
qed

text \<open>C3: \<open>mkdir\<close> on a path of names implements its specification on the abstract file system: if the
  path is free and its parent is a directory (and the kernel grants a descriptor) it returns 0 and
  adds exactly that path, with the next inode; otherwise it returns -1 and nothing changes.\<close>

theorem mkdir_refines:
  assumes "world_inv w" and "live w fs"
  shows "\<exists>r w'. mem_mkdir K fs (names_path ns) mode w = Done (r, w') \<and>
     (case (if memfd_ok K DirKind w then spec_create (abs_fs w fs) ns (next_node_id w) DirKind else None) of
        None \<Rightarrow> r = -1 \<and> abs_fs w' fs = abs_fs w fs
      | Some t \<Rightarrow> r = 0 \<and> abs_fs w' fs = t)"
  using create_node_refines [OF assms, of K ns DirKind mode]
  by (auto simp: mem_mkdir_def same_tree_spec split: option.splits)

theorem mkdir_refines_witness:
  "\<exists>w'. mem_mkdir sample_kernel sample_fs (names_path [''d'', ''e'']) 0x1C0 sample_world = Done (0, w') \<and>
     abs_fs w' sample_fs = (abs_fs sample_world sample_fs)([''d'', ''e''] \<mapsto> (4, DirKind))"
proof -
  have "memfd_ok sample_kernel DirKind sample_world" "next_node_id sample_world = 4"
    "abs_fs sample_world sample_fs [''d'', ''e''] = None" "abs_fs sample_world sample_fs [''d''] = Some (2, DirKind)"
    by code_simp+
  then show ?thesis
    using mkdir_refines [OF sample_ok, of sample_kernel "[''d'', ''e'']" "0x1C0"]
    by (auto simp: spec_create_def)
qed

text \<open>C4: \<open>unlink\<close> and \<open>rmdir\<close> on a path of names implement their specification: a file, or a
  directory without entries, loses its path and 0 is returned; for a missing path, the root, the
  wrong kind or a directory with entries, -1 is returned and the world is unchanged.\<close>

theorem unlink_rmdir_refine:
  assumes "world_inv w" and "live w fs"
  shows "(\<exists>r w'. mem_unlink fs (names_path ns) w = Done (r, w') \<and>
       (case spec_remove (abs_fs w fs) ns FileKind of
          None \<Rightarrow> r = -1 \<and> w' = w | Some t \<Rightarrow> r = 0 \<and> abs_fs w' fs = t)) \<and>
     (\<exists>r w'. mem_rmdir fs (names_path ns) w = Done (r, w') \<and>
       (case spec_remove (abs_fs w fs) ns DirKind of
          None \<Rightarrow> r = -1 \<and> w' = w | Some t \<Rightarrow> r = 0 \<and> abs_fs w' fs = t))"
  unfolding mem_unlink_def mem_rmdir_def using remove_refines [OF assms, of ns] by blast

theorem unlink_rmdir_refine_witness:
  "(\<exists>w'. mem_unlink sample_fs (names_path [''d'', ''f'']) sample_world = Done (0, w') \<and>
     abs_fs w' sample_fs = (abs_fs sample_world sample_fs)([''d'', ''f''] := None)) \<and>
   mem_rmdir sample_fs (names_path [''d'']) sample_world = Done (-1, sample_world)"
proof
  have f: "abs_fs sample_world sample_fs [''d'', ''f''] = Some (3, FileKind)"
    "view sample_world sample_fs [''d'', ''f''] = Some 3" "entries_of (heap sample_world 3) = []"
    by code_simp+
  then have "spec_remove (abs_fs sample_world sample_fs) [''d'', ''f''] FileKind =
      Some ((abs_fs sample_world sample_fs)([''d'', ''f''] := None))"
    using leaf_abs [OF sample_ok, of "[''d'', ''f'']" 3] by (simp add: spec_remove_def)
  then show "\<exists>w'. mem_unlink sample_fs (names_path [''d'', ''f'']) sample_world = Done (0, w') \<and>
     abs_fs w' sample_fs = (abs_fs sample_world sample_fs)([''d'', ''f''] := None)"
    using unlink_rmdir_refine [OF sample_ok, of "[''d'', ''f'']"] by auto
  have "\<exists>x. abs_fs sample_world sample_fs [''d'', x] \<noteq> None" using f(1) by blast
  then have "spec_remove (abs_fs sample_world sample_fs) [''d''] DirKind = None"
    by (auto simp: spec_remove_def)
  then show "mem_rmdir sample_fs (names_path [''d'']) sample_world = Done (-1, sample_world)"
    using unlink_rmdir_refine [OF sample_ok, of "[''d'']"] by auto
qed

text \<open>C5: \<open>rename\<close> between two paths of names implements its specification in one step: the subtree
  moves with its inodes and kinds, a file or an empty directory of the same kind at the target is
  replaced, and nothing else changes; in every other case (missing source or parent, the root, a
  directory below itself, a target of the other kind or with entries) it returns -1 and the world
  is unchanged. A path renamed to itself returns 0 without being looked up.\<close>

theorem rename_refines_spec:
  assumes "world_inv w" and "live w fs"
  shows "\<exists>r w'. mem_rename fs (names_path old) (names_path new) w = Done (r, w') \<and>
     (case spec_rename (abs_fs w fs) old new of
        None \<Rightarrow> r = -1 \<and> w' = w
      | Some t \<Rightarrow> r = 0 \<and> abs_fs w' fs = t)"
  unfolding mem_rename_def by (rule rename_refines [OF assms])

theorem rename_refines_spec_witness:
  "\<exists>w'. mem_rename sample_fs (names_path [''d'']) (names_path [''e'']) sample_world = Done (0, w') \<and>
     abs_fs w' sample_fs [''e'', ''f''] = Some (3, FileKind) \<and> abs_fs w' sample_fs [''d''] = None"
proof -
  have v: "abs_fs sample_world sample_fs [''d''] = Some (2, DirKind)" "abs_fs sample_world sample_fs [''e''] = None"
    "abs_fs sample_world sample_fs [] = Some (1, DirKind)"
    "abs_fs sample_world sample_fs [''d'', ''f''] = Some (3, FileKind)" by code_simp+
  then have "spec_rename (abs_fs sample_world sample_fs) [''d''] [''e''] =
      Some (\<lambda>zs. if prefix [''e''] zs then abs_fs sample_world sample_fs ([''d''] @ drop 1 zs)
                 else if prefix [''d''] zs then None else abs_fs sample_world sample_fs zs)"
    by (auto simp: spec_rename_def fun_eq_iff)
  then obtain w' where "mem_rename sample_fs (names_path [''d'']) (names_path [''e'']) sample_world = Done (0, w')"
    "abs_fs w' sample_fs = (\<lambda>zs. if prefix [''e''] zs then abs_fs sample_world sample_fs ([''d''] @ drop 1 zs)
                 else if prefix [''d''] zs then None else abs_fs sample_world sample_fs zs)"
    using rename_refines_spec [OF sample_ok, of "[''d'']" "[''e'']"] by auto
  then show ?thesis using v by simp
qed

lemma open_existing:
  assumes w: "world_inv w" and fs: "live w fs" and at: "abs_fs w fs ns = Some (i, kind)"
  shows "\<exists>z w'. mem_open_with_handle K fs (names_path ns) fl mode w = Done (z, w') \<and>
     (if fl AND (O_CREAT OR O_EXCL) = (O_CREAT OR O_EXCL) \<or> fl AND O_DIRECTORY \<noteq> 0 \<and> kind = FileKind
      then z = from_fd (-1) \<and> w' = w
      else abs_fs w' fs = abs_fs w fs \<and>
        or_fd z = fst (open_backing K (node_backing_fd (heap w i)) fl w) \<and>
        or_opened z = (if or_fd z < 0 then None else Some (MemoryOpenedFile i (mem_nodes fs))))"
proof -
  obtain fd w1 where ob: "open_backing K (node_backing_fd (heap w i)) fl w = (fd, w1)" by fastforce
  have "view w fs ns = Some i" "entry_kind (heap w i) = kind" using at by (auto simp: abs_fs_def)
  then show ?thesis
    using ob same_tree_spec [OF open_backing_same [OF ob], of fs]
    by (cases kind)
       (simp_all add: mem_open_with_handle_def open_node_def open_resolved_node_def resolve_view [OF w fs]
          from_fd_def is_directory_kind)
qed

lemma open_missing:
  assumes w: "world_inv w" and fs: "live w fs" and at: "abs_fs w fs ns = None"
  shows "\<exists>z w'. mem_open_with_handle K fs (names_path ns) fl mode w = Done (z, w') \<and>
     (case (if fl AND O_CREAT \<noteq> 0 \<and> memfd_ok K FileKind w
            then spec_create (abs_fs w fs) ns (next_node_id w) FileKind else None) of
        None \<Rightarrow> z = from_fd (-1) \<and> abs_fs w' fs = abs_fs w fs
      | Some t \<Rightarrow> abs_fs w' fs = t \<and>
          (if fl AND O_DIRECTORY \<noteq> 0 then z = from_fd (-1)
           else or_opened z = (if or_fd z < 0 then None
                               else Some (MemoryOpenedFile (next_node_id w) (mem_nodes fs)))))"
proof -
  let ?s = "if memfd_ok K FileKind w then spec_create (abs_fs w fs) ns (next_node_id w) FileKind else None"
  have none: "view w fs ns = None" using at by (simp add: abs_None_iff)
  note defs = mem_open_with_handle_def open_node_def open_resolved_node_def resolve_view [OF w fs] from_fd_def none
  obtain r w1 where cr: "create_node K fs (names_path ns) FileKind mode w = Done (r, w1)"
    and sp: "case ?s of None \<Rightarrow> r = None \<and> same_tree w w1 | Some t \<Rightarrow> r = Some (next_node_id w) \<and> abs_fs w1 fs = t \<and>
          (\<exists>d. view w fs (butlast ns) = Some d \<and> w1 = add_node K d (mem_nodes fs) (last ns) FileKind mode w)"
    using create_node_refines [OF w fs, of K ns FileKind mode] by blast
  consider (plain) "fl AND O_CREAT = 0" | (failed) "fl AND O_CREAT \<noteq> 0" "?s = None" | (made) t where "fl AND O_CREAT \<noteq> 0" "?s = Some t"
    by fastforce
  then show ?thesis
  proof cases
    case plain
    then show ?thesis by (simp add: defs)
  next
    case failed
    then show ?thesis using cr sp same_tree_spec [of w w1 fs] by (simp add: defs)
  next
    case made
    let ?i = "next_node_id w"
    have "t ns = Some (?i, FileKind)" using made(2) by (auto simp: spec_create_def split: if_splits)
    then have "\<not> is_directory (heap w1 ?i)" using sp made(2) by (auto simp: abs_fs_def is_directory_kind)
    moreover obtain fd w2 where ob: "open_backing K (node_backing_fd (heap w1 ?i)) fl w1 = (fd, w2)" by fastforce
    ultimately show ?thesis
      using made cr sp same_tree_spec [OF open_backing_same [OF ob], of fs] by (simp add: defs)
  qed
qed



section \<open>Opened files\<close>

lemma node_nlink_kern: "node_nlink (w\<lparr>kern := k\<rparr>) m n = node_nlink w m n"
proof -
  have "is_dir_id (w\<lparr>kern := k\<rparr>) m = is_dir_id w m"
    by (simp add: is_dir_id_def node_from_map_def fun_eq_iff)
  then show ?thesis by (cases "nd_kind n") (simp_all add: node_nlink_def)
qed

lemma stat_node_result:
  "snd (fst (stat_node K a m sb w)) = sb' \<Longrightarrow>
     st_ino sb' = of_nat (nd_id (heap w a)) \<and> st_nlink sb' = node_nlink w m (heap w a) \<and>
     st_mode sb' = (case nd_kind (heap w a) of File _ \<Rightarrow> S_IFREG | Directory _ _ \<Rightarrow> S_IFDIR) OR nd_mode (heap w a)"
  by (auto simp: stat_node_def Let_def node_nlink_kern split: prod.splits node_kind.splits)

text \<open>C7: An opened file keeps its identity: after any further operations, including the removal or the
  renaming of its path, \<open>fstat\<close> through the handle reports the inode it reported before, and the
  node still has the same kind and the same backing descriptor, so the same content.\<close>

theorem handle_identity:
  assumes "mem_reach K (w, F, H)" and "MemoryOpenedFile i m \<in> H" and "mem_steps K (w, F, H) (w', F', H')"
  shows "st_ino (snd (fst (opened_stat K (MemoryOpenedFile i m) sb w'))) =
           st_ino (snd (fst (opened_stat K (MemoryOpenedFile i m) sb w))) \<and>
         entry_kind (heap w' i) = entry_kind (heap w i) \<and>
         node_backing_fd (heap w' i) = node_backing_fd (heap w i)"
proof -
  have "i < next_node_id w" using reach_handle [OF assms(1,2)] by simp
  then show ?thesis
    using steps_evolve [OF assms(1,3)] stat_node_result [OF refl, of K i m sb]
    by (simp add: evolves_def entry_kind_dir)
qed

theorem handle_identity_witness:
  "\<exists>w'. mem_unlink sample_fs (names_path [''d'', ''f'']) sample_world = Done (0, w') \<and>
     st_ino (snd (fst (opened_stat sample_kernel (MemoryOpenedFile 3 1) zeroed_stat w'))) = 3"
proof -
  have h: "MemoryOpenedFile 3 1 \<in> sample_handles" by (simp add: sample_handles_def)
  have 3: "st_ino (snd (fst (opened_stat sample_kernel (MemoryOpenedFile 3 1) zeroed_stat sample_world))) = 3"
    by code_simp
  have "map_option fst (mem_unlink sample_fs (names_path [''d'', ''f'']) sample_world) = Some 0" by code_simp
  note u = io_run [OF this]
  have "mem_steps sample_kernel (sample_world, {sample_fs}, sample_handles)
      (snd (the (mem_unlink sample_fs (names_path [''d'', ''f'']) sample_world)), {sample_fs}, sample_handles)"
    by (rule r_into_rtranclp, rule mem_step.unlink [OF _ names_path_absolute u]) simp
  from handle_identity [OF sample_reach h this, of zeroed_stat] show ?thesis using 3 u by metis
qed

lemma removed_effect:
  assumes w: "world_inv w" and lv: "live w fs" and i: "view w fs ns = Some i"
    and rm: "remove_node_at (names_path ns) (mem_nodes fs) (mem_root fs) kind w = Done (0, w1)"
  shows "i \<notin> node_maps w1 r" "nd_links (heap w1 i) = 0"
proof -
  let ?m = "mem_nodes fs"
  have inv: "mem_inv w ?m" and root: "mem_root fs = ?m" using live_inv [OF w lv] by auto
  have iN: "i \<in> node_maps w ?m" by (rule view_in [OF w lv i])
  have "ns \<noteq> []" using rm root remove_spec [OF inv names_path_absolute, of "[]"] by (auto simp: path_simps)
  then obtain d where d: "view w fs (butlast ns) = Some d" "child w d (last ns) = Some i"
    using i by (auto simp: view_last bind_eq_Some_conv)
  have w1: "w1 = remove_entry ?m d (last ns) i w"
    using rm d \<open>ns \<noteq> []\<close> root
    by (auto simp: remove_spec [OF inv names_path_absolute] path_simps butlast_names view_def split: if_splits)
  show "i \<notin> node_maps w1 r"
    using w1 world_inv_disjoint [OF w iN, of r] by (cases "r = ?m") (auto simp: remove_entry_def mem_simps)
  show "nd_links (heap w1 i) = 0" using w1 by (simp add: remove_entry_def mem_simps)
qed

text \<open>C8: A node whose path was removed by \<open>unlink\<close> or \<open>rmdir\<close> stays out of the namespace for good: after
  any further operations \<open>fstat\<close> through a handle to it reports the same inode with no links, and
  no path resolves to it.\<close>

theorem removed_node_stays_unlinked:
  assumes "mem_reach K (w, F, H)" and "fs \<in> F" and "resolve fs (names_path ns) w = Done (Some i)"
    and "mem_unlink fs (names_path ns) w = Done (0, w1) \<or> mem_rmdir fs (names_path ns) w = Done (0, w1)"
    and "mem_steps K (w1, F, H) (w', F', H')"
  shows "st_nlink (snd (fst (opened_stat K (MemoryOpenedFile i (mem_nodes fs)) sb w'))) = 0 \<and>
         st_ino (snd (fst (opened_stat K (MemoryOpenedFile i (mem_nodes fs)) sb w'))) = of_nat i \<and>
         (\<forall>ms. resolve fs (names_path ms) w' \<noteq> Done (Some i))"
proof -
  let ?m = "mem_nodes fs"
  note w = reach_inv [OF assms(1)] and lv = reach_live [OF assms(1,2)]
  have i: "view w fs ns = Some i" using assms(3) by (simp add: resolve_view [OF w lv])
  have iN: "i \<in> node_maps w ?m" by (rule view_in [OF w lv i])
  have iok: "i < next_node_id w" "nd_id (heap w i) = i" using world_inv_in [OF w iN] by (auto simp: node_ok_def)
  obtain kind where rm: "remove_node_at (names_path ns) ?m (mem_root fs) kind w = Done (0, w1)"
    using assms(4) by (auto simp: mem_unlink_def mem_rmdir_def)
  note out1 = removed_effect(1) [OF w lv i rm] and links1 = removed_effect(2) [OF w lv i rm]
  have step: "mem_step K (w, F, H) (w1, F, H)"
    using assms(4) mem_step.unlink [OF assms(2) names_path_absolute] mem_step.rmdir [OF assms(2) names_path_absolute]
    by blast
  have ev: "evolves w w1" "evolves w1 w'" "evolves w w'"
    using mem_step_ok [OF step mem_reach_ok [OF assms(1)]]
      mem_steps_ok [OF assms(5)] mem_step_ok [OF step mem_reach_ok [OF assms(1)]] evolves_trans by blast+
  have iok1: "i < next_node_id w1" using iok ev(1) by (simp add: evolves_def)
  have out: "i \<notin> node_maps w' r" for r using ev(2) out1 iok1 unfolding evolves_def by blast
  have links: "nd_links (heap w' i) = 0" using links1 ev(2) out1 iok1 unfolding evolves_def by metis
  have "nd_id (heap w' i) = i" using ev(3) iok unfolding evolves_def by metis
  moreover have "world_inv w'" "live w' fs"
    using mem_reach_ok mem_reach_steps [OF assms(1)] step assms(2,5) ev(3) lv
    by (metis all_ok_def converse_rtranclp_into_rtranclp) (rule evolves_live [OF ev(3) lv])
  ultimately show ?thesis
    using stat_node_result [OF refl, of K i ?m sb w'] links out view_in [of w' fs _ i]
    by (auto simp: node_nlink_def resolve_view)
qed

theorem removed_node_stays_unlinked_witness:
  "\<exists>w1. mem_unlink sample_fs (names_path [''d'', ''f'']) sample_world = Done (0, w1) \<and>
     st_nlink (snd (fst (opened_stat sample_kernel (MemoryOpenedFile 3 1) zeroed_stat w1))) = 0"
proof -
  have "map_option fst (mem_unlink sample_fs (names_path [''d'', ''f'']) sample_world) = Some 0" by code_simp
  note u = io_run [OF this]
  have r: "resolve sample_fs (names_path [''d'', ''f'']) sample_world = Done (Some 3)" "mem_nodes sample_fs = 1"
    by code_simp+
  show ?thesis
    using removed_node_stays_unlinked [OF sample_reach _ r(1) disjI1 [OF u] rtranclp.rtrancl_refl, of zeroed_stat] r(2) u
    by auto
qed

section \<open>Metadata and listings\<close>

lemma mem_inv_is_dir_id:
  "mem_inv w m \<Longrightarrow> d \<in> node_maps w m \<Longrightarrow> child w d x = Some c \<Longrightarrow> is_dir_id w m c \<longleftrightarrow> is_directory (heap w c)"
  using mem_inv_child [of w m d x c] by (simp add: is_dir_id_def node_from_map_def)

lemma filter_entries_card:
  assumes "distinct (map fst es)"
  shows "length (filter P (map snd es)) = card {x. \<exists>c. map_of es x = Some c \<and> P c}"
proof -
  have "{x. \<exists>c. map_of es x = Some c \<and> P c} = set (map fst (filter (\<lambda>(x, c). P c) es))"
    using assms by (force simp: map_of_eq_Some_iff)
  moreover have "distinct (map fst (filter (\<lambda>(x, c). P c) es))"
    using assms by (rule distinct_map_filter)
  ultimately have "card {x. \<exists>c. map_of es x = Some c \<and> P c} = length (filter (\<lambda>(x, c). P c) es)"
    by (metis distinct_card length_map)
  then show ?thesis by (simp add: length_filter_map_fst)
qed

lemma view_nlink:
  assumes w: "world_inv w" and fs: "live w fs" and i: "view w fs ns = Some i"
  shows "node_nlink w (mem_nodes fs) (heap w i) =
    (case entry_kind (heap w i) of FileKind \<Rightarrow> 1
     | DirKind \<Rightarrow> 2 + card {x. \<exists>j. abs_fs w fs (ns @ [x]) = Some (j, DirKind)})"
proof -
  let ?m = "mem_nodes fs"
  have iN: "i \<in> node_maps w ?m" by (rule view_in [OF w fs i])
  have inv: "mem_inv w ?m" and ok: "node_ok w i" using world_inv_in [OF w iN] by auto
  show ?thesis
  proof (cases "nd_kind (heap w i)")
    case (File fd)
    then show ?thesis using ok by (simp add: node_nlink_def entry_kind_def node_ok_def)
  next
    case (Directory es fd)
    then have es: "entries_of (heap w i) = es" by (simp add: entries_of_def)
    then have "distinct (map fst es)" using ok by (auto simp: node_ok_def intro: sorted_distinct_keys)
    note len = filter_entries_card [OF this, of "is_dir_id w ?m"]
    have "(\<exists>c. map_of es x = Some c \<and> is_dir_id w ?m c) \<longleftrightarrow> (\<exists>j. abs_fs w fs (ns @ [x]) = Some (j, DirKind))" for x
    proof -
      have ch: "child w i x = map_of es x" by (simp add: child_def es btree_get_def)
      show ?thesis
        using i mem_inv_is_dir_id [OF inv iN, of x]
        by (auto simp: abs_fs_def view_snoc ch is_directory_kind)
    qed
    then show ?thesis
      using Directory ok len by (simp add: node_nlink_def entry_kind_def node_ok_def)
  qed
qed

lemma stat_lemma:
  assumes w: "world_inv w" and fs: "live w fs"
  shows "\<exists>r sb' w'. mem_stat K fs (names_path ns) sb w = Done ((r, sb'), w') \<and> abs_fs w' fs = abs_fs w fs \<and>
     (case abs_fs w fs ns of
        None \<Rightarrow> r = -1 \<and> sb' = sb
      | Some (i, kind) \<Rightarrow> r = 0 \<and> st_ino sb' = of_nat i \<and>
          st_mode sb' = (case kind of FileKind \<Rightarrow> S_IFREG | DirKind \<Rightarrow> S_IFDIR) OR nd_mode (heap w i) \<and>
          st_nlink sb' = (case kind of FileKind \<Rightarrow> 1
            | DirKind \<Rightarrow> 2 + card {x. \<exists>j. abs_fs w fs (ns @ [x]) = Some (j, DirKind)}))"
proof (cases "view w fs ns")
  case None
  then show ?thesis using w fs by (simp add: mem_stat_def resolve_view abs_fs_def)
next
  case (Some i)
  obtain r sb' w' where st: "stat_node K i (mem_nodes fs) sb w = ((r, sb'), w')" by (metis prod.exhaust)
  have "nd_id (heap w i) = i" using world_inv_in [OF w view_in [OF w fs Some]] by (simp add: node_ok_def)
  then have "st_ino sb' = of_nat i"
    "st_mode sb' = (case entry_kind (heap w i) of FileKind \<Rightarrow> S_IFREG | DirKind \<Rightarrow> S_IFDIR) OR nd_mode (heap w i)"
    "st_nlink sb' = node_nlink w (mem_nodes fs) (heap w i)"
    using stat_node_result [of K i "mem_nodes fs" sb w sb'] st by (auto simp: entry_kind_def split: node_kind.split)
  then show ?thesis
    using Some st w fs view_nlink [OF w fs Some] stat_node_world [OF st] same_tree_spec [of w w' fs]
    by (simp add: mem_stat_def resolve_view abs_fs_def)
qed

text \<open>\<open>stat\<close> of a path of names reports the inode of the node found there, its type and permission
  bits, and as link count 1 for a file and, for a directory, 2 plus the number of its
  subdirectories; for a missing path it returns -1 and leaves the caller's buffer as it was.\<close>

theorem stat_reports:
  assumes w: "world_inv w" and fs: "live w fs"
  shows "\<exists>r sb' w'. mem_stat K fs (names_path ns) sb w = Done ((r, sb'), w') \<and> abs_fs w' fs = abs_fs w fs \<and>
     (case abs_fs w fs ns of
        None \<Rightarrow> r = -1 \<and> sb' = sb
      | Some (i, kind) \<Rightarrow> r = 0 \<and> st_ino sb' = of_nat i \<and>
          st_mode sb' = (case kind of FileKind \<Rightarrow> S_IFREG | DirKind \<Rightarrow> S_IFDIR) OR nd_mode (heap w i) \<and>
          st_nlink sb' = (case kind of FileKind \<Rightarrow> 1
            | DirKind \<Rightarrow> 2 + card {x. \<exists>j. abs_fs w fs (ns @ [x]) = Some (j, DirKind)}))"
  by (rule stat_lemma [OF assms])

theorem stat_reports_witness:
  "\<exists>sb' w'. mem_stat sample_kernel sample_fs (names_path [''d'', ''f'']) zeroed_stat sample_world = Done ((0, sb'), w') \<and>
     st_ino sb' = 3 \<and> st_mode sb' = 0x81A4 \<and> st_nlink sb' = 1"
proof -
  have v: "abs_fs sample_world sample_fs [''d'', ''f''] = Some (3, FileKind)" "nd_mode (heap sample_world 3) = 0x1A4"
    by code_simp+
  show ?thesis
    using stat_reports [OF sample_ok, of sample_kernel "[''d'', ''f'']" zeroed_stat] v by auto
qed

lemma those_map_total:
  "(\<And>x. x \<in> set xs \<Longrightarrow> f x = Some (g x)) \<Longrightarrow> those (map f xs) = Some (map g xs)"
  by (induction xs) auto

lemma listing_lemma:
  assumes w: "world_inv w" and fs: "live w fs"
  shows "\<exists>r. mem_read_dir fs (names_path ns) w = Done (r, w) \<and>
     (if map_option snd (abs_fs w fs ns) = Some DirKind
      then \<exists>es. r = Some es \<and> sorted (map de_name es) \<and> distinct (map de_name es) \<and>
        (\<forall>x. case abs_fs w fs (ns @ [x]) of
               None \<Rightarrow> x \<notin> de_name ` set es
             | Some (i, kind) \<Rightarrow> \<lparr>de_name = x, de_kind = kind, de_ino = Some (of_nat i)\<rparr> \<in> set es)
      else r = None)"
proof (cases "view w fs ns")
  case None
  then show ?thesis using w fs by (simp add: mem_read_dir_def resolve_view abs_fs_def)
next
  case (Some i)
  let ?m = "mem_nodes fs"
  have iN: "i \<in> node_maps w ?m" by (rule view_in [OF w fs Some])
  have inv: "mem_inv w ?m" and ok: "node_ok w i" using world_inv_in [OF w iN] by auto
  show ?thesis
  proof (cases "nd_kind (heap w i)")
    case (File fd)
    then show ?thesis
      using Some w fs by (simp add: mem_read_dir_def resolve_view abs_fs_def entry_kind_def read_node_dir_def)
  next
    case (Directory es fd)
    let ?g = "\<lambda>(x, c). \<lparr>de_name = x, de_kind = entry_kind (heap w c), de_ino = Some (of_nat c)\<rparr>"
    have es: "child w i = map_of es" using Directory by (simp add: child_def entries_of_def btree_get_def fun_eq_iff)
    have srt: "btree_sorted es" using ok Directory by (simp add: node_ok_def entries_of_def)
    have dist: "distinct (map fst es)" by (rule sorted_distinct_keys [OF srt])
    have mem: "c \<in> node_maps w ?m \<and> nd_id (heap w c) = c" if "(x, c) \<in> set es" for x c
    proof -
      have "child w i x = Some c" using that dist by (simp add: es)
      then have "c \<in> node_maps w ?m" using mem_inv_child [OF inv iN] by simp
      then show ?thesis using inv by (simp add: mem_inv_def node_ok_def)
    qed
    have rd: "read_node_dir w ?m i = Some (map ?g es)"
      unfolding read_node_dir_def using Directory mem
      by (auto simp: node_from_map_def intro!: those_map_total)
    have names: "map de_name (map ?g es) = map fst es" by (simp add: case_prod_unfold)
    have all: "case abs_fs w fs (ns @ [x]) of
        None \<Rightarrow> x \<notin> de_name ` set (map ?g es)
      | Some (c, kind) \<Rightarrow> \<lparr>de_name = x, de_kind = kind, de_ino = Some (of_nat c)\<rparr> \<in> set (map ?g es)" for x
    proof (cases "map_of es x")
      case None
      then have "x \<notin> set (map de_name (map ?g es))" unfolding names by (simp add: map_of_eq_None_iff)
      then show ?thesis using None Some by (simp add: abs_fs_def view_snoc es image_image)
    next
      case (Some c)
      then have "(x, c) \<in> set es" by (rule map_of_SomeD)
      then show ?thesis using Some \<open>view w fs ns = Some i\<close> by (force simp: abs_fs_def view_snoc es)
    qed
    have srt': "sorted (map de_name (map ?g es))" "distinct (map de_name (map ?g es))"
      unfolding names using srt dist by (simp_all add: btree_sorted_def strict_sorted_iff)
    have kind: "map_option snd (abs_fs w fs ns) = Some DirKind"
      using Some Directory by (simp add: abs_fs_def entry_kind_def)
    have call: "mem_read_dir fs (names_path ns) w = Done (Some (map ?g es), w)"
      using Some w fs rd by (simp add: mem_read_dir_def resolve_view)
    show ?thesis
      unfolding if_P [OF kind]
      by (intro exI [of _ "Some (map ?g es)"] exI [of _ "map ?g es"] conjI refl call srt' allI all)
  qed
qed

text \<open>C9: A directory listing has one entry for each name in the directory, in increasing order, with the
  inode and kind of the node that the name resolves to; a file and a missing path have none.\<close>

theorem read_dir_lists:
  assumes w: "world_inv w" and fs: "live w fs"
  shows "\<exists>r. mem_read_dir fs (names_path ns) w = Done (r, w) \<and>
     (if map_option snd (abs_fs w fs ns) = Some DirKind
      then \<exists>es. r = Some es \<and> sorted (map de_name es) \<and> distinct (map de_name es) \<and>
        (\<forall>x. case abs_fs w fs (ns @ [x]) of
               None \<Rightarrow> x \<notin> de_name ` set es
             | Some (i, kind) \<Rightarrow> \<lparr>de_name = x, de_kind = kind, de_ino = Some (of_nat i)\<rparr> \<in> set es)
      else r = None)"
  by (rule listing_lemma [OF assms])

theorem read_dir_lists_witness:
  "mem_read_dir sample_fs (names_path [''d'']) sample_world =
     Done (Some [\<lparr>de_name = ''f'', de_kind = FileKind, de_ino = Some 3\<rparr>], sample_world)"
proof -
  have "map_option fst (mem_read_dir sample_fs (names_path [''d'']) sample_world) =
     Some (Some [\<lparr>de_name = ''f'', de_kind = FileKind, de_ino = Some 3\<rparr>])" by code_simp
  then show ?thesis using read_dir_lists [OF sample_ok, of "[''d'']"] by auto
qed

section \<open>Paths relative to an opened directory\<close>

lemma view_parent:
  assumes w: "world_inv w" and fs: "live w fs" and i: "view w fs ns = Some i"
  shows "\<exists>d. nd_parent (heap w i) = Some d \<and> d \<in> node_maps w (mem_nodes fs) \<and> view w fs (butlast ns) = Some d"
proof -
  have inv: "mem_inv w (mem_nodes fs)" and root: "mem_root fs = mem_nodes fs" using live_inv [OF w fs] by auto
  note t = mem_inv_tree [OF inv]
  show ?thesis
  proof (cases "ns = []")
    case True
    then show ?thesis
      using i t root by (auto simp: view_def name_tree_def parent_of_def)
  next
    case False
    then obtain d where d: "view w fs (butlast ns) = Some d" "child w d (last ns) = Some i"
      using i by (auto simp: view_last bind_eq_Some_conv)
    then show ?thesis
      using mem_inv_child [OF inv view_in [OF w fs d(1)] d(2)] view_in [OF w fs d(1)]
      by (auto simp: parent_of_def)
  qed
qed

lemma walk_relative_dots:
  "world_inv w \<Longrightarrow> live w fs \<Longrightarrow> view w fs ns = Some n \<Longrightarrow>
     walk_relative w (mem_nodes fs) cs n = Some a \<Longrightarrow> view w fs (resolve_dots ns cs) = Some a"
proof (induction ns cs arbitrary: n rule: resolve_dots.induct)
  case (2 ns x cs)
  then obtain es fd c where "nd_kind (heap w n) = Directory es fd" "btree_get es x = Some c"
      "walk_relative w (mem_nodes fs) cs c = Some a"
    by (auto simp: bind_eq_Some_conv node_from_map_def split: node_kind.splits if_splits)
  moreover from this have "view w fs (ns @ [x]) = Some c"
    using 2 by (simp add: view_snoc child_def entries_of_def)
  ultimately show ?case using 2 by simp
next
  case (3 ns cs)
  obtain d where "nd_parent (heap w n) = Some d" "d \<in> node_maps w (mem_nodes fs)" "view w fs (butlast ns) = Some d"
    using view_parent [OF 3(2,3,4)] by blast
  then show ?case using 3 by (simp add: node_from_map_def)
qed auto

lemma walk_relative_names:
  assumes w: "world_inv w" and fs: "live w fs"
  shows "view w fs ns = Some n \<Longrightarrow>
     walk_relative w (mem_nodes fs) (map Normal ms) n = view w fs (ns @ ms)"
proof (induction ms arbitrary: ns n)
  case (Cons x ms)
  show ?case
  proof (cases "child w n x")
    case None
    then have "view w fs (ns @ x # ms) = None"
      using Cons.prems by (simp add: view_def lookup_append)
    then show ?thesis
      using None by (auto simp: child_def entries_of_def btree_get_def split: node_kind.split)
  next
    case (Some c)
    then obtain es fd where "nd_kind (heap w n) = Directory es fd" "btree_get es x = Some c"
      by (rule child_kind)
    moreover have v: "view w fs (ns @ [x]) = Some c" using Some Cons.prems by (simp add: view_snoc)
    moreover note Cons.IH [OF v]
    ultimately show ?thesis using view_in [OF w fs v] by (simp add: node_from_map_def)
  qed
qed simp

text \<open>C10: A relative path given to an opened directory (\<open>openat\<close>, \<open>mkdirat\<close>) that resolves leads to the node
  that the absolute path, with \<open>.\<close> and \<open>..\<close> removed lexically, resolves to; for a path of
  names alone the two lookups agree, the failing ones included.\<close>

theorem relative_agrees_absolute:
  assumes "mem_reach K (w, F, H)" and "fs \<in> F" and "resolve fs (names_path ns) w = Done (Some d)"
  shows "(resolve_relative d (mem_nodes fs) p w = Some a \<longrightarrow>
            resolve fs (names_path (resolve_dots ns p)) w = Done (Some a)) \<and>
         Done (resolve_relative d (mem_nodes fs) (map Normal ms) w) = resolve fs (names_path (ns @ ms)) w"
proof -
  note w = reach_inv [OF assms(1)] and lv = reach_live [OF assms(1,2)]
  have d: "view w fs ns = Some d" using assms(3) by (simp add: resolve_view [OF w lv])
  have "\<not> is_absolute (map Normal ms)" by (cases ms) auto
  then show ?thesis
    using walk_relative_dots [OF w lv d, of p a] walk_relative_names [OF w lv d, of ms]
    by (auto simp: resolve_relative_def can_resolve_relative_to_opened_node_def resolve_view [OF w lv])
qed

theorem relative_agrees_absolute_witness:
  "resolve_relative 2 1 [ParentDir, Normal ''d'', CurDir, Normal ''f''] sample_world = Some 3 \<and>
   resolve sample_fs (names_path [''d'', ''f'']) sample_world = Done (Some 3)"
proof -
  have r: "resolve_relative 2 1 [ParentDir, Normal ''d'', CurDir, Normal ''f''] sample_world = Some 3"
    "resolve sample_fs (names_path [''d'']) sample_world = Done (Some 2)" "mem_nodes sample_fs = 1"
    "resolve_dots [''d''] [ParentDir, Normal ''d'', CurDir, Normal ''f''] = [''d'', ''f'']" by code_simp+
  show ?thesis
    using relative_agrees_absolute [OF sample_reach _ r(2), of "[ParentDir, Normal ''d'', CurDir, Normal ''f'']" 3] r
    by simp
qed

lemma handle_calls_lemma:
  assumes w: "world_inv w" and lv: "live w fs" and d: "view w fs ns = Some d" and ne: "ms \<noteq> []"
  shows "opened_open_child K (MemoryOpenedFile d (mem_nodes fs)) (map Normal ms) fl mode w =
           map_option (\<lambda>(z, w'). (Some z, w')) (mem_open_with_handle K fs (names_path (ns @ ms)) fl mode w)"
    and "Done (opened_mkdir_child K (MemoryOpenedFile d (mem_nodes fs)) (map Normal ms) mode w) =
           map_option (\<lambda>(r, w'). (Some r, w')) (mem_mkdir K fs (names_path (ns @ ms)) mode w)"
proof -
  have rel: "\<not> is_absolute (map Normal ms')" for ms' by (cases ms') auto
  obtain ks x where ms: "ms = ks @ [x]" using ne by (cases ms rule: rev_cases) auto
  have res: "resolve_relative d (mem_nodes fs) (map Normal ms') w = view w fs (ns @ ms')" for ms'
    using walk_relative_names [OF w lv d, of ms'] rel [of ms']
    by (simp add: resolve_relative_def can_resolve_relative_to_opened_node_def)
  have fn: "file_name (map Normal ms) = Some x" "parent_path (map Normal ms) = Some (map Normal ks)"
    by (simp_all add: ms file_name_def parent_path_def)
  have cr: "create_node K fs (names_path (ns @ ms)) kind mode w =
      Done (create_relative_node K d (mem_nodes fs) (map Normal ms) kind mode w)" for kind
    using fn res rel [of ms]
    by (auto simp: create_node_names [OF w lv] create_relative_node_def can_resolve_relative_to_opened_node_def
        path_simps ms butlast_names butlast_append simp del: append_assoc simp flip: append_assoc split: option.split)
  show "opened_open_child K (MemoryOpenedFile d (mem_nodes fs)) (map Normal ms) fl mode w =
         map_option (\<lambda>(z, w'). (Some z, w')) (mem_open_with_handle K fs (names_path (ns @ ms)) fl mode w)"
    using res rel [of ms] cr [of FileKind]
    by (simp add: open_node_relative_def mem_open_with_handle_def open_node_def resolve_view [OF w lv]
        can_resolve_relative_to_opened_node_def open_resolved_node_def Let_def split: option.split prod.split)
  show "Done (opened_mkdir_child K (MemoryOpenedFile d (mem_nodes fs)) (map Normal ms) mode w) =
         map_option (\<lambda>(r, w'). (Some r, w')) (mem_mkdir K fs (names_path (ns @ ms)) mode w)"
    using rel [of ms] cr [of DirKind]
    by (simp add: mem_mkdir_def can_resolve_relative_to_opened_node_def split: prod.split)
qed

text \<open>Opening or creating a path of names through a handle to a directory in the namespace is the same
  call, with the same result and effect, as on the absolute path.\<close>

theorem handle_calls_are_path_calls:
  assumes "mem_reach K (w, F, H)" and "fs \<in> F" and "resolve fs (names_path ns) w = Done (Some d)"
    and "ms \<noteq> []"
  shows "opened_open_child K (MemoryOpenedFile d (mem_nodes fs)) (map Normal ms) fl mode w =
           map_option (\<lambda>(z, w'). (Some z, w')) (mem_open_with_handle K fs (names_path (ns @ ms)) fl mode w) \<and>
         Done (opened_mkdir_child K (MemoryOpenedFile d (mem_nodes fs)) (map Normal ms) mode w) =
           map_option (\<lambda>(r, w'). (Some r, w')) (mem_mkdir K fs (names_path (ns @ ms)) mode w)"
proof -
  note w = reach_inv [OF assms(1)] and lv = reach_live [OF assms(1,2)]
  have d: "view w fs ns = Some d" using assms(3) by (simp add: resolve_view [OF w lv])
  show ?thesis by (intro conjI handle_calls_lemma [OF w lv d assms(4)])
qed

theorem handle_calls_are_path_calls_witness:
  "map_option fst (opened_open_child sample_kernel (MemoryOpenedFile 2 1) [Normal ''f''] O_RDWR 0 sample_world) =
     Some (Some \<lparr>or_fd = 8, or_opened = Some (MemoryOpenedFile 3 1)\<rparr>) \<and>
   map_option fst (mem_open_with_handle sample_kernel sample_fs (names_path [''d'', ''f'']) O_RDWR 0 sample_world) =
     Some \<lparr>or_fd = 8, or_opened = Some (MemoryOpenedFile 3 1)\<rparr>"
proof -
  have r: "resolve sample_fs (names_path [''d'']) sample_world = Done (Some 2)" "mem_nodes sample_fs = 1"
    "map_option fst (mem_open_with_handle sample_kernel sample_fs (names_path [''d'', ''f'']) O_RDWR 0 sample_world) =
       Some \<lparr>or_fd = 8, or_opened = Some (MemoryOpenedFile 3 1)\<rparr>" by code_simp+
  show ?thesis
    using handle_calls_are_path_calls [OF sample_reach _ r(1), of "[''f'']" O_RDWR 0] r(2,3)
    by (auto simp del: opened_open_child.simps opened_mkdir_child.simps)
qed

section \<open>Permission bits, separate file systems\<close>

text \<open>\<open>chmod\<close> of a path of names that exists returns 0 and the next \<open>stat\<close> reports the permission bits
  of the given mode (its low twelve bits) with the type; names, inodes and the modes of all other
  nodes are unchanged. For a missing path it returns -1 and the world is unchanged.\<close>

theorem chmod_then_stat:
  assumes w: "world_inv w" and fs: "live w fs"
  shows "\<exists>r w'. mem_chmod K fs (names_path ns) mode w = Done (r, w') \<and> abs_fs w' fs = abs_fs w fs \<and>
     (case abs_fs w fs ns of
        None \<Rightarrow> r = -1 \<and> w' = w
      | Some (i, kind) \<Rightarrow> r = 0 \<and> (\<forall>j. j \<noteq> i \<longrightarrow> heap w' j = heap w j) \<and>
          (\<exists>sb' w''. mem_stat K fs (names_path ns) sb w' = Done ((0, sb'), w'') \<and>
             st_mode sb' = (case kind of FileKind \<Rightarrow> S_IFREG | DirKind \<Rightarrow> S_IFDIR) OR (mode AND MODE_MASK)))"
proof -
  obtain r w' where ch: "mem_chmod K fs (names_path ns) mode w = Done (r, w')" and st: "same_tree w w'"
    using chmod_step [OF w fs, of "names_path ns" K mode] by auto
  have same: "abs_fs w' fs = abs_fs w fs" by (rule same_tree_spec [OF st])
  have w': "world_inv w'" "live w' fs"
    using same_tree_inv [OF st w] evolves_live [OF same_tree_evolves [OF st] fs] by blast+
  show ?thesis
  proof (cases "view w fs ns")
    case None
    then have "r = -1 \<and> w' = w" using ch by (simp add: mem_chmod_def resolve_view [OF w fs])
    then show ?thesis
      using ch None by (intro exI conjI) (assumption | simp add: abs_fs_def)+
  next
    case (Some i)
    then have r: "r = 0 \<and> (\<forall>j. j \<noteq> i \<longrightarrow> heap w' j = heap w j) \<and> nd_mode (heap w' i) = mode AND MODE_MASK"
      using ch by (auto simp: mem_chmod_def resolve_view [OF w fs] Let_def mem_simps split: node_kind.splits)
    obtain s sb' w'' where "mem_stat K fs (names_path ns) sb w' = Done ((s, sb'), w'')" "abs_fs w'' fs = abs_fs w' fs"
      "case abs_fs w' fs ns of
        None \<Rightarrow> s = -1 \<and> sb' = sb
      | Some (i, kind) \<Rightarrow> s = 0 \<and> st_ino sb' = of_nat i \<and>
          st_mode sb' = (case kind of FileKind \<Rightarrow> S_IFREG | DirKind \<Rightarrow> S_IFDIR) OR nd_mode (heap w' i) \<and>
          st_nlink sb' = (case kind of FileKind \<Rightarrow> 1
            | DirKind \<Rightarrow> 2 + card {x. \<exists>j. abs_fs w' fs (ns @ [x]) = Some (j, DirKind)})"
      using stat_lemma [OF w', of K ns sb] by blast
    then show ?thesis using ch r same Some by (auto simp: abs_fs_def [of w fs ns])
  qed
qed

theorem chmod_then_stat_witness:
  "\<exists>w' sb' w''. mem_chmod sample_kernel sample_fs (names_path [''d'']) 0x43C0 sample_world = Done (0, w') \<and>
     mem_stat sample_kernel sample_fs (names_path [''d'']) zeroed_stat w' = Done ((0, sb'), w'') \<and> st_mode sb' = 0x43C0"
proof -
  have v: "abs_fs sample_world sample_fs [''d''] = Some (2, DirKind)" by code_simp
  show ?thesis
    using chmod_then_stat [OF sample_ok, of sample_kernel "[''d'']" "0x43C0" zeroed_stat] v by auto
qed

text \<open>What an operation on the file system with node map \<open>m\<close> leaves alone.\<close>

definition only_map :: "map_ref \<Rightarrow> 'k world \<Rightarrow> 'k world \<Rightarrow> bool" where
  "only_map m w w' \<longleftrightarrow> (\<forall>r. r \<noteq> m \<longrightarrow> node_maps w' r = node_maps w r \<and>
     (\<forall>i \<in> node_maps w r. entries_of (heap w' i) = entries_of (heap w i) \<and> entry_kind (heap w' i) = entry_kind (heap w i)))"

lemma only_map_same: "same_tree w w' \<Longrightarrow> only_map m w w'"
  by (simp add: only_map_def same_tree_maps same_tree_heap)

lemma only_map_trans: "only_map m w w' \<Longrightarrow> only_map m w' w'' \<Longrightarrow> only_map m w w''"
  by (auto simp: only_map_def)

lemma only_map_heap:
  assumes w: "world_inv w" and "\<And>r. r \<noteq> m \<Longrightarrow> node_maps w' r = node_maps w r"
    and "\<And>r i. r \<noteq> m \<Longrightarrow> i \<in> node_maps w r \<Longrightarrow> heap w' i = heap w i"
  shows "only_map m w w'"
  using assms by (auto simp: only_map_def)

lemma only_map_abs:
  assumes w: "world_inv w" and fs: "live w fs" and ne: "mem_nodes fs \<noteq> m" and fr: "only_map m w w'"
  shows "abs_fs w' fs = abs_fs w fs"
proof -
  have inv: "mem_inv w (mem_nodes fs)" and root: "mem_root fs = mem_nodes fs" using live_inv [OF w fs] by auto
  have "lookup_names (child w') ns i = lookup_names (child w) ns i" if "i \<in> node_maps w (mem_nodes fs)" for ns i
    using that
  proof (induction ns arbitrary: i)
    case (Cons x ns)
    have "child w' i x = child w i x" using fr ne Cons.prems by (auto simp: child_def only_map_def)
    moreover have "c \<in> node_maps w (mem_nodes fs)" if "child w i x = Some c" for c
      using mem_inv_child [OF inv Cons.prems that] by simp
    ultimately show ?case using Cons.IH by (cases "child w i x") simp_all
  qed simp
  then have v: "view w' fs ns = view w fs ns" for ns
    using mem_root_in [OF inv] by (simp add: view_def root)
  show ?thesis
  proof
    fix ns
    show "abs_fs w' fs ns = abs_fs w fs ns"
      using v [of ns] view_in [OF w fs, of ns] fr ne
      by (cases "view w fs ns") (auto simp: abs_fs_def only_map_def)
  qed
qed

lemma other_map:
  "world_inv w \<Longrightarrow> d \<in> node_maps w m \<Longrightarrow> r \<noteq> m \<Longrightarrow> i \<in> node_maps w r \<Longrightarrow> i \<noteq> d \<and> i \<noteq> next_node_id w"
  using world_inv_disjoint [of w d m r] fresh_id [of w r] by auto

lemma create_only_map:
  assumes w: "world_inv w" and fs: "live w fs" and p: "is_absolute p"
    and cr: "create_node K fs p kind mode w = Done (r, w')"
  shows "only_map (mem_nodes fs) w w'"
proof (cases "same_tree w w'")
  case True
  then show ?thesis by (rule only_map_same)
next
  case False
  then obtain x d where x: "file_name p = Some x" "view w fs (names_of (butlast p)) = Some d"
      "create_node_in_dir K d (mem_nodes fs) x kind mode w = (r, w')"
    using cr same_tree_refl by (auto simp: create_node_names [OF w fs p] split: option.splits)
  have dN: "d \<in> node_maps w (mem_nodes fs)" by (rule view_in [OF w fs x(2)])
  then have d: "d < next_node_id w" "btree_sorted (entries_of (heap w d))"
    using world_inv_in [OF w dN] by (auto simp: node_ok_def)
  then have w': "w' = add_node K d (mem_nodes fs) x kind mode w" "is_directory (heap w d)"
    using create_node_in_dir_cases [OF x(3) d(1)] False by auto
  show ?thesis
    unfolding w'(1)
    by (rule only_map_heap [OF w])
      (use other_map [OF w dN] in \<open>simp_all add: add_node_fields [OF d(1) w'(2) d(2)]\<close>)
qed

lemma remove_only_map:
  assumes w: "world_inv w" and fs: "live w fs" and p: "is_absolute p"
    and rm: "remove_node_at p (mem_nodes fs) (mem_root fs) kind w = Done (r, w')"
  shows "only_map (mem_nodes fs) w w'"
proof -
  let ?m = "mem_nodes fs"
  have inv: "mem_inv w ?m" and root: "mem_root fs = ?m" using live_inv [OF w fs] by auto
  note spec = remove_spec [OF inv p, of kind, folded root, unfolded root]
  show ?thesis
  proof (cases "\<exists>x d c. file_name p = Some x \<and> lookup_names (child w) (names_of (butlast p)) ?m = Some d \<and>
      child w d x = Some c \<and> removable w c kind")
    case False
    then have "remove_node_at p ?m ?m kind w = Done (-1, w)"
      unfolding spec by (auto split: option.splits)
    then show ?thesis using rm root only_map_same [OF same_tree_refl] by simp
  next
    case True
    then obtain x d c where x: "file_name p = Some x" "removable w c kind"
      and d: "lookup_names (child w) (names_of (butlast p)) ?m = Some d" "child w d x = Some c" by blast
    have "remove_node_at p ?m ?m kind w = Done (0, remove_entry ?m d x c w)"
      unfolding spec using x d by simp
    then have w': "w' = remove_entry ?m d x c w" using rm root by simp
    have dN: "d \<in> node_maps w ?m" using lookup_in [OF mem_inv_tree [OF inv] mem_root_in [OF inv] d(1)] .
    have cN: "c \<in> node_maps w ?m" using mem_inv_child [OF inv dN d(2)] by simp
    show ?thesis
      unfolding w'
      by (rule only_map_heap [OF w])
        (use other_map [OF w dN] other_map [OF w cN] in \<open>simp_all add: remove_entry_def mem_simps\<close>)
  qed
qed

lemma rename_only_map:
  assumes w: "world_inv w" and fs: "live w fs" and old: "is_absolute old" and new: "is_absolute new"
    and rn: "rename_node_at old new (mem_nodes fs) (mem_root fs) w = Done (r, w')"
  shows "only_map (mem_nodes fs) w w'"
proof (cases "w' = w")
  case True
  then show ?thesis using only_map_same [OF same_tree_refl] by simp
next
  case False
  let ?m = "mem_nodes fs"
  have root: "mem_root fs = ?m" using live_inv [OF w fs] by auto
  from fs have "node_maps w ?m \<noteq> {}" by (simp add: live_def)
  from rename_spec [OF w this old new] rn obtain p x q y where
    "rename_outcome old new ?m p x q y w r w'"
    unfolding root using False by (fastforce split: if_splits option.splits)
  then obtain c where mv: "move_entry ?m p x q y c (child w q y) w w'"
    using False by (auto simp: rename_outcome_def split: option.splits if_splits)
  show ?thesis
    by (rule only_map_heap [OF w]) (use mv world_inv_disjoint [OF w] in \<open>auto simp: move_entry_def\<close>)
qed

lemma open_only_map:
  assumes w: "world_inv w" and fs: "live w fs" and p: "is_absolute p"
    and op: "open_node K fs p fl mode w = Done (r, w')"
  shows "only_map (mem_nodes fs) w w'"
proof -
  obtain z w1 where cr: "create_node K fs p FileKind mode w = Done (z, w1)"
    using create_node_step [OF w fs p, of K FileKind mode] by blast
  note fr = create_only_map [OF w fs p cr]
  have ob: "only_map (mem_nodes fs) w2 (snd (open_backing K b fl w2))" for b and w2 :: "'a world"
    using open_backing_same [of K b fl w2] by (cases "open_backing K b fl w2") (auto intro: only_map_same)
  note refl = only_map_same [OF same_tree_refl, of "mem_nodes fs"]
  have fin: "only_map (mem_nodes fs) w2 w'" if "(if fl AND O_DIRECTORY \<noteq> 0 \<and> \<not> is_directory (heap w2 a) then ((-1, None), w2)
        else (let (fd, w) = open_backing K (node_backing_fd (heap w2 a)) fl w2
              in if fd < 0 then ((fd, None), w) else ((fd, Some a), w))) = (r, w')" for a w2
    using that ob [of w2 "node_backing_fd (heap w2 a)"] refl [of w2]
    by (auto simp: Let_def split: if_splits prod.splits)
  show ?thesis
  proof (cases "view w fs (names_of p)")
    case (Some a)
    then show ?thesis
      using op fin [of w a] refl [of w] p
      by (auto simp: open_node_def open_resolved_node_def resolve_view [OF w fs] split: if_splits)
  next
    case None
    then show ?thesis
      using op fin [of w1] fr refl [of w] p cr only_map_trans [OF fr]
      by (auto simp: open_node_def open_resolved_node_def resolve_view [OF w fs] split: if_splits option.splits)
  qed
qed

text \<open>File systems are separate: opening, creating, removing, renaming and changing the mode of a path
  in one in-memory file system changes no path, inode or kind of another one.\<close>

theorem file_systems_separate:
  assumes "mem_reach K (w, F, H)" and "fs \<in> F" and "other \<in> F" and "mem_nodes other \<noteq> mem_nodes fs"
    and "is_absolute p" and "is_absolute q"
    and "mem_open_with_handle K fs p fl mode w = Done (z, w') \<or> mem_mkdir K fs p mode w = Done (r, w') \<or>
         mem_unlink fs p w = Done (r, w') \<or> mem_rmdir fs p w = Done (r, w') \<or>
         mem_rename fs p q w = Done (r, w') \<or> mem_chmod K fs p mode w = Done (r, w')"
  shows "abs_fs w' other = abs_fs w other"
proof -
  note w = reach_inv [OF assms(1)] and lv = reach_live [OF assms(1,2)] and lo = reach_live [OF assms(1,3)]
  have "only_map (mem_nodes fs) w w'"
    using assms(7)
  proof (elim disjE)
    assume "mem_open_with_handle K fs p fl mode w = Done (z, w')"
    then show ?thesis using open_only_map [OF w lv assms(5)]
      by (auto simp: mem_open_with_handle_def bind_eq_Some_conv)
  next
    assume "mem_mkdir K fs p mode w = Done (r, w')"
    then show ?thesis using create_only_map [OF w lv assms(5)] by (auto simp: mem_mkdir_def bind_eq_Some_conv)
  next
    assume "mem_chmod K fs p mode w = Done (r, w')"
    then show ?thesis using chmod_step [OF w lv assms(5), of K mode] by (auto intro: only_map_same)
  qed (auto simp: mem_unlink_def mem_rmdir_def mem_rename_def
      intro: remove_only_map [OF w lv assms(5)] rename_only_map [OF w lv assms(5,6)])
  then show ?thesis using only_map_abs [OF w lo assms(4)] by blast
qed

theorem file_systems_separate_witness:
  "\<exists>w fs. mem_reach sample_kernel (w, {fs, sample_fs}, sample_handles) \<and> mem_nodes fs = 4 \<and>
     (\<exists>w'. mem_mkdir sample_kernel fs (names_path [''e'']) 0 w = Done (0, w') \<and>
        abs_fs w' sample_fs = abs_fs w sample_fs)"
proof -
  let ?K = sample_kernel
  define fs where "fs = fst (memory_fs_new ?K ''two'' sample_world)"
  define w where "w = snd (memory_fs_new ?K ''two'' sample_world)"
  have m: "mem_nodes fs = 4" "mem_nodes sample_fs = 1" unfolding fs_def by code_simp+
  have "memory_fs_new ?K ''two'' sample_world = (fs, w)" by (simp add: fs_def w_def)
  then have "mem_step ?K (sample_world, {sample_fs}, sample_handles) (w, {fs, sample_fs}, sample_handles)"
    using mem_step.new by blast
  then have reach: "mem_reach ?K (w, {fs, sample_fs}, sample_handles)"
    using mem_reach_steps [OF sample_reach] by blast
  have "map_option fst (mem_mkdir ?K fs (names_path [''e'']) 0 w) = Some 0" unfolding fs_def w_def by code_simp
  note r = io_run [OF this]
  have "abs_fs (snd (the (mem_mkdir ?K fs (names_path [''e'']) 0 w))) sample_fs = abs_fs w sample_fs"
    by (rule file_systems_separate [where q = "names_path []" and fl = 0 and z = "from_fd 0",
          OF reach _ _ _ names_path_absolute names_path_absolute disjI2 [OF disjI1 [OF r]]]) (simp_all add: m)
  then show ?thesis using reach r m by blast
qed

end
