(* ===== verification/Dirents.thy ===== *)
theory Dirents
  imports Filesystem
begin

text \<open>
  \<open>src/src/linux_dirents.rs\<close>: \<open>struct linux_dirent64\<close> records written into a buffer of the caller.
  The buffer is the list of its bytes, \<open>None\<close> for a null pointer. A write outside the buffer, which is
  undefined behaviour in the code, is \<open>Panic\<close> here, so that memory safety is the theorem that it
  does not happen. Sizes (\<open>usize\<close>) are natural numbers; the fields are words of their width.
  \<open>DefaultHasher\<close> is the parameter \<open>hash\<close>.
\<close>

section \<open>The code\<close>

record write_dirents_result =
  bytes_written :: int
  entries_consumed :: nat

definition dot_entries :: "vfs_dir_entry list" where
  "dot_entries =
     [\<lparr>de_name = ''.'', de_kind = DirKind, de_ino = None\<rparr>,
      \<lparr>de_name = ''..'', de_kind = DirKind, de_ino = None\<rparr>]"

definition entry_path :: "path \<Rightarrow> string \<Rightarrow> path" where
  "entry_path parent name =
     (if name = ''.'' then parent
      else if name = ''..'' then (case parent_path parent of None \<Rightarrow> [RootDir] | Some p \<Rightarrow> p)
      else join parent (components name))"

definition align_to :: "nat \<Rightarrow> nat \<Rightarrow> nat" where
  "align_to value alignment = nat ((int value + int alignment - 1) AND NOT (int alignment - 1))"

definition inode_for_path :: "(path \<Rightarrow> u64) \<Rightarrow> path \<Rightarrow> u64" where
  "inode_for_path hash path = hash path"

text \<open>\<open>DT_REG\<close> and \<open>DT_DIR\<close>.\<close>

definition dirent_type :: "vfs_entry_kind \<Rightarrow> byte" where
  "dirent_type kind = (case kind of FileKind \<Rightarrow> 8 | DirKind \<Rightarrow> 4)"

text \<open>The bytes of a name, and of an integer in memory (little endian).\<close>

definition name_bytes :: "string \<Rightarrow> byte list" where
  "name_bytes name = map (\<lambda>c. of_nat (of_char c)) name"

definition le_bytes :: "nat \<Rightarrow> 'a::len word \<Rightarrow> byte list" where
  "le_bytes n w = map (\<lambda>i. ucast (drop_bit (8 * i) w)) [0..<n]"

text \<open>\<open>ptr::write\<close>, \<open>write_unaligned\<close>, \<open>copy_nonoverlapping\<close> and \<open>write_bytes\<close> at \<open>buf.add(off)\<close>.\<close>

definition put :: "byte list \<Rightarrow> nat \<Rightarrow> byte list \<Rightarrow> byte list outcome" where
  "put buf off bs =
     (if off + length bs \<le> length buf then Done (take off buf @ bs @ drop (off + length bs) buf) else Panic)"

definition write_record :: "byte list \<Rightarrow> nat \<Rightarrow> u64 \<Rightarrow> 64 word \<Rightarrow> nat \<Rightarrow> vfs_entry_kind \<Rightarrow> byte list \<Rightarrow> byte list outcome" where
  "write_record buf written ino next_offset reclen kind name =
     do { buf \<leftarrow> put buf written (le_bytes 8 ino);
          buf \<leftarrow> put buf (written + 8) (le_bytes 8 next_offset);
          buf \<leftarrow> put buf (written + 16) (le_bytes 2 (of_nat reclen :: 16 word));
          buf \<leftarrow> put buf (written + 18) [dirent_type kind];
          buf \<leftarrow> put buf (written + 19) name;
          buf \<leftarrow> put buf (written + 19 + length name) [0];
          put buf (written + 19 + length name + 1) (replicate (reclen - (19 + length name + 1)) 0) }"

fun write_loop ::
  "(path \<Rightarrow> u64) \<Rightarrow> path \<Rightarrow> vfs_dir_entry list \<Rightarrow> nat \<Rightarrow> nat \<Rightarrow> byte list \<Rightarrow> nat \<Rightarrow> nat \<Rightarrow>
   (byte list \<times> nat \<times> nat) outcome" where
  "write_loop hash parent [] start count buf written consumed = Done (buf, written, consumed)"
| "write_loop hash parent (entry # entries) start count buf written consumed =
     (let name = name_bytes (de_name entry);
          reclen = align_to (19 + length name + 1) 8
      in if count < written + reclen then Done (buf, written, consumed)
         else
           let path = entry_path parent (de_name entry);
               ino = (case de_ino entry of Some i \<Rightarrow> i | None \<Rightarrow> inode_for_path hash path);
               next_offset = of_nat (start + consumed + 1)
           in do { buf \<leftarrow> write_record buf written ino next_offset reclen (de_kind entry) name;
                   write_loop hash parent entries start count buf (written + reclen) (consumed + 1) })"

definition write_dirents64 ::
  "(path \<Rightarrow> u64) \<Rightarrow> path \<Rightarrow> vfs_dir_entry list \<Rightarrow> nat \<Rightarrow> byte list option \<Rightarrow> int \<Rightarrow>
   (write_dirents_result \<times> byte list option) outcome" where
  "write_dirents64 hash parent entries start dirp count =
     (case dirp of
        None \<Rightarrow> Done (\<lparr>bytes_written = -1, entries_consumed = 0\<rparr>, dirp)
      | Some buf \<Rightarrow>
          if count \<le> 0 then Done (\<lparr>bytes_written = -1, entries_consumed = 0\<rparr>, dirp)
          else do { (buf, written, consumed) \<leftarrow> write_loop hash parent entries start (nat count) buf 0 0;
                    if consumed = 0 \<and> entries \<noteq> []
                    then Done (\<lparr>bytes_written = -1, entries_consumed = 0\<rparr>, Some buf)
                    else Done (\<lparr>bytes_written = int written, entries_consumed = consumed\<rparr>, Some buf) })"

section \<open>Words and bytes\<close>

definition from_le :: "byte list \<Rightarrow> 'a::len word" where
  "from_le bs = foldr (\<lambda>b w. ucast b OR push_bit 8 w) bs 0"

lemma length_le_bytes [simp]: "length (le_bytes n w) = n"
  by (simp add: le_bytes_def)

lemma le_bytes_Suc: "le_bytes (Suc n) w = ucast w # le_bytes n (drop_bit 8 w)"
  by (simp add: le_bytes_def upt_conv_Cons map_Suc_upt [symmetric] add.commute del: upt_Suc)

lemma le_bytes_2: "le_bytes 2 w = [ucast w, ucast (drop_bit 8 w)]"
  by (simp add: le_bytes_def upt_rec)

lemma from_le_bytes: "LENGTH('a) \<le> 8 * n \<Longrightarrow> from_le (le_bytes n w) = (w :: 'a::len word)"
proof -
  have "from_le (le_bytes n w) = take_bit (8 * n) w" for w :: "'a word"
  proof (induction n arbitrary: w)
    case 0
    then show ?case by (simp add: from_le_def le_bytes_def)
  next
    case (Suc n)
    have "from_le (le_bytes (Suc n) w) = ucast (ucast w :: byte) OR push_bit 8 (from_le (le_bytes n (drop_bit 8 w)) :: 'a word)"
      by (simp add: le_bytes_Suc from_le_def)
    also have "\<dots> = ucast (ucast w :: byte) OR push_bit 8 (take_bit (8 * n) (drop_bit 8 w))"
      by (simp add: Suc)
    also have "\<dots> = take_bit (8 * Suc n) w"
      by (rule bit_word_eqI) (auto simp: bit_simps)
    finally show ?case .
  qed
  moreover assume "LENGTH('a) \<le> 8 * n"
  ultimately show ?thesis by (simp add: take_bit_word_eq_self)
qed

lemma name_bytes_inverse: "map (\<lambda>b. char_of (unat b)) (name_bytes name) = name"
  by (induction name) (simp_all add: name_bytes_def unat_of_nat)

lemma length_name_bytes [simp]: "length (name_bytes name) = length name"
  by (simp add: name_bytes_def)

lemma name_bytes_no_nul: "CHR 0x00 \<notin> set name \<Longrightarrow> 0 \<notin> set (name_bytes name)"
proof
  assume nul: "CHR 0x00 \<notin> set name" and "0 \<in> set (name_bytes name)"
  then obtain c where "c \<in> set name" "(of_nat (of_char c) :: byte) = 0" by (auto simp: name_bytes_def)
  then have "char_of (unat (of_nat (of_char c) :: byte)) = CHR 0x00" by (simp add: char_of_def)
  then show False using \<open>c \<in> set name\<close> nul by (simp add: unat_of_nat)
qed

section \<open>Alignment\<close>

lemma align_to_8: "align_to v 8 = 8 * ((v + 7) div 8)"
proof -
  have "(int v + 7) AND NOT 7 = (int v + 7) div 8 * 8"
  proof -
    have "(int v + 7) AND NOT (mask 3) = push_bit 3 (drop_bit 3 (int v + 7))"
      by (rule bit_eqI) (auto simp: bit_simps)
    then show ?thesis by (simp add: mask_eq_exp_minus_1 push_bit_eq_mult drop_bit_eq_div)
  qed
  also have "\<dots> = int (8 * ((v + 7) div 8))" by (simp add: zdiv_int)
  finally have f: "(int v + 7) AND NOT 7 = int (8 * ((v + 7) div 8))" .
  have e: "int v + int 8 - 1 = int v + 7" "int 8 - 1 = 7" by simp_all
  show ?thesis by (simp only: align_to_def e f nat_int)
qed

section \<open>What is written\<close>

definition reclen :: "vfs_dir_entry \<Rightarrow> nat" where
  "reclen e = align_to (19 + length (de_name e) + 1) 8"

definition entry_ino :: "(path \<Rightarrow> u64) \<Rightarrow> path \<Rightarrow> vfs_dir_entry \<Rightarrow> u64" where
  "entry_ino hash parent e =
     (case de_ino e of Some i \<Rightarrow> i | None \<Rightarrow> hash (entry_path parent (de_name e)))"

text \<open>The record of an entry with the offset \<open>off\<close> of the next one.\<close>

definition record_bytes :: "(path \<Rightarrow> u64) \<Rightarrow> path \<Rightarrow> nat \<Rightarrow> vfs_dir_entry \<Rightarrow> byte list" where
  "record_bytes hash parent off e =
     le_bytes 8 (entry_ino hash parent e) @ le_bytes 8 (of_nat off :: 64 word) @
     le_bytes 2 (of_nat (reclen e) :: 16 word) @ [dirent_type (de_kind e)] @ name_bytes (de_name e) @ [0] @
     replicate (reclen e - (19 + length (de_name e) + 1)) 0"

fun records :: "(path \<Rightarrow> u64) \<Rightarrow> path \<Rightarrow> nat \<Rightarrow> vfs_dir_entry list \<Rightarrow> byte list" where
  "records hash parent start [] = []"
| "records hash parent start (e # es) = record_bytes hash parent (start + 1) e @ records hash parent (start + 1) es"

text \<open>How many of the entries fit in \<open>count\<close> bytes.\<close>

fun fit :: "nat \<Rightarrow> vfs_dir_entry list \<Rightarrow> nat" where
  "fit count [] = 0"
| "fit count (e # es) = (if reclen e \<le> count then Suc (fit (count - reclen e) es) else 0)"

lemma reclen_ge: "20 + length (de_name e) \<le> reclen e"
  by (simp add: reclen_def align_to_8)

lemma reclen_dvd: "8 dvd reclen e"
  by (simp add: reclen_def align_to_8)

lemma reclen_lt: "reclen e < 28 + length (de_name e)"
  by (simp add: reclen_def align_to_8)

lemma length_record_bytes [simp]: "length (record_bytes hash parent off e) = reclen e"
  using reclen_ge [of e] by (simp add: record_bytes_def)

lemma length_records: "length (records hash parent start es) = sum_list (map reclen es)"
  by (induction es arbitrary: start) simp_all

lemma fit_le: "fit count es \<le> length es"
  by (induction count es rule: fit.induct) auto

lemma fit_sum: "sum_list (map reclen (take (fit count es) es)) \<le> count"
  by (induction count es rule: fit.induct) auto

lemma fit_maximal: "fit count es < length es \<Longrightarrow> count < sum_list (map reclen (take (Suc (fit count es)) es))"
  by (induction count es rule: fit.induct) (auto split: if_splits)

lemma fit_0: "fit count es = 0 \<longleftrightarrow> es = [] \<or> count < reclen (hd es)"
  by (cases es) auto

lemma put_at:
  "length bs \<le> length ys \<Longrightarrow> off = length xs \<Longrightarrow> put (xs @ ys) off bs = Done (xs @ bs @ drop (length bs) ys)"
  by (simp add: put_def)

lemma write_record_at:
  assumes "reclen e \<le> length ys"
  shows "write_record (xs @ ys) (length xs) (entry_ino hash parent e) (of_nat off) (reclen e) (de_kind e)
           (name_bytes (de_name e)) = Done (xs @ record_bytes hash parent off e @ drop (reclen e) ys)"
proof -
  let ?name = "name_bytes (de_name e)" and ?i = "le_bytes 8 (entry_ino hash parent e)"
  let ?o = "le_bytes 8 (of_nat off :: 64 word)" and ?r = "le_bytes 2 (of_nat (reclen e) :: 16 word)"
  let ?t = "[dirent_type (de_kind e)]" and ?z = "replicate (reclen e - (19 + length (de_name e) + 1)) (0::byte)"
  have len: "20 + length (de_name e) \<le> length ys" using assms reclen_ge [of e] by linarith
  have 1: "put (xs @ ys) (length xs) ?i = Done (xs @ ?i @ drop 8 ys)"
    using len by (simp add: put_at)
  have 2: "put (xs @ ?i @ drop 8 ys) (length xs + 8) ?o = Done ((xs @ ?i) @ ?o @ drop 16 ys)"
    using len put_at [of ?o "drop 8 ys" "length xs + 8" "xs @ ?i"] by simp
  have 3: "put ((xs @ ?i) @ ?o @ drop 16 ys) (length xs + 16) ?r = Done ((xs @ ?i @ ?o) @ ?r @ drop 18 ys)"
    using len put_at [of ?r "drop 16 ys" "length xs + 16" "xs @ ?i @ ?o"] by simp
  have 4: "put ((xs @ ?i @ ?o) @ ?r @ drop 18 ys) (length xs + 18) ?t = Done ((xs @ ?i @ ?o @ ?r) @ ?t @ drop 19 ys)"
    using len put_at [of ?t "drop 18 ys" "length xs + 18" "xs @ ?i @ ?o @ ?r"] by simp
  have 5: "put ((xs @ ?i @ ?o @ ?r) @ ?t @ drop 19 ys) (length xs + 19) ?name =
      Done ((xs @ ?i @ ?o @ ?r @ ?t) @ ?name @ drop (19 + length (de_name e)) ys)"
    using len put_at [of ?name "drop 19 ys" "length xs + 19" "xs @ ?i @ ?o @ ?r @ ?t"] by (simp add: add.commute)
  have 6: "put ((xs @ ?i @ ?o @ ?r @ ?t) @ ?name @ drop (19 + length (de_name e)) ys) (length xs + 19 + length (de_name e)) [0] =
      Done ((xs @ ?i @ ?o @ ?r @ ?t @ ?name) @ [0] @ drop (20 + length (de_name e)) ys)"
    using len put_at [of "[0]" "drop (19 + length (de_name e)) ys" "length xs + 19 + length (de_name e)" "xs @ ?i @ ?o @ ?r @ ?t @ ?name"]
    by simp
  have 7: "put ((xs @ ?i @ ?o @ ?r @ ?t @ ?name) @ [0] @ drop (20 + length (de_name e)) ys)
        (length xs + 19 + length (de_name e) + 1) ?z =
      Done ((xs @ ?i @ ?o @ ?r @ ?t @ ?name @ [0]) @ ?z @ drop (reclen e) ys)"
    using assms reclen_ge [of e] put_at [of ?z "drop (20 + length (de_name e)) ys" "length xs + 19 + length (de_name e) + 1"
        "xs @ ?i @ ?o @ ?r @ ?t @ ?name @ [0]"]
    by simp
  show ?thesis
    unfolding write_record_def length_name_bytes 1 2 3 4 5 6 bind.bind_lunit
    using 7 by (simp add: record_bytes_def)
qed

lemma write_loop_Cons:
  "write_loop hash parent (e # es) start count buf written consumed =
     (if count < written + reclen e then Done (buf, written, consumed)
      else do { buf \<leftarrow> write_record buf written (entry_ino hash parent e) (of_nat (start + consumed + 1))
                         (reclen e) (de_kind e) (name_bytes (de_name e));
                write_loop hash parent es start count buf (written + reclen e) (consumed + 1) })"
  by (simp only: write_loop.simps Let_def reclen_def entry_ino_def inode_for_path_def length_name_bytes)

lemma write_loop_records:
  "length xs + count' = count \<Longrightarrow> count' \<le> length ys \<Longrightarrow>
     write_loop hash parent es start count (xs @ ys) (length xs) consumed =
       (let n = fit count' es; R = records hash parent (start + consumed) (take n es)
        in Done (xs @ R @ drop (length R) ys, length xs + length R, consumed + n))"
proof (induction es arbitrary: xs ys count' consumed)
  case Nil
  then show ?case by simp
next
  case (Cons e es)
  show ?case
  proof (cases "reclen e \<le> count'")
    case False
    then have "count < length xs + reclen e" using Cons.prems by simp
    then show ?thesis using False by (simp add: write_loop_Cons del: write_loop.simps)
  next
    case True
    let ?R = "record_bytes hash parent (start + consumed + 1) e"
    have wr: "write_record (xs @ ys) (length xs) (entry_ino hash parent e) (of_nat (start + consumed + 1)) (reclen e)
        (de_kind e) (name_bytes (de_name e)) = Done ((xs @ ?R) @ drop (reclen e) ys)"
      using True Cons.prems write_record_at [of e ys xs hash parent "start + consumed + 1"] by simp
    have "write_loop hash parent es start count ((xs @ ?R) @ drop (reclen e) ys) (length (xs @ ?R)) (consumed + 1) =
       (let n = fit (count' - reclen e) es; R = records hash parent (start + (consumed + 1)) (take n es)
        in Done ((xs @ ?R) @ R @ drop (length R) (drop (reclen e) ys), length (xs @ ?R) + length R, consumed + 1 + n))"
      using Cons.prems True by (intro Cons.IH) auto
    moreover have "write_loop hash parent (e # es) start count (xs @ ys) (length xs) consumed =
        write_loop hash parent es start count ((xs @ ?R) @ drop (reclen e) ys) (length (xs @ ?R)) (consumed + 1)"
    proof -
      have "\<not> count < length xs + reclen e" using True Cons.prems by simp
      then show ?thesis
        by (simp only: write_loop_Cons if_False wr bind.bind_lunit length_append length_record_bytes)
    qed
    ultimately show ?thesis
      using True by (simp add: Let_def add.commute add.left_commute)
  qed
qed

lemma write_dirents64_records:
  assumes "0 < count" and "nat count \<le> length buf"
  shows "write_dirents64 hash parent es start (Some buf) count =
     (let n = fit (nat count) es; R = records hash parent start (take n es)
      in Done (if n = 0 \<and> es \<noteq> [] then (\<lparr>bytes_written = -1, entries_consumed = 0\<rparr>, Some buf)
               else (\<lparr>bytes_written = int (length R), entries_consumed = n\<rparr>, Some (R @ drop (length R) buf))))"
  using assms write_loop_records [of "[]" "nat count" "nat count" buf hash parent es start 0]
  by (auto simp: write_dirents64_def Let_def)

section \<open>Reading the records back\<close>

text \<open>
  A reader of the buffer that follows the layout of \<open>struct linux_dirent64\<close> as the C library does:
  the next record is \<open>d_reclen\<close> bytes away and the name ends at the first NUL.
\<close>

record dirent =
  d_ino :: u64
  d_off :: "64 word"
  d_type :: byte
  d_name :: string

definition read_dirent :: "byte list \<Rightarrow> dirent" where
  "read_dirent bs =
     \<lparr>d_ino = from_le (take 8 bs), d_off = from_le (take 8 (drop 8 bs)), d_type = bs ! 18,
      d_name = map (\<lambda>b. char_of (unat b)) (takeWhile (\<lambda>b. b \<noteq> 0) (drop 19 bs))\<rparr>"

definition read_reclen :: "byte list \<Rightarrow> nat" where
  "read_reclen bs = unat (from_le (take 2 (drop 16 bs)) :: 16 word)"

function parse_dirents :: "byte list \<Rightarrow> dirent list option" where
  "parse_dirents bs =
     (if bs = [] then Some []
      else if length bs < 20 \<or> read_reclen bs < 20 \<or> length bs < read_reclen bs then None
      else do { rest \<leftarrow> parse_dirents (drop (read_reclen bs) bs);
                Some (read_dirent (take (read_reclen bs) bs) # rest) })"
  by pat_completeness auto
termination
  by (relation "measure length") auto

declare parse_dirents.simps [simp del]

text \<open>What the reader should see of the entries, the first having offset \<open>start\<close>.\<close>

definition dirent_of :: "(path \<Rightarrow> u64) \<Rightarrow> path \<Rightarrow> nat \<Rightarrow> vfs_dir_entry \<Rightarrow> dirent" where
  "dirent_of hash parent off e =
     \<lparr>d_ino = entry_ino hash parent e, d_off = of_nat off, d_type = dirent_type (de_kind e), d_name = de_name e\<rparr>"

fun dirents_of :: "(path \<Rightarrow> u64) \<Rightarrow> path \<Rightarrow> nat \<Rightarrow> vfs_dir_entry list \<Rightarrow> dirent list" where
  "dirents_of hash parent start [] = []"
| "dirents_of hash parent start (e # es) =
     dirent_of hash parent (start + 1) e # dirents_of hash parent (start + 1) es"

text \<open>A name a record can hold: no NUL, and a record length that fits its 16 bits.\<close>

definition short_name :: "vfs_dir_entry \<Rightarrow> bool" where
  "short_name e \<longleftrightarrow> CHR 0x00 \<notin> set (de_name e) \<and> length (de_name e) \<le> 65508"

lemma read_record:
  assumes "short_name e"
  shows "read_reclen (record_bytes hash parent off e @ bs) = reclen e"
    and "read_dirent (record_bytes hash parent off e) = dirent_of hash parent off e"
proof -
  have "reclen e < 2 ^ 16" using assms reclen_dvd [of e] reclen_lt [of e] by (auto simp: short_name_def)
  then show "read_reclen (record_bytes hash parent off e @ bs) = reclen e"
    by (simp add: read_reclen_def record_bytes_def from_le_bytes unat_of_nat)
  have nz: "\<forall>b \<in> set (name_bytes (de_name e)). b \<noteq> 0"
    using assms name_bytes_no_nul by (fastforce simp: short_name_def)
  let ?z = "replicate (reclen e - (19 + length (de_name e) + 1)) (0::byte)"
  have tw: "takeWhile (\<lambda>b. b \<noteq> 0) (name_bytes (de_name e) @ [0] @ ?z) = name_bytes (de_name e)"
    using nz by (simp add: takeWhile_append2)
  have d19: "drop 19 (record_bytes hash parent off e) = name_bytes (de_name e) @ [0] @ ?z"
    and n18: "record_bytes hash parent off e ! 18 = dirent_type (de_kind e)"
    by (simp_all add: record_bytes_def nth_append)
  show "read_dirent (record_bytes hash parent off e) = dirent_of hash parent off e"
    unfolding read_dirent_def dirent_of_def d19 n18 tw name_bytes_inverse
    by (simp add: record_bytes_def from_le_bytes)
qed

lemma parse_records:
  "\<forall>e \<in> set es. short_name e \<Longrightarrow>
     parse_dirents (records hash parent start es) = Some (dirents_of hash parent start es)"
proof (induction es arbitrary: start)
  case Nil
  then show ?case by (simp add: parse_dirents.simps)
next
  case (Cons e es)
  let ?r = "record_bytes hash parent (Suc start) e" and ?rs = "records hash parent (Suc start) es"
  have rl: "read_reclen (?r @ ?rs) = reclen e" and rd: "read_dirent ?r = dirent_of hash parent (Suc start) e"
    using Cons.prems by (auto simp: read_record)
  have "?r \<noteq> []" "20 \<le> reclen e" "\<not> length (?r @ ?rs) < reclen e" "\<not> length (?r @ ?rs) < 20"
    using reclen_ge [of e] length_record_bytes [of hash parent "Suc start" e]
    by (auto simp: simp del: length_record_bytes)
  then have "parse_dirents (?r @ ?rs) =
      do { rest \<leftarrow> parse_dirents (drop (reclen e) (?r @ ?rs)); Some (read_dirent (take (reclen e) (?r @ ?rs)) # rest) }"
    by (subst parse_dirents.simps) (simp add: rl)
  then show ?case using Cons rd by simp
qed

lemma write_in_bounds:
  assumes "\<And>buf. dirp = Some buf \<Longrightarrow> nat count \<le> length buf"
  shows "\<exists>r dirp'. write_dirents64 hash parent es start dirp count = Done (r, dirp') \<and>
     bytes_written r \<le> max 0 count \<and> entries_consumed r \<le> length es \<and>
     (case dirp of None \<Rightarrow> dirp' = None
      | Some buf \<Rightarrow> \<exists>buf'. dirp' = Some buf' \<and> length buf' = length buf \<and>
          drop (nat (bytes_written r)) buf' = drop (nat (bytes_written r)) buf)"
proof (cases "dirp = None \<or> count \<le> 0")
  case True
  then show ?thesis by (auto simp: write_dirents64_def split: option.splits)
next
  case False
  then obtain buf where buf: "dirp = Some buf" and count: "0 < count" by auto
  let ?n = "fit (nat count) es" and ?R = "records hash parent start (take (fit (nat count) es) es)"
  have len: "length ?R \<le> nat count" using fit_sum [of "nat count" es] by (simp add: length_records)
  then show ?thesis
    using buf count assms [OF buf] fit_le [of "nat count" es]
    by (auto simp: write_dirents64_records Let_def max_def)
qed

section \<open>Properties\<close>

text \<open>C21: \<open>write_dirents64\<close> is memory safe and does not overrun: for a buffer of at least \<open>count\<close> bytes
  (or a null pointer) no write falls outside the buffer, the bytes beyond those it reports are left
  as they were, and it reports at most \<open>count\<close>.\<close>

theorem write_dirents64_in_bounds:
  assumes "\<And>buf. dirp = Some buf \<Longrightarrow> nat count \<le> length buf"
  shows "\<exists>r dirp'. write_dirents64 hash parent es start dirp count = Done (r, dirp') \<and>
     bytes_written r \<le> max 0 count \<and> entries_consumed r \<le> length es \<and>
     (case dirp of None \<Rightarrow> dirp' = None
      | Some buf \<Rightarrow> \<exists>buf'. dirp' = Some buf' \<and> length buf' = length buf \<and>
          drop (nat (bytes_written r)) buf' = drop (nat (bytes_written r)) buf)"
  using write_in_bounds [OF assms] .

theorem write_dirents64_in_bounds_witness:
  "\<exists>r dirp'. write_dirents64 (\<lambda>_. 7) [RootDir] dot_entries 0 (Some (replicate 50 1)) 30 = Done (r, dirp') \<and>
     bytes_written r \<le> 30"
  using write_dirents64_in_bounds [of "Some (replicate 50 1)" 30 "\<lambda>_. 7" "[RootDir]" dot_entries 0] by auto

text \<open>C22: Round trip: reading the bytes that \<open>write_dirents64\<close> reports back as \<open>struct linux_dirent64\<close>
  records gives the consumed entries in order, each with its name, type, inode (the backend's, or
  the hash of its path) and the offset of the next one.\<close>

theorem write_dirents64_roundtrip:
  assumes "0 < count" and "nat count \<le> length buf" and "\<forall>e \<in> set es. short_name e"
    and "write_dirents64 hash parent es start (Some buf) count = Done (r, Some buf')"
    and "0 \<le> bytes_written r"
  shows "parse_dirents (take (nat (bytes_written r)) buf') =
           Some (dirents_of hash parent start (take (entries_consumed r) es))"
proof -
  have "\<forall>e \<in> set (take (fit (nat count) es) es). short_name e" using assms(3) by (auto dest: in_set_takeD)
  then show ?thesis
    using assms parse_records [of "take (fit (nat count) es) es" hash parent start]
    by (auto simp: write_dirents64_records Let_def split: if_splits)
qed

theorem write_dirents64_roundtrip_witness:
  "\<exists>r buf'. write_dirents64 (\<lambda>_. 7) [RootDir] dot_entries 0 (Some (replicate 60 1)) 60 = Done (r, Some buf') \<and>
     bytes_written r = 48 \<and>
     parse_dirents (take 48 buf') = Some [\<lparr>d_ino = 7, d_off = 1, d_type = 4, d_name = ''.''\<rparr>,
                                          \<lparr>d_ino = 7, d_off = 2, d_type = 4, d_name = ''..''\<rparr>]"
proof -
  let ?b = "replicate 60 (1::byte)"
  have s: "\<forall>e \<in> set dot_entries. short_name e" by (simp add: dot_entries_def short_name_def)
  have m: "map_option fst (write_dirents64 (\<lambda>_. 7) [RootDir] dot_entries 0 (Some ?b) 60) =
      Some \<lparr>bytes_written = 48, entries_consumed = 2\<rparr>" by code_simp
  note w = io_run [OF m]
  have "fit 60 dot_entries = 2" "dot_entries \<noteq> []" by code_simp+
  then have "\<exists>buf'. snd (the (write_dirents64 (\<lambda>_. 7) [RootDir] dot_entries 0 (Some ?b) 60)) = Some buf'"
    by (simp add: write_dirents64_records Let_def)
  then obtain buf' where b: "snd (the (write_dirents64 (\<lambda>_. 7) [RootDir] dot_entries 0 (Some ?b) 60)) = Some buf'" ..
  have "dirents_of (\<lambda>_. 7) [RootDir] 0 (take 2 dot_entries) =
      [\<lparr>d_ino = 7, d_off = 1, d_type = 4, d_name = ''.''\<rparr>, \<lparr>d_ino = 7, d_off = 2, d_type = 4, d_name = ''..''\<rparr>]"
    by code_simp
  then show ?thesis
    using write_dirents64_roundtrip [of 60 ?b dot_entries "\<lambda>_. 7" "[RootDir]" 0, OF _ _ s w [unfolded b]] w b
    by auto
qed

text \<open>C23: \<open>write_dirents64\<close> consumes the longest prefix of the entries whose records fit in \<open>count\<close>
  bytes; the record of an entry takes the bytes of its header, name and NUL rounded up to a
  multiple of 8. It reports -1 exactly for a null buffer, a count that is not positive, or a first
  record that does not fit, and then leaves the buffer as it was.\<close>

theorem write_dirents64_consumes_maximal:
  assumes "\<And>buf. dirp = Some buf \<Longrightarrow> nat count \<le> length buf"
    and "write_dirents64 hash parent es start dirp count = Done (r, dirp')"
  shows "(bytes_written r = -1 \<longleftrightarrow> dirp = None \<or> count \<le> 0 \<or> (es \<noteq> [] \<and> nat count < reclen (hd es))) \<and>
     (bytes_written r = -1 \<longrightarrow> entries_consumed r = 0 \<and> dirp' = dirp) \<and>
     (bytes_written r \<noteq> -1 \<longrightarrow>
        bytes_written r = int (sum_list (map reclen (take (entries_consumed r) es))) \<and>
        (entries_consumed r < length es \<longrightarrow>
           count < int (sum_list (map reclen (take (Suc (entries_consumed r)) es)))))"
proof (cases "dirp = None \<or> count \<le> 0")
  case True
  then show ?thesis using assms(2) by (auto simp: write_dirents64_def split: option.splits)
next
  case False
  then obtain buf where buf: "dirp = Some buf" and count: "0 < count" by auto
  let ?n = "fit (nat count) es"
  have eq: "(r, dirp') = (if ?n = 0 \<and> es \<noteq> [] then (\<lparr>bytes_written = -1, entries_consumed = 0\<rparr>, Some buf)
      else (\<lparr>bytes_written = int (sum_list (map reclen (take ?n es))), entries_consumed = ?n\<rparr>,
            Some (records hash parent start (take ?n es) @
                  drop (length (records hash parent start (take ?n es))) buf)))"
    using assms(2) write_dirents64_records [OF count assms(1) [OF buf], of hash parent es start] buf
    by (auto simp: Let_def length_records split: if_splits)
  have max: "?n < length es \<Longrightarrow> count < int (sum_list (map reclen (take (Suc ?n) es)))"
    using fit_maximal [of "nat count" es] count by linarith
  show ?thesis
  proof (cases "?n = 0 \<and> es \<noteq> []")
    case True
    then show ?thesis using eq buf count fit_0 [of "nat count" es] by auto
  next
    case False
    then show ?thesis using eq buf count fit_0 [of "nat count" es] max by auto
  qed
qed

theorem write_dirents64_consumes_maximal_witness:
  "reclen \<lparr>de_name = ''..'', de_kind = DirKind, de_ino = None\<rparr> = 24 \<and>
   map_option (bytes_written \<circ> fst) (write_dirents64 (\<lambda>_. 7) [RootDir] dot_entries 0 (Some (replicate 50 1)) 20) = Some (-1)"
proof -
  have "\<exists>x. write_dirents64 (\<lambda>_. 7) [RootDir] dot_entries 0 (Some (replicate 50 1)) 20 = Done x"
    by (simp add: write_dirents64_records Let_def)
  then obtain r d where w: "write_dirents64 (\<lambda>_. 7) [RootDir] dot_entries 0 (Some (replicate 50 1)) 20 = Done (r, d)"
    by (metis prod.exhaust)
  have "reclen (hd dot_entries) = 24" "dot_entries \<noteq> []"
    "reclen \<lparr>de_name = ''..'', de_kind = DirKind, de_ino = None\<rparr> = 24" by code_simp+
  then show ?thesis using write_dirents64_consumes_maximal [OF _ w] w by auto
qed

end
