(* ===== verification/BindFS.thy ===== *)
theory BindFS
  imports MemoryBackend
begin

text \<open>
  \<open>src/src/impls/bindfs.rs\<close>: a directory of the host as a file system, by rewriting paths. The
  bytes of the translated path are what the kernel receives, so the root is kept as bytes; the
  virtual path is a list of components and is spelled as \<open>RootVFS\<close> builds it, one separator
  between components. The calls go to the C library, the parameter \<open>K\<close>; with the hooks
  compiled in they are \<open>call_orig\<close> of the intercepted functions, the same C functions. \<open>openat\<close> is
  \<open>todo!()\<close> in the code: it panics.
\<close>

section \<open>The code\<close>

record bind_fs =
  bind_id :: string
  bind_root :: string

definition bind_new :: "string \<Rightarrow> string \<Rightarrow> bind_fs" where
  [simp]: "bind_new name root = \<lparr>bind_id = name, bind_root = root\<rparr>"

text \<open>\<open>PathBuf::join\<close> on bytes: an absolute argument replaces the path; a separator is added unless
  the path is empty or ends with one.\<close>

definition join_bytes :: "string \<Rightarrow> string \<Rightarrow> string" where
  "join_bytes p q =
     (if q \<noteq> [] \<and> hd q = CHR ''/'' then q
      else if p \<noteq> [] \<and> last p \<noteq> CHR ''/'' then p @ ''/'' @ q
      else p @ q)"

text \<open>\<open>components.as_path()\<close> after the root: the remaining components.\<close>

definition translate_path :: "bind_fs \<Rightarrow> path \<Rightarrow> string outcome" where
  "translate_path fs pth =
     (case pth of
        RootDir # rest \<Rightarrow> Done (join_bytes (bind_root fs) (path_bytes rest))
      | _ \<Rightarrow> Panic)"

definition translate_c_path :: "bind_fs \<Rightarrow> path \<Rightarrow> string outcome" where
  "translate_c_path fs pth =
     do { bytes \<leftarrow> translate_path fs pth;
          Done (if bytes \<noteq> [] \<and> last bytes = CHR 0x00 then bytes else bytes @ [CHR 0x00]) }"

text \<open>A call of the C library on the state it keeps.\<close>

definition libc :: "('k \<Rightarrow> 'a \<times> 'k) \<Rightarrow> ('k world, 'a) io" where
  "libc call w = (let (r, k) = call (kern w) in Done (r, w\<lparr>kern := k\<rparr>))"

definition bind_access :: "'k kernel \<Rightarrow> bind_fs \<Rightarrow> path \<Rightarrow> int \<Rightarrow> ('k world, int) io" where
  "bind_access K fs pth mode w =
     do { final_path \<leftarrow> translate_c_path fs pth; c \<leftarrow> as_cstr final_path; libc (k_access K c mode) w }"

definition bind_open :: "'k kernel \<Rightarrow> bind_fs \<Rightarrow> path \<Rightarrow> flags \<Rightarrow> mode_t \<Rightarrow> ('k world, fd) io" where
  "bind_open K fs pth oflag mode w =
     do { final_path \<leftarrow> translate_c_path fs pth; c \<leftarrow> as_cstr final_path; libc (k_open K c oflag mode) w }"

definition bind_mkdir :: "'k kernel \<Rightarrow> bind_fs \<Rightarrow> path \<Rightarrow> mode_t \<Rightarrow> ('k world, int) io" where
  "bind_mkdir K fs pth mode w =
     do { final_path \<leftarrow> translate_c_path fs pth; c \<leftarrow> as_cstr final_path; libc (k_mkdir K c mode) w }"

definition bind_unlink :: "'k kernel \<Rightarrow> bind_fs \<Rightarrow> path \<Rightarrow> ('k world, int) io" where
  "bind_unlink K fs pth w =
     do { final_path \<leftarrow> translate_c_path fs pth; c \<leftarrow> as_cstr final_path; libc (k_unlink K c) w }"

definition bind_rmdir :: "'k kernel \<Rightarrow> bind_fs \<Rightarrow> path \<Rightarrow> ('k world, int) io" where
  "bind_rmdir K fs pth w =
     do { final_path \<leftarrow> translate_c_path fs pth; c \<leftarrow> as_cstr final_path; libc (k_rmdir K c) w }"

definition bind_rename :: "'k kernel \<Rightarrow> bind_fs \<Rightarrow> path \<Rightarrow> path \<Rightarrow> ('k world, int) io" where
  "bind_rename K fs old_path new_path w =
     do { final_old_path \<leftarrow> translate_c_path fs old_path;
          final_new_path \<leftarrow> translate_c_path fs new_path;
          c_old \<leftarrow> as_cstr final_old_path;
          c_new \<leftarrow> as_cstr final_new_path;
          libc (k_rename K c_old c_new) w }"

definition bind_chmod :: "'k kernel \<Rightarrow> bind_fs \<Rightarrow> path \<Rightarrow> mode_t \<Rightarrow> ('k world, int) io" where
  "bind_chmod K fs pth mode w =
     do { final_path \<leftarrow> translate_c_path fs pth; c \<leftarrow> as_cstr final_path; libc (k_chmod K c mode) w }"

definition bind_stat :: "'k kernel \<Rightarrow> bind_fs \<Rightarrow> path \<Rightarrow> stat_buf \<Rightarrow> ('k world, int \<times> stat_buf) io" where
  "bind_stat K fs pth statbuf w =
     do { final_path \<leftarrow> translate_c_path fs pth; c \<leftarrow> as_cstr final_path; libc (k_stat K c statbuf) w }"

definition bind_openat :: "fd \<Rightarrow> path \<Rightarrow> flags \<Rightarrow> mode_t \<Rightarrow> ('k world, fd) io" where
  "bind_openat dirfd path flag mode w = Panic"

definition bind_fs_ops :: "'k kernel \<Rightarrow> bind_fs \<Rightarrow> ('k world, 'h) fs_ops" where
  "bind_fs_ops K fs =
     \<lparr>fs_id = bind_id fs, fs_access = bind_access K fs, fs_open = bind_open K fs, fs_openat = bind_openat,
      fs_mkdir = bind_mkdir K fs, fs_unlink = bind_unlink K fs, fs_rmdir = bind_rmdir K fs,
      fs_rename = bind_rename K fs, fs_chmod = bind_chmod K fs, fs_stat = bind_stat K fs,
      fs_open_with_handle = default_open_with_handle (bind_open K fs), fs_read_dir = default_read_dir\<rparr>"

section \<open>Translation\<close>

text \<open>The host path a list of names stands for.\<close>

definition host_path :: "bind_fs \<Rightarrow> string list \<Rightarrow> string" where
  "host_path fs ns = join_bytes (bind_root fs) (join_slash ns)"

lemma path_bytes_names: "path_bytes (map Normal ns) = join_slash ns"
  by (cases ns) (simp_all add: comp_def)

lemma translate_names: "translate_path fs (names_path ns) = Done (host_path fs ns)"
  by (simp add: translate_path_def names_path_def host_path_def path_bytes_names)

lemma c_path_last: "translate_c_path fs pth = Done bs \<Longrightarrow> bs \<noteq> [] \<and> last bs = CHR 0x00"
  by (auto simp: translate_c_path_def bind_eq_Some_conv split: if_splits)

text \<open>The assertion of \<open>as_cstr\<close> never fails, and the kernel sees the host path up to its first NUL.\<close>

lemma c_path_names:
  obtains b where "translate_c_path fs (names_path ns) = Done b" "as_cstr b = Done (c_string (host_path fs ns))"
proof -
  have "c_string (bs @ [CHR 0x00]) = c_string bs" for bs
    by (induction bs) (auto simp: c_string_def)
  then show thesis
    by (intro that [of "if host_path fs ns \<noteq> [] \<and> last (host_path fs ns) = CHR 0x00 then host_path fs ns
          else host_path fs ns @ [CHR 0x00]"])
       (auto simp: translate_c_path_def translate_names as_cstr_def)
qed

lemma bind_c:
  "do { b \<leftarrow> translate_c_path fs (names_path ns); c \<leftarrow> as_cstr b; f c } = f (c_string (host_path fs ns))"
  by (rule c_path_names [of fs ns]) simp

lemmas bind_op_defs =
  bind_access_def bind_open_def bind_mkdir_def bind_unlink_def bind_rmdir_def bind_chmod_def bind_stat_def

lemma bind_ops_names [vfs_simps]:
  "bind_access K fs (names_path ns) md w = libc (k_access K (c_string (host_path fs ns)) md) w"
  "bind_open K fs (names_path ns) fl mo w = libc (k_open K (c_string (host_path fs ns)) fl mo) w"
  "bind_mkdir K fs (names_path ns) mo w = libc (k_mkdir K (c_string (host_path fs ns)) mo) w"
  "bind_unlink K fs (names_path ns) w = libc (k_unlink K (c_string (host_path fs ns))) w"
  "bind_rmdir K fs (names_path ns) w = libc (k_rmdir K (c_string (host_path fs ns))) w"
  "bind_chmod K fs (names_path ns) mo w = libc (k_chmod K (c_string (host_path fs ns)) mo) w"
  "bind_stat K fs (names_path ns) sb w = libc (k_stat K (c_string (host_path fs ns)) sb) w"
  by (simp_all only: bind_op_defs bind_c)

lemma bind_rename_names [vfs_simps]:
  "bind_rename K fs (names_path ns) (names_path ms) w =
     libc (k_rename K (c_string (host_path fs ns)) (c_string (host_path fs ms))) w"
  by (rule c_path_names [of fs ns], rule c_path_names [of fs ms]) (simp add: bind_rename_def)

section \<open>The contract\<close>

lemma safe_io_eta: "(\<And>w. io w = io' w) \<Longrightarrow> safe_io ok hok io' \<Longrightarrow> safe_io ok hok io"
  by (simp add: safe_io_def)

text \<open>
  Calls of the C library change the kernel's state only, so a \<open>BindFS\<close> meets the contract for every
  invariant that does not depend on the kernel's state.
\<close>

locale host_state =
  fixes ok :: "'k world \<Rightarrow> bool"
    and hok :: "'k world \<Rightarrow> 'h \<Rightarrow> bool"
  assumes ok_kern: "ok w \<Longrightarrow> ok (w\<lparr>kern := k\<rparr>)"
    and hok_kern: "ok w \<Longrightarrow> hok w h \<Longrightarrow> hok (w\<lparr>kern := k\<rparr>) h"
begin

lemma libc_safe: "safe_io ok hok (libc call)"
  by (auto simp: safe_io_def libc_def Let_def ok_kern hok_kern split: prod.split)

end

sublocale host_state \<subseteq> bnd: backend "bind_fs_ops K fs" ok hok
  for K :: "'k kernel" and fs
proof unfold_locales
  fix p q :: path and md fl mo sb
  assume "normal_path p"
  then obtain ns where p: "p = names_path ns" by (auto simp: normal_path_iff)
  note safe = safe_io_eta [OF _ libc_safe]
  show "safe_io ok hok (fs_access (bind_fs_ops K fs) p md)"
    by (rule safe) (simp add: bind_fs_ops_def p vfs_simps)
  show "safe_io ok hok (fs_open (bind_fs_ops K fs) p fl mo)"
    by (rule safe) (simp add: bind_fs_ops_def p vfs_simps)
  show "safe_io ok hok (fs_mkdir (bind_fs_ops K fs) p mo)"
    by (rule safe) (simp add: bind_fs_ops_def p vfs_simps)
  show "safe_io ok hok (fs_unlink (bind_fs_ops K fs) p)"
    by (rule safe) (simp add: bind_fs_ops_def p vfs_simps)
  show "safe_io ok hok (fs_rmdir (bind_fs_ops K fs) p)"
    by (rule safe) (simp add: bind_fs_ops_def p vfs_simps)
  show "safe_io ok hok (fs_rename (bind_fs_ops K fs) p q)" if q: "normal_path q"
  proof -
    obtain ms where "q = names_path ms" using q by (auto simp: normal_path_iff)
    then show ?thesis by (intro safe) (simp add: bind_fs_ops_def p vfs_simps)
  qed
  show "safe_io ok hok (fs_chmod (bind_fs_ops K fs) p mo)"
    by (rule safe) (simp add: bind_fs_ops_def p vfs_simps)
  show "safe_io ok hok (fs_stat (bind_fs_ops K fs) p sb)"
    by (rule safe) (simp add: bind_fs_ops_def p vfs_simps)
  have "safe_io ok hok (bind_open K fs p fl mo)"
    by (rule safe) (simp add: p vfs_simps)
  from safe_default_open [where open_fn = "bind_open K fs", OF this]
  show "safe_open ok hok (fs_open_with_handle (bind_fs_ops K fs) p fl mo)"
    by (simp add: bind_fs_ops_def)
  show "safe_io ok hok (fs_read_dir (bind_fs_ops K fs) p)"
    by (rule safe_io_eta [OF _ safe_io_return]) (simp add: bind_fs_ops_def default_read_dir_def)
qed

text \<open>The invariant of the in-memory file systems, and that nothing but the kernel's state has changed.\<close>

interpretation host_mem: host_state "mem_ok F" handle_ok
  for F
proof unfold_locales
  fix w :: "'k world" and k
  assume "mem_ok F w"
  then show "mem_ok F (w\<lparr>kern := k\<rparr>)"
    using mem_ok_step good_step_same same_tree_kern by (metis mem_ok_def)
next
  fix w :: "'k world" and h k
  assume "mem_ok F w" "handle_ok w h"
  then show "handle_ok (w\<lparr>kern := k\<rparr>) h"
    using good_step_same same_tree_kern evolves_handle by (metis mem_ok_def good_step_def)
qed

definition kernel_only :: "'k world \<Rightarrow> 'k world \<Rightarrow> bool" where
  "kernel_only w w' \<longleftrightarrow> (\<exists>k. w' = w\<lparr>kern := k\<rparr>)"

interpretation host_frame: host_state "kernel_only w" "\<lambda>_ _. True"
  for w
  by unfold_locales (auto simp: kernel_only_def)

end
