(* ===== verification/OverlayFS.thy ===== *)
theory OverlayFS
  imports BindFS
begin

text \<open>
  \<open>src/src/impls/overlay.rs\<close>: a writable layer over one or two lower layers, each of them a trait
  object. Lookups go to the first layer that has the path; opens that may write and \<open>mkdir\<close> go to
  the top layer, after the parent directories that only the lower layers have are created in it.
\<close>

section \<open>The code\<close>

record ('s, 'h) overlay_fs =
  ov_id :: string
  ov_top :: "('s, 'h) fs_ops"
  ov_middle :: "('s, 'h) fs_ops option"
  ov_base :: "('s, 'h) fs_ops"

definition overlay_new :: "string \<Rightarrow> ('s, 'h) fs_ops \<Rightarrow> ('s, 'h) fs_ops \<Rightarrow> ('s, 'h) overlay_fs" where
  "overlay_new name top_rw_layer base =
     \<lparr>ov_id = name, ov_top = top_rw_layer, ov_middle = None, ov_base = base\<rparr>"

definition with_extra_base :: "('s, 'h) overlay_fs \<Rightarrow> ('s, 'h) fs_ops \<Rightarrow> ('s, 'h) overlay_fs" where
  "with_extra_base ov layer = ov\<lparr>ov_middle := Some layer\<rparr>"

definition visible_layer :: "('s, 'h) overlay_fs \<Rightarrow> path \<Rightarrow> ('s, ('s, 'h) fs_ops) io" where
  "visible_layer ov path s =
     do { (r, s) \<leftarrow> fs_access (ov_top ov) path F_OK s;
          if r = 0 then Done (ov_top ov, s)
          else (case ov_middle ov of
                  None \<Rightarrow> Done (ov_base ov, s)
                | Some middle \<Rightarrow>
                    do { (r, s) \<leftarrow> fs_access middle path F_OK s;
                         if r = 0 then Done (middle, s) else Done (ov_base ov, s) }) }"

definition path_exists_below_top :: "('s, 'h) overlay_fs \<Rightarrow> path \<Rightarrow> ('s, bool) io" where
  "path_exists_below_top ov path s =
     do { (mid, s) \<leftarrow> (case ov_middle ov of
                          None \<Rightarrow> Done (False, s)
                        | Some fs \<Rightarrow> do { (r, s) \<leftarrow> fs_access fs path F_OK s; Done (r = 0, s) });
          if mid then Done (True, s)
          else do { (r, s) \<leftarrow> fs_access (ov_base ov) path F_OK s; Done (r = 0, s) } }"

fun create_missing_dirs :: "('s, 'h) fs_ops \<Rightarrow> path list \<Rightarrow> ('s, unit) io" where
  "create_missing_dirs layer [] s = Done ((), s)"
| "create_missing_dirs layer (p # ps) s =
     do { (r, s) \<leftarrow> fs_access layer p F_OK s;
          (_, s) \<leftarrow> (if r \<noteq> 0 then fs_mkdir layer p MODE_755 s else Done (0, s));
          create_missing_dirs layer ps s }"

definition ensure_top_parent_dirs :: "('s, 'h) overlay_fs \<Rightarrow> path \<Rightarrow> ('s, unit) io" where
  "ensure_top_parent_dirs ov path s =
     (case parent_path path of
        None \<Rightarrow> Done ((), s)
      | Some parent_dir \<Rightarrow>
          do { (r, s) \<leftarrow> fs_access (ov_top ov) parent_dir F_OK s;
               if r = 0 then Done ((), s)
               else do { (below, s) \<leftarrow> path_exists_below_top ov parent_dir s;
                         if \<not> below then Done ((), s)
                         else create_missing_dirs (ov_top ov)
                                (filter (\<lambda>p. p \<noteq> [RootDir]) (rev (ancestors parent_dir))) s } })"

text \<open>The body of the methods that forward to the visible layer.\<close>

definition on_visible :: "('s, 'h) overlay_fs \<Rightarrow> path \<Rightarrow> (('s, 'h) fs_ops \<Rightarrow> ('s, 'a) io) \<Rightarrow> ('s, 'a) io" where
  "on_visible ov path f s = do { (fs, s) \<leftarrow> visible_layer ov path s; f fs s }"

definition overlay_access :: "('s, 'h) overlay_fs \<Rightarrow> path \<Rightarrow> int \<Rightarrow> ('s, int) io" where
  "overlay_access ov path mode =
     on_visible ov path (\<lambda>fs. if mode = F_OK then fs_access fs path F_OK else fs_access fs path mode)"

definition overlay_writes :: "flags \<Rightarrow> bool" where
  "overlay_writes oflag = (oflag AND (O_WRONLY OR O_RDWR OR O_APPEND OR O_CREAT OR O_TRUNC) \<noteq> 0)"

definition overlay_open :: "('s, 'h) overlay_fs \<Rightarrow> path \<Rightarrow> flags \<Rightarrow> mode_t \<Rightarrow> ('s, fd) io" where
  "overlay_open ov path oflag mode s =
     (if overlay_writes oflag
      then do { (_, s) \<leftarrow> ensure_top_parent_dirs ov path s; fs_open (ov_top ov) path oflag mode s }
      else on_visible ov path (\<lambda>fs. fs_open fs path oflag mode) s)"

definition overlay_open_with_handle ::
  "('s, 'h) overlay_fs \<Rightarrow> path \<Rightarrow> flags \<Rightarrow> mode_t \<Rightarrow> ('s, 'h open_result) io" where
  "overlay_open_with_handle ov path oflag mode s =
     (if overlay_writes oflag
      then do { (_, s) \<leftarrow> ensure_top_parent_dirs ov path s; fs_open_with_handle (ov_top ov) path oflag mode s }
      else on_visible ov path (\<lambda>fs. fs_open_with_handle fs path oflag mode) s)"

definition overlay_openat :: "('s, 'h) overlay_fs \<Rightarrow> fd \<Rightarrow> path \<Rightarrow> flags \<Rightarrow> mode_t \<Rightarrow> ('s, fd) io" where
  "overlay_openat ov dirfd path flag mode = overlay_open ov path flag mode"

definition overlay_mkdir :: "('s, 'h) overlay_fs \<Rightarrow> path \<Rightarrow> mode_t \<Rightarrow> ('s, int) io" where
  "overlay_mkdir ov path mode s =
     do { (_, s) \<leftarrow> ensure_top_parent_dirs ov path s; fs_mkdir (ov_top ov) path mode s }"

definition overlay_unlink :: "('s, 'h) overlay_fs \<Rightarrow> path \<Rightarrow> ('s, int) io" where
  "overlay_unlink ov path s =
     do { (r, s) \<leftarrow> fs_access (ov_top ov) path F_OK s;
          if r = 0 then fs_unlink (ov_top ov) path s
          else on_visible ov path (\<lambda>fs. fs_unlink fs path) s }"

definition overlay_rmdir :: "('s, 'h) overlay_fs \<Rightarrow> path \<Rightarrow> ('s, int) io" where
  "overlay_rmdir ov path s =
     do { (r, s) \<leftarrow> fs_access (ov_top ov) path F_OK s;
          if r = 0 then fs_rmdir (ov_top ov) path s
          else on_visible ov path (\<lambda>fs. fs_rmdir fs path) s }"

definition overlay_rename :: "('s, 'h) overlay_fs \<Rightarrow> path \<Rightarrow> path \<Rightarrow> ('s, int) io" where
  "overlay_rename ov old_path new_path s =
     do { (r, s) \<leftarrow> fs_access (ov_top ov) old_path F_OK s;
          if r = 0
          then do { (_, s) \<leftarrow> ensure_top_parent_dirs ov new_path s; fs_rename (ov_top ov) old_path new_path s }
          else on_visible ov old_path (\<lambda>fs. fs_rename fs old_path new_path) s }"

definition overlay_chmod :: "('s, 'h) overlay_fs \<Rightarrow> path \<Rightarrow> mode_t \<Rightarrow> ('s, int) io" where
  "overlay_chmod ov path mode = on_visible ov path (\<lambda>fs. fs_chmod fs path mode)"

definition overlay_stat :: "('s, 'h) overlay_fs \<Rightarrow> path \<Rightarrow> stat_buf \<Rightarrow> ('s, int \<times> stat_buf) io" where
  "overlay_stat ov path statbuf = on_visible ov path (\<lambda>fs. fs_stat fs path statbuf)"

text \<open>The inner loop of \<open>read_dir\<close>: entries whose name was seen in an upper layer are dropped.\<close>

fun merge_entries :: "vfs_dir_entry list \<Rightarrow> vfs_dir_entry list \<Rightarrow> vfs_dir_entry list" where
  "merge_entries entries [] = entries"
| "merge_entries entries (entry # layer_entries) =
     merge_entries
       (if \<exists>existing \<in> set entries. de_name existing = de_name entry then entries else entries @ [entry])
       layer_entries"

fun read_layers ::
  "('s, 'h) fs_ops list \<Rightarrow> path \<Rightarrow> vfs_dir_entry list \<Rightarrow> bool \<Rightarrow> ('s, vfs_dir_entry list option) io" where
  "read_layers [] path entries saw s = Done (if saw then Some entries else None, s)"
| "read_layers (layer # layers) path entries saw s =
     do { (r, s) \<leftarrow> fs_read_dir layer path s;
          (case r of
             None \<Rightarrow> read_layers layers path entries saw s
           | Some layer_entries \<Rightarrow> read_layers layers path (merge_entries entries layer_entries) True s) }"

definition overlay_layers :: "('s, 'h) overlay_fs \<Rightarrow> ('s, 'h) fs_ops list" where
  "overlay_layers ov =
     [ov_top ov] @ (case ov_middle ov of None \<Rightarrow> [] | Some m \<Rightarrow> [m]) @ [ov_base ov]"

definition overlay_read_dir :: "('s, 'h) overlay_fs \<Rightarrow> path \<Rightarrow> ('s, vfs_dir_entry list option) io" where
  "overlay_read_dir ov path = read_layers (overlay_layers ov) path [] False"

definition overlay_fs_ops :: "('s, 'h) overlay_fs \<Rightarrow> ('s, 'h) fs_ops" where
  "overlay_fs_ops ov =
     \<lparr>fs_id = ov_id ov, fs_access = overlay_access ov, fs_open = overlay_open ov, fs_openat = overlay_openat ov,
      fs_mkdir = overlay_mkdir ov, fs_unlink = overlay_unlink ov, fs_rmdir = overlay_rmdir ov,
      fs_rename = overlay_rename ov, fs_chmod = overlay_chmod ov, fs_stat = overlay_stat ov,
      fs_open_with_handle = overlay_open_with_handle ov, fs_read_dir = overlay_read_dir ov\<rparr>"

section \<open>An overlay of backends is a backend\<close>

locale layered =
  top: backend "ov_top ov" ok hok + base: backend "ov_base ov" ok hok
  for ov :: "('s, 'h) overlay_fs" and ok hok +
  assumes middle: "ov_middle ov = Some m \<Longrightarrow> backend m ok hok"
begin

lemma layer_backend: "fs \<in> set (overlay_layers ov) \<Longrightarrow> backend fs ok hok"
  using top.backend_axioms base.backend_axioms middle by (auto simp: overlay_layers_def split: option.splits)

lemma visible_layer_in:
  assumes "normal_path p" "ok s"
  shows "\<exists>fs s'. visible_layer ov p s = Done (fs, s') \<and> fs \<in> set (overlay_layers ov) \<and> ok s' \<and>
           (\<forall>h. hok s h \<longrightarrow> hok s' h)"
proof -
  obtain r s1 where 1: "fs_access (ov_top ov) p F_OK s = Done (r, s1)" "ok s1" "\<forall>h. hok s h \<longrightarrow> hok s1 h"
    using safe_ioD [OF top.access_safe] assms by blast
  show ?thesis
  proof (cases "ov_middle ov")
    case None
    then show ?thesis using 1 by (auto simp: visible_layer_def overlay_layers_def)
  next
    case (Some m)
    obtain r' s2 where 2: "fs_access m p F_OK s1 = Done (r', s2)" "ok s2" "\<forall>h. hok s1 h \<longrightarrow> hok s2 h"
      using safe_ioD [OF backend.access_safe [OF middle [OF Some] assms(1)] 1(2)] by blast
    then show ?thesis using 1 Some by (auto simp: visible_layer_def overlay_layers_def)
  qed
qed

lemma on_visible_safe:
  assumes p: "normal_path p" and f: "\<And>fs. backend fs ok hok \<Longrightarrow> safe_io ok hok (f fs)"
  shows "safe_io ok hok (on_visible ov p f)"
  unfolding safe_io_def
proof (intro allI impI)
  fix s assume "ok s"
  with visible_layer_in [OF p] obtain fs s1 where v: "visible_layer ov p s = Done (fs, s1)"
    "fs \<in> set (overlay_layers ov)" "ok s1" "\<forall>h. hok s h \<longrightarrow> hok s1 h" by blast
  from safe_ioD [OF f [OF layer_backend [OF v(2)]] v(3)] v(1,4)
  show "\<exists>r s'. on_visible ov p f s = Done (r, s') \<and> ok s' \<and> (\<forall>h. hok s h \<longrightarrow> hok s' h)"
    by (auto simp: on_visible_def)
qed

lemma on_visible_open:
  assumes p: "normal_path p" and f: "\<And>fs. backend fs ok hok \<Longrightarrow> safe_open ok hok (f fs)"
  shows "safe_open ok hok (on_visible ov p f)"
  unfolding safe_open_def
proof (intro allI impI)
  fix s assume "ok s"
  with visible_layer_in [OF p] obtain fs s1 where v: "visible_layer ov p s = Done (fs, s1)"
    "fs \<in> set (overlay_layers ov)" "ok s1" "\<forall>h. hok s h \<longrightarrow> hok s1 h" by blast
  from safe_openD [OF f [OF layer_backend [OF v(2)]] v(3)] v(1,4)
  show "\<exists>r s'. on_visible ov p f s = Done (r, s') \<and> ok s' \<and> (\<forall>h. hok s h \<longrightarrow> hok s' h) \<and>
      (\<forall>h. or_opened r = Some h \<longrightarrow> hok s' h)"
    by (auto simp: on_visible_def)
qed

lemma below_top_safe: "normal_path p \<Longrightarrow> safe_io ok hok (path_exists_below_top ov p)"
  unfolding path_exists_below_top_def
proof (rule safe_io_bind)
  fix mid assume p: "normal_path p"
  show "safe_io ok hok (\<lambda>s. if mid then Done (True, s)
      else do { (r, s) \<leftarrow> fs_access (ov_base ov) p F_OK s; Done (r = 0, s) })"
    using safe_io_bind [OF base.access_safe [OF p] safe_io_return] safe_io_return by (cases mid) auto
next
  assume p: "normal_path p"
  show "safe_io ok hok (\<lambda>s. case ov_middle ov of None \<Rightarrow> Done (False, s)
      | Some fs \<Rightarrow> do { (r, s) \<leftarrow> fs_access fs p F_OK s; Done (r = 0, s) })"
    using safe_io_return
    by (cases "ov_middle ov") (auto intro: safe_io_map [OF backend.access_safe [OF middle p]])
qed

lemma create_missing_safe: "list_all normal_path ps \<Longrightarrow> safe_io ok hok (create_missing_dirs (ov_top ov) ps)"
proof (induction ps)
  case Nil
  then show ?case using safe_io_return [of ok hok "()"] by (simp add: safe_io_def)
next
  case (Cons p ps)
  have p: "normal_path p" and ps: "safe_io ok hok (create_missing_dirs (ov_top ov) ps)" using Cons by auto
  have "safe_io ok hok (\<lambda>s. do { (r, s) \<leftarrow> fs_access (ov_top ov) p F_OK s;
      (\<lambda>r s. do { (_, s) \<leftarrow> (\<lambda>s. if r \<noteq> 0 then fs_mkdir (ov_top ov) p MODE_755 s else Done (0, s)) s;
                  create_missing_dirs (ov_top ov) ps s }) r s })"
  proof (rule safe_io_bind [OF top.access_safe [OF p]], rule safe_io_bind [OF _ ps])
    show "safe_io ok hok (\<lambda>s. if r \<noteq> 0 then fs_mkdir (ov_top ov) p MODE_755 s else Done (0, s))" for r :: int
      using top.mkdir_safe [OF p] safe_io_return by (cases "r = 0") auto
  qed
  then show ?case by (simp add: safe_io_def)
qed

lemma ensure_safe:
  assumes "normal_path p"
  shows "safe_io ok hok (ensure_top_parent_dirs ov p)"
proof -
  obtain ns where p: "p = names_path ns" and ns: "list_all valid_name ns" using assms by (auto simp: normal_path_iff)
  show ?thesis
  proof (cases "ns = []")
    case True
    then show ?thesis using safe_io_return [of ok hok "()"]
      by (simp add: p ensure_top_parent_dirs_def path_simps safe_io_def)
  next
    case False
    let ?d = "names_path (butlast ns)"
    have np: "normal_path (names_path (take k ns))" for k
      using valid_names_take [OF ns] by (auto simp: normal_path_iff)
    have d: "normal_path ?d" using np [of "length ns - 1"] by (simp add: butlast_conv_take)
    have "normal_path (names_path qs)" if "prefix qs (butlast ns)" for qs
      using set_mono_prefix [OF that] ns by (auto simp: normal_path_iff list_all_iff dest: in_set_butlastD)
    then have ps: "list_all normal_path (filter (\<lambda>p. p \<noteq> [RootDir]) (rev (ancestors ?d)))"
      by (auto simp: path_simps list_all_iff)
    have "safe_io ok hok (\<lambda>s. do { (r, s) \<leftarrow> fs_access (ov_top ov) ?d F_OK s;
        (\<lambda>r s. if r = 0 then Done ((), s)
          else do { (below, s) \<leftarrow> path_exists_below_top ov ?d s;
             (\<lambda>below s. if \<not> below then Done ((), s)
               else create_missing_dirs (ov_top ov) (filter (\<lambda>p. p \<noteq> [RootDir]) (rev (ancestors ?d))) s) below s }) r s })"
    proof (rule safe_io_bind [OF top.access_safe [OF d]])
      have 1: "safe_io ok hok (\<lambda>s. if \<not> below then Done ((), s)
          else create_missing_dirs (ov_top ov) (filter (\<lambda>p. p \<noteq> [RootDir]) (rev (ancestors ?d))) s)" for below
        using create_missing_safe [OF ps] safe_io_return by (cases below) auto
      show "safe_io ok hok (\<lambda>s. if r = 0 then Done ((), s)
          else do { (below, s) \<leftarrow> path_exists_below_top ov ?d s;
             (\<lambda>below s. if \<not> below then Done ((), s)
               else create_missing_dirs (ov_top ov) (filter (\<lambda>p. p \<noteq> [RootDir]) (rev (ancestors ?d))) s) below s })" for r :: int
        using safe_io_bind [OF below_top_safe [OF d] 1] safe_io_return by (cases "r = 0") auto
    qed
    then show ?thesis using False by (simp add: ensure_top_parent_dirs_def [abs_def] p path_simps)
  qed
qed

lemma read_layers_safe:
  "(\<And>fs. fs \<in> set ls \<Longrightarrow> backend fs ok hok) \<Longrightarrow> normal_path p \<Longrightarrow> safe_io ok hok (read_layers ls p es saw)"
proof (induction ls arbitrary: es saw)
  case Nil
  then show ?case by (auto simp: safe_io_def)
next
  case (Cons l ls)
  have l: "safe_io ok hok (fs_read_dir l p)" using Cons.prems by (intro backend.read_dir_safe) auto
  have "safe_io ok hok (\<lambda>s. case r of None \<Rightarrow> read_layers ls p es saw s
      | Some layer_entries \<Rightarrow> read_layers ls p (merge_entries es layer_entries) True s)" for r
    using Cons by (cases r) auto
  from safe_io_bind [OF l this] show ?case by (simp add: safe_io_def)
qed

end

sublocale layered \<subseteq> overlay: backend "overlay_fs_ops ov" ok hok
proof unfold_locales
  fix p q :: path and md fl mo sb
  assume p: "normal_path p"
  note vis = on_visible_safe [OF p]
  show "safe_io ok hok (fs_access (overlay_fs_ops ov) p md)"
    unfolding overlay_fs_ops_def overlay_access_def fs_ops.simps
    by (rule vis) (simp add: backend.access_safe [OF _ p])
  show "safe_io ok hok (fs_open (overlay_fs_ops ov) p fl mo)"
  proof (cases "overlay_writes fl")
    case True
    then show ?thesis
      using safe_io_bind [OF ensure_safe [OF p] top.open_safe [OF p, of fl mo]]
      by (simp add: overlay_fs_ops_def overlay_open_def [abs_def])
  next
    case False
    have "safe_io ok hok (on_visible ov p (\<lambda>fs. fs_open fs p fl mo))" by (rule vis) (rule backend.open_safe [OF _ p])
    then show ?thesis using False by (simp add: overlay_fs_ops_def overlay_open_def [abs_def])
  qed
  show "safe_io ok hok (fs_mkdir (overlay_fs_ops ov) p mo)"
    using safe_io_bind [OF ensure_safe [OF p] top.mkdir_safe [OF p]]
    by (simp add: overlay_fs_ops_def overlay_mkdir_def [abs_def])
  have cond: "safe_io ok hok (\<lambda>s. do { (r, s) \<leftarrow> fs_access (ov_top ov) p F_OK s; if r = 0 then f s else g s })"
    if "safe_io ok hok f" "safe_io ok hok g" for f g :: "'s \<Rightarrow> (int \<times> 's) outcome"
  proof (rule safe_io_bind [OF top.access_safe [OF p]])
    show "safe_io ok hok (\<lambda>s. if r = 0 then f s else g s)" for r :: int using that by (cases "r = 0") auto
  qed
  show "safe_io ok hok (fs_unlink (overlay_fs_ops ov) p)"
    unfolding overlay_fs_ops_def fs_ops.simps overlay_unlink_def [abs_def]
    by (rule cond [OF top.unlink_safe [OF p] vis]) (rule backend.unlink_safe [OF _ p])
  show "safe_io ok hok (fs_rmdir (overlay_fs_ops ov) p)"
    unfolding overlay_fs_ops_def fs_ops.simps overlay_rmdir_def [abs_def]
    by (rule cond [OF top.rmdir_safe [OF p] vis]) (rule backend.rmdir_safe [OF _ p])
  show "safe_io ok hok (fs_rename (overlay_fs_ops ov) p q)" if q: "normal_path q"
    unfolding overlay_fs_ops_def fs_ops.simps overlay_rename_def [abs_def]
    by (rule cond [OF safe_io_bind [OF ensure_safe [OF q] top.rename_safe [OF p q]] vis])
       (rule backend.rename_safe [OF _ p q])
  show "safe_io ok hok (fs_chmod (overlay_fs_ops ov) p mo)"
    unfolding overlay_fs_ops_def fs_ops.simps overlay_chmod_def
    by (rule vis) (rule backend.chmod_safe [OF _ p])
  show "safe_io ok hok (fs_stat (overlay_fs_ops ov) p sb)"
    unfolding overlay_fs_ops_def fs_ops.simps overlay_stat_def
    by (rule vis) (rule backend.stat_safe [OF _ p])
  show "safe_open ok hok (fs_open_with_handle (overlay_fs_ops ov) p fl mo)"
  proof (cases "overlay_writes fl")
    case True
    then show ?thesis
      using safe_open_bind [OF ensure_safe [OF p] top.open_with_handle_safe [OF p, of fl mo]]
      by (simp add: overlay_fs_ops_def overlay_open_with_handle_def [abs_def])
  next
    case False
    have "safe_open ok hok (on_visible ov p (\<lambda>fs. fs_open_with_handle fs p fl mo))"
      by (rule on_visible_open [OF p]) (rule backend.open_with_handle_safe [OF _ p])
    then show ?thesis using False by (simp add: overlay_fs_ops_def overlay_open_with_handle_def [abs_def])
  qed
  show "safe_io ok hok (fs_read_dir (overlay_fs_ops ov) p)"
    unfolding overlay_fs_ops_def fs_ops.simps overlay_read_dir_def
    by (rule read_layers_safe [OF layer_backend p])
qed

text \<open>The overlays the program builds: two host directories, and in-memory layers.\<close>

interpretation host_overlay: layered "overlay_new name (bind_fs_ops K upper) (bind_fs_ops K lower)" "mem_ok F" handle_ok
  for name and K :: "'k kernel" and upper lower F
  by (rule layered.intro) (simp_all add: overlay_new_def layered_axioms_def host_mem.bnd.backend_axioms)

text \<open>It changes nothing but the kernel's state.\<close>

interpretation host_overlay_frame: layered "overlay_new name (bind_fs_ops K upper) (bind_fs_ops K lower)"
    "kernel_only w" "\<lambda>_ _. True"
  for name and K :: "'k kernel" and upper lower w
  by (rule layered.intro) (simp_all add: overlay_new_def layered_axioms_def host_frame.bnd.backend_axioms)

text \<open>An overlay of in-memory file systems, with or without a middle layer.\<close>

definition memory_overlay ::
  "'k kernel \<Rightarrow> string \<Rightarrow> memory_fs \<Rightarrow> memory_fs option \<Rightarrow> memory_fs \<Rightarrow> ('k world, opened_file) overlay_fs" where
  "memory_overlay K name upper mid lower =
     (let ov = overlay_new name (memory_fs_ops K upper) (memory_fs_ops K lower)
      in (case mid of None \<Rightarrow> ov | Some m \<Rightarrow> with_extra_base ov (memory_fs_ops K m)))"

lemma memory_overlay_fields [vfs_simps]:
  "ov_top (memory_overlay K name upper mid lower) = memory_fs_ops K upper"
  "ov_middle (memory_overlay K name upper mid lower) = map_option (memory_fs_ops K) mid"
  "ov_base (memory_overlay K name upper mid lower) = memory_fs_ops K lower"
  by (simp_all add: memory_overlay_def overlay_new_def with_extra_base_def Let_def split: option.splits)

interpretation mem_overlay: layered "memory_overlay K name upper mid lower"
    "mem_ok (insert upper (insert lower (set_option mid \<union> F)))" handle_ok
  for K :: "'k kernel" and name upper mid lower F
proof (rule layered.intro)
  let ?F = "insert upper (insert lower (set_option mid \<union> F))"
  have l: "backend (memory_fs_ops K fs) (mem_ok ?F) handle_ok" if "fs \<in> ?F" for fs
    using mem.backend_axioms [of K fs ?F] that by (simp add: insert_absorb)
  show "backend (ov_top (memory_overlay K name upper mid lower)) (mem_ok ?F) handle_ok"
    "backend (ov_base (memory_overlay K name upper mid lower)) (mem_ok ?F) handle_ok"
    using l by (simp_all add: vfs_simps)
  show "layered_axioms (memory_overlay K name upper mid lower) (mem_ok ?F) handle_ok"
    using l by (auto simp: layered_axioms_def vfs_simps)
qed

end
