(* ===== verification/OverlayProps.thy ===== *)
theory OverlayProps
  imports OverlayFS MemoryProps
begin

text \<open>
  What an overlay of in-memory layers shows and changes: lookups show the first layer that has
  the path, writes go to the top layer, listings are merged, and removals act on one layer only.
\<close>

section \<open>The layers seen as one\<close>

definition layer_list :: "memory_fs \<Rightarrow> memory_fs option \<Rightarrow> memory_fs \<Rightarrow> memory_fs list" where
  "layer_list upper mid lower = upper # (case mid of None \<Rightarrow> [] | Some m \<Rightarrow> [m]) @ [lower]"

text \<open>The first layer that has the path; the base if none has.\<close>

definition shown_by :: "'k world \<Rightarrow> memory_fs \<Rightarrow> memory_fs option \<Rightarrow> memory_fs \<Rightarrow> string list \<Rightarrow> memory_fs" where
  "shown_by w upper mid lower ns =
     (case List.find (\<lambda>l. abs_fs w l ns \<noteq> None) (layer_list upper mid lower) of None \<Rightarrow> lower | Some l \<Rightarrow> l)"

definition layers_ok :: "'k world \<Rightarrow> memory_fs \<Rightarrow> memory_fs option \<Rightarrow> memory_fs \<Rightarrow> bool" where
  "layers_ok w upper mid lower \<longleftrightarrow> world_inv w \<and> (\<forall>l \<in> set (layer_list upper mid lower). live w l) \<and>
     distinct (map mem_nodes (layer_list upper mid lower))"

lemma layers_okD:
  "layers_ok w upper mid lower \<Longrightarrow> world_inv w"
  "layers_ok w upper mid lower \<Longrightarrow> l \<in> set (layer_list upper mid lower) \<Longrightarrow> live w l"
  by (simp_all add: layers_ok_def)

lemma layer_list_in:
  "upper \<in> set (layer_list upper mid lower)" "lower \<in> set (layer_list upper mid lower)"
  by (auto simp: layer_list_def)

lemma mem_access_names:
  "world_inv w \<Longrightarrow> live w fs \<Longrightarrow>
     mem_access fs (names_path ns) md w = Done (if abs_fs w fs ns = None then -1 else 0, w)"
  by (cases "view w fs ns") (simp_all add: mem_access_def resolve_view abs_fs_def)

lemma mem_ops_sel [vfs_simps]:
  "fs_access (memory_fs_ops K fs) = mem_access fs" "fs_mkdir (memory_fs_ops K fs) = mem_mkdir K fs"
  "fs_unlink (memory_fs_ops K fs) = mem_unlink fs" "fs_rmdir (memory_fs_ops K fs) = mem_rmdir fs"
  "fs_stat (memory_fs_ops K fs) = mem_stat K fs" "fs_read_dir (memory_fs_ops K fs) = mem_read_dir fs"
  "fs_open (memory_fs_ops K fs) = mem_open K fs" "fs_rename (memory_fs_ops K fs) = mem_rename fs"
  "fs_chmod (memory_fs_ops K fs) = mem_chmod K fs"
  "fs_open_with_handle (memory_fs_ops K fs) = mem_open_with_handle K fs"
  by (simp_all add: memory_fs_ops_def)

lemma visible_shown:
  assumes "layers_ok w upper mid lower"
  shows "visible_layer (memory_overlay K name upper mid lower) (names_path ns) w =
           Done (memory_fs_ops K (shown_by w upper mid lower ns), w)"
proof -
  have acc: "mem_access l (names_path ns) md w = Done (if abs_fs w l ns = None then -1 else 0, w)"
    if "l \<in> set (layer_list upper mid lower)" for l md
    using mem_access_names layers_okD [OF assms] that by blast
  show ?thesis
  proof (cases mid)
    case None
    then show ?thesis
      using acc by (simp add: visible_layer_def vfs_simps shown_by_def layer_list_def)
  next
    case (Some m)
    then show ?thesis
      using acc by (simp add: visible_layer_def vfs_simps shown_by_def layer_list_def)
  qed
qed

lemma shown_Some:
  "List.find (\<lambda>l. abs_fs w l ns \<noteq> None) (layer_list upper mid lower) = Some l \<Longrightarrow>
     shown_by w upper mid lower ns = l \<and> l \<in> set (layer_list upper mid lower) \<and> abs_fs w l ns \<noteq> None"
proof (intro conjI)
  assume f: "List.find (\<lambda>l. abs_fs w l ns \<noteq> None) (layer_list upper mid lower) = Some l"
  show "shown_by w upper mid lower ns = l" by (simp only: shown_by_def f option.case)
  show "l \<in> set (layer_list upper mid lower)" "abs_fs w l ns \<noteq> None"
    using f by (auto simp: find_Some_iff simp del: not_None_eq)
qed

lemma shown_None:
  "List.find (\<lambda>l. abs_fs w l ns \<noteq> None) (layer_list upper mid lower) = None \<Longrightarrow>
     shown_by w upper mid lower ns = lower \<and> (\<forall>l \<in> set (layer_list upper mid lower). abs_fs w l ns = None)"
proof (intro conjI)
  assume f: "List.find (\<lambda>l. abs_fs w l ns \<noteq> None) (layer_list upper mid lower) = None"
  show "shown_by w upper mid lower ns = lower" by (simp only: shown_by_def f option.case)
  show "\<forall>l \<in> set (layer_list upper mid lower). abs_fs w l ns = None"
    using f by (auto simp: find_None_iff simp del: not_None_eq)
qed

lemma shown_in: "shown_by w upper mid lower ns \<in> set (layer_list upper mid lower)"
  using shown_Some [of w ns upper mid lower] shown_None [of w ns upper mid lower] layer_list_in(2)
  by (cases "List.find (\<lambda>l. abs_fs w l ns \<noteq> None) (layer_list upper mid lower)") metis+

lemma shown_absent:
  "abs_fs w (shown_by w upper mid lower ns) ns = None \<longleftrightarrow>
     (\<forall>l \<in> set (layer_list upper mid lower). abs_fs w l ns = None)"
  using shown_Some [of w ns upper mid lower] shown_None [of w ns upper mid lower] layer_list_in(2) [of lower upper mid]
  by (cases "List.find (\<lambda>l. abs_fs w l ns \<noteq> None) (layer_list upper mid lower)") metis+

lemma on_visible_shown:
  "layers_ok w upper mid lower \<Longrightarrow>
     on_visible (memory_overlay K name upper mid lower) (names_path ns) f w =
       f (memory_fs_ops K (shown_by w upper mid lower ns)) w"
  by (simp add: on_visible_def visible_shown)

section \<open>Lookups\<close>

text \<open>An overlay shows the first layer, from the top, that has the path: \<open>access\<close> succeeds exactly if
  some layer has it, and \<open>stat\<close> reports the inode that this layer has there.\<close>

theorem overlay_shows_first_layer:
  assumes "layers_ok w upper mid lower"
  shows "overlay_access (memory_overlay K name upper mid lower) (names_path ns) md w =
           Done (if \<exists>l \<in> set (layer_list upper mid lower). abs_fs w l ns \<noteq> None then 0 else -1, w) \<and>
     (\<exists>r sb' w'. overlay_stat (memory_overlay K name upper mid lower) (names_path ns) sb w = Done ((r, sb'), w') \<and>
        (case List.find (\<lambda>l. abs_fs w l ns \<noteq> None) (layer_list upper mid lower) of
           None \<Rightarrow> r = -1 \<and> sb' = sb
         | Some l \<Rightarrow> r = 0 \<and> st_ino sb' = of_nat (fst (the (abs_fs w l ns)))))"
proof
  let ?l = "shown_by w upper mid lower ns"
  have w: "world_inv w" and l: "live w ?l" using layers_okD [OF assms] shown_in by blast+
  note none = shown_absent [of w upper mid lower ns]
  show "overlay_access (memory_overlay K name upper mid lower) (names_path ns) md w =
      Done (if \<exists>l \<in> set (layer_list upper mid lower). abs_fs w l ns \<noteq> None then 0 else -1, w)"
    using none mem_access_names [OF w l]
    by (auto simp: overlay_access_def on_visible_shown [OF assms] vfs_simps)
  show "\<exists>r sb' w'. overlay_stat (memory_overlay K name upper mid lower) (names_path ns) sb w = Done ((r, sb'), w') \<and>
        (case List.find (\<lambda>l. abs_fs w l ns \<noteq> None) (layer_list upper mid lower) of
           None \<Rightarrow> r = -1 \<and> sb' = sb
         | Some l \<Rightarrow> r = 0 \<and> st_ino sb' = of_nat (fst (the (abs_fs w l ns))))"
  proof (cases "List.find (\<lambda>l. abs_fs w l ns \<noteq> None) (layer_list upper mid lower)")
    case None
    then have "abs_fs w ?l ns = None" using shown_None [OF None] none by simp
    then show ?thesis
      using stat_lemma [OF w l, of K ns sb] None
      by (auto simp: overlay_stat_def on_visible_shown [OF assms] vfs_simps simp del: not_None_eq)
  next
    case (Some l')
    then have "l' = ?l" "abs_fs w ?l ns \<noteq> None" using shown_Some [OF Some] by auto
    then show ?thesis
      using stat_lemma [OF w l, of K ns sb] Some
      by (auto simp: overlay_stat_def on_visible_shown [OF assms] vfs_simps simp del: not_None_eq split: option.splits)
  qed
qed

text \<open>The sample world with a second, empty file system as the upper layer.\<close>

definition sample_upper :: memory_fs where
  "sample_upper = \<lparr>mem_id = ''top'', mem_root = 4, mem_nodes = 4\<rparr>"

definition sample_two :: "nat world" where
  "sample_two = snd (memory_fs_new sample_kernel ''top'' sample_world)"

lemma sample_two_ok: "layers_ok sample_two sample_upper None sample_fs"
proof -
  have "fst (memory_fs_new sample_kernel ''top'' sample_world) = sample_upper" by code_simp
  then have n: "memory_fs_new sample_kernel ''top'' sample_world = (sample_upper, sample_two)"
    by (simp add: sample_two_def prod_eq_iff)
  note s = memory_fs_new_step [OF sample_ok(1) n]
  then show ?thesis
    using evolves_live [OF _ sample_ok(2)]
    by (simp add: layers_ok_def layer_list_def good_step_def sample_upper_def sample_fs_def)
qed

theorem overlay_shows_first_layer_witness:
  "overlay_access (memory_overlay sample_kernel ''o'' sample_upper None sample_fs) (names_path [''d'', ''f'']) 0 sample_two =
     Done (0, sample_two)"
proof -
  have "abs_fs sample_two sample_fs [''d'', ''f''] = Some (3, FileKind)" by code_simp
  then have "\<exists>l \<in> set (layer_list sample_upper None sample_fs). abs_fs sample_two l [''d'', ''f''] \<noteq> None"
    using layer_list_in(2) [of sample_fs sample_upper None] by auto
  then show ?thesis
    using overlay_shows_first_layer [OF sample_two_ok, of sample_kernel "''o''" "[''d'', ''f'']" 0 zeroed_stat] by simp
qed

section \<open>Removals\<close>

lemma overlay_remove_eq:
  assumes "layers_ok w upper mid lower"
  shows "overlay_unlink (memory_overlay K name upper mid lower) (names_path ns) w =
           mem_unlink (shown_by w upper mid lower ns) (names_path ns) w"
    and "overlay_rmdir (memory_overlay K name upper mid lower) (names_path ns) w =
           mem_rmdir (shown_by w upper mid lower ns) (names_path ns) w"
proof -
  have l: "world_inv w" "live w upper" using layers_okD [OF assms] layer_list_in by blast+
  have "shown_by w upper mid lower ns = upper" if "abs_fs w upper ns \<noteq> None"
    using that by (simp add: shown_by_def layer_list_def del: not_None_eq)
  then show "overlay_unlink (memory_overlay K name upper mid lower) (names_path ns) w =
           mem_unlink (shown_by w upper mid lower ns) (names_path ns) w"
    and "overlay_rmdir (memory_overlay K name upper mid lower) (names_path ns) w =
           mem_rmdir (shown_by w upper mid lower ns) (names_path ns) w"
    using mem_access_names [OF l, of ns 0]
    by (auto simp: overlay_unlink_def overlay_rmdir_def on_visible_shown [OF assms] vfs_simps simp del: not_None_eq)
qed

lemma others_unchanged:
  assumes "layers_ok w upper mid lower" "l \<in> set (layer_list upper mid lower)" "l' \<in> set (layer_list upper mid lower)"
    and "l' \<noteq> l" "only_map (mem_nodes l) w w'"
  shows "abs_fs w' l' = abs_fs w l'"
proof -
  have "mem_nodes l' \<noteq> mem_nodes l"
    using assms(1-4) by (auto simp: layers_ok_def distinct_map inj_on_def)
  then show ?thesis using only_map_abs layers_okD [OF assms(1)] assms(3,5) by blast
qed

lemma remove_in_layer:
  assumes ok: "layers_ok w upper mid lower" and lin: "l \<in> set (layer_list upper mid lower)"
  shows "\<exists>r w'. remove_node_at (names_path ns) (mem_nodes l) (mem_root l) kind w = Done (r, w') \<and>
       (case spec_remove (abs_fs w l) ns kind of
          None \<Rightarrow> r = -1 \<and> w' = w
        | Some t \<Rightarrow> r = 0 \<and> abs_fs w' l = t \<and>
            (\<forall>l' \<in> set (layer_list upper mid lower). l' \<noteq> l \<longrightarrow> abs_fs w' l' = abs_fs w l'))"
proof -
  note w = layers_okD(1) [OF ok] and lv = layers_okD(2) [OF ok lin]
  obtain r w' where r: "remove_node_at (names_path ns) (mem_nodes l) (mem_root l) kind w = Done (r, w')"
    "case spec_remove (abs_fs w l) ns kind of None \<Rightarrow> r = -1 \<and> w' = w | Some t \<Rightarrow> r = 0 \<and> abs_fs w' l = t"
    using remove_refines [OF w lv, of ns kind] by blast
  have "only_map (mem_nodes l) w w'" by (rule remove_only_map [OF w lv names_path_absolute r(1)])
  then show ?thesis using r others_unchanged [OF ok lin] by (auto split: option.splits)
qed

text \<open>C24: \<open>unlink\<close> and \<open>rmdir\<close> of an overlay act on the layer that shows the path and on no other: there they
  are the removal of that layer. So a path that only a lower layer has is removed from the lower
  layer, and a removed path that a lower layer also has is visible again.\<close>

theorem overlay_removes_from_shown_layer:
  assumes ok: "layers_ok w upper mid lower" and l: "l = shown_by w upper mid lower ns"
  shows "(\<exists>r w'. overlay_unlink (memory_overlay K name upper mid lower) (names_path ns) w = Done (r, w') \<and>
       (case spec_remove (abs_fs w l) ns FileKind of
          None \<Rightarrow> r = -1 \<and> w' = w
        | Some t \<Rightarrow> r = 0 \<and> abs_fs w' l = t \<and>
            (\<forall>l' \<in> set (layer_list upper mid lower). l' \<noteq> l \<longrightarrow> abs_fs w' l' = abs_fs w l'))) \<and>
     (\<exists>r w'. overlay_rmdir (memory_overlay K name upper mid lower) (names_path ns) w = Done (r, w') \<and>
       (case spec_remove (abs_fs w l) ns DirKind of
          None \<Rightarrow> r = -1 \<and> w' = w
        | Some t \<Rightarrow> r = 0 \<and> abs_fs w' l = t \<and>
            (\<forall>l' \<in> set (layer_list upper mid lower). l' \<noteq> l \<longrightarrow> abs_fs w' l' = abs_fs w l')))"
  unfolding overlay_remove_eq [OF ok] mem_unlink_def mem_rmdir_def l [symmetric]
  by (intro conjI remove_in_layer [OF ok]) (simp_all add: l shown_in)

theorem overlay_removes_from_shown_layer_witness:
  "\<exists>w'. overlay_unlink (memory_overlay sample_kernel ''o'' sample_upper None sample_fs) (names_path [''d'', ''f'']) sample_two =
       Done (0, w') \<and> abs_fs w' sample_fs [''d'', ''f''] = None"
proof -
  have f: "abs_fs sample_two sample_fs [''d'', ''f''] = Some (3, FileKind)" "abs_fs sample_two sample_upper [''d'', ''f''] = None"
    "view sample_two sample_fs [''d'', ''f''] = Some 3" "entries_of (heap sample_two 3) = []"
    by code_simp+
  have ok: "world_inv sample_two" "live sample_two sample_fs"
    using layers_okD [OF sample_two_ok] layer_list_in by blast+
  have "spec_remove (abs_fs sample_two sample_fs) [''d'', ''f''] FileKind =
      Some ((abs_fs sample_two sample_fs)([''d'', ''f''] := None))"
    using leaf_abs [OF ok f(3)] f by (simp add: spec_remove_def)
  moreover have "sample_fs = shown_by sample_two sample_upper None sample_fs [''d'', ''f'']"
    using f by (simp add: shown_by_def layer_list_def)
  ultimately show ?thesis
    using overlay_removes_from_shown_layer [OF sample_two_ok, of sample_fs "[''d'', ''f'']" sample_kernel "''o''"] by auto
qed

section \<open>Listings\<close>

text \<open>The entry with a given name.\<close>

definition entry_named :: "string \<Rightarrow> vfs_dir_entry list \<Rightarrow> vfs_dir_entry option" where
  "entry_named x es = List.find (\<lambda>e. de_name e = x) es"

lemma entry_named_Cons: "entry_named x (e # es) = (if de_name e = x then Some e else entry_named x es)"
  by (simp add: entry_named_def)

lemma entry_named_append:
  "entry_named x (es @ fs) = (case entry_named x es of None \<Rightarrow> entry_named x fs | Some e \<Rightarrow> Some e)"
  by (induction es) (auto simp: entry_named_def)

lemma entry_named_None: "entry_named x es = None \<longleftrightarrow> x \<notin> de_name ` set es"
  by (auto simp: entry_named_def find_None_iff)

lemma merge_entries_named:
  "entry_named x (merge_entries es fs) = (case entry_named x es of None \<Rightarrow> entry_named x fs | Some e \<Rightarrow> Some e)"
proof (induction es fs rule: merge_entries.induct)
  case (1 es)
  then show ?case by (simp add: entry_named_def split: option.splits)
next
  case (2 es f fs)
  show ?case
  proof (cases "\<exists>e \<in> set es. de_name e = de_name f")
    case True
    then have "entry_named (de_name f) es \<noteq> None" unfolding entry_named_None by (metis imageI)
    then show ?thesis using 2 True by (auto simp: entry_named_Cons split: option.splits)
  next
    case False
    then show ?thesis
      using 2 by (simp add: entry_named_append entry_named_Cons entry_named_def [of x "[]"] split: option.splits)
  qed
qed

lemma merge_entries_distinct: "distinct (map de_name es) \<Longrightarrow> distinct (map de_name (merge_entries es fs))"
proof (induction es fs rule: merge_entries.induct)
  case (2 es f fs)
  show ?case
  proof (cases "\<exists>e \<in> set es. de_name e = de_name f")
    case True
    then show ?thesis using 2 by simp
  next
    case False
    then have "de_name f \<notin> de_name ` set es" by (metis imageE)
    then show ?thesis using 2 False by simp
  qed
qed simp

lemma fold_merge_named:
  "entry_named x (foldl merge_entries es Ls) =
     (case entry_named x es of
        Some e \<Rightarrow> Some e
      | None \<Rightarrow> (case List.find (\<lambda>L. entry_named x L \<noteq> None) Ls of None \<Rightarrow> None | Some L \<Rightarrow> entry_named x L))"
  by (induction Ls arbitrary: es) (auto simp: merge_entries_named split: option.splits)

lemma fold_merge_distinct:
  "distinct (map de_name es) \<Longrightarrow> distinct (map de_name (foldl merge_entries es Ls))"
  by (induction Ls arbitrary: es) (simp_all add: merge_entries_distinct)

text \<open>A listing in terms of the entry it has for each name.\<close>

lemma mem_read_dir_named:
  assumes w: "world_inv w" and fs: "live w fs"
  shows "\<exists>r. mem_read_dir fs (names_path ns) w = Done (r, w) \<and>
     (r \<noteq> None \<longleftrightarrow> map_option snd (abs_fs w fs ns) = Some DirKind) \<and>
     (\<forall>es x. r = Some es \<longrightarrow> entry_named x es =
        map_option (\<lambda>(i, kind). \<lparr>de_name = x, de_kind = kind, de_ino = Some (of_nat i)\<rparr>) (abs_fs w fs (ns @ [x])))"
proof -
  obtain r where r: "mem_read_dir fs (names_path ns) w = Done (r, w)"
    and sp: "if map_option snd (abs_fs w fs ns) = Some DirKind
      then \<exists>es. r = Some es \<and> sorted (map de_name es) \<and> distinct (map de_name es) \<and>
        (\<forall>x. case abs_fs w fs (ns @ [x]) of
               None \<Rightarrow> x \<notin> de_name ` set es
             | Some (i, kind) \<Rightarrow> \<lparr>de_name = x, de_kind = kind, de_ino = Some (of_nat i)\<rparr> \<in> set es)
      else r = None"
    using listing_lemma [OF w fs, of ns] by blast
  have named: "entry_named (de_name e) es = Some e" if "distinct (map de_name es)" "e \<in> set es" for e es
    using that by (induction es) (auto simp: entry_named_Cons)
  have "entry_named x es = map_option (\<lambda>(i, kind). \<lparr>de_name = x, de_kind = kind, de_ino = Some (of_nat i)\<rparr>) (abs_fs w fs (ns @ [x]))"
    if es: "r = Some es" for es x
  proof -
    have d: "distinct (map de_name es)" and
      m: "case abs_fs w fs (ns @ [x]) of
               None \<Rightarrow> x \<notin> de_name ` set es
             | Some (i, kind) \<Rightarrow> \<lparr>de_name = x, de_kind = kind, de_ino = Some (of_nat i)\<rparr> \<in> set es"
      using sp es by (auto split: if_splits)
    show ?thesis
    proof (cases "abs_fs w fs (ns @ [x])")
      case None
      then show ?thesis using m by (simp add: entry_named_None)
    next
      case (Some a)
      then obtain i kind where "abs_fs w fs (ns @ [x]) = Some (i, kind)" by (cases a) auto
      then show ?thesis using m named [OF d] by fastforce
    qed
  qed
  then show ?thesis using r sp by (auto split: if_splits)
qed

text \<open>The listing of one layer.\<close>

definition listed :: "'k world \<Rightarrow> string list \<Rightarrow> memory_fs \<Rightarrow> vfs_dir_entry list option" where
  "listed w ns l = fst (the (mem_read_dir l (names_path ns) w))"

lemma listed:
  assumes "world_inv w" and "live w l"
  shows "mem_read_dir l (names_path ns) w = Done (listed w ns l, w)"
    "listed w ns l \<noteq> None \<longleftrightarrow> map_option snd (abs_fs w l ns) = Some DirKind"
    "listed w ns l = Some es \<Longrightarrow> entry_named x es =
        map_option (\<lambda>(i, kind). \<lparr>de_name = x, de_kind = kind, de_ino = Some (of_nat i)\<rparr>) (abs_fs w l (ns @ [x]))"
  using mem_read_dir_named [OF assms, of ns] by (auto simp: listed_def simp del: not_None_eq)

lemma overlay_layers_memory:
  "overlay_layers (memory_overlay K name upper mid lower) = map (memory_fs_ops K) (layer_list upper mid lower)"
  by (cases mid) (simp_all add: overlay_layers_def layer_list_def vfs_simps)

lemma read_layers_listed:
  assumes "world_inv w"
  shows "\<forall>l \<in> set ls. live w l \<Longrightarrow> read_layers (map (memory_fs_ops K) ls) (names_path ns) es saw w =
     Done (if saw \<or> (\<exists>l \<in> set ls. listed w ns l \<noteq> None)
           then Some (foldl merge_entries es (List.map_filter (listed w ns) ls)) else None, w)"
proof (induction ls arbitrary: es saw)
  case Nil
  then show ?case by (simp add: List.map_filter_simps)
next
  case (Cons l ls)
  then show ?case
    by (cases "listed w ns l") (auto simp: List.map_filter_simps vfs_simps listed(1) [OF assms])
qed

lemma child_parent_dir: "abs_fs w l (ns @ [x]) \<noteq> None \<Longrightarrow> map_option snd (abs_fs w l ns) = Some DirKind"
proof -
  assume "abs_fs w l (ns @ [x]) \<noteq> None"
  then obtain d where "view w l ns = Some d" "child w d x \<noteq> None"
    by (auto simp: abs_None_iff view_snoc simp del: not_None_eq split: bind_splits)
  then show ?thesis using child_directory [of w d x] by (auto simp: abs_kind is_directory_kind)
qed

text \<open>The first listing that has a name is the one of the first layer that has the path.\<close>

lemma find_listed:
  assumes "world_inv w"
  shows "\<forall>l \<in> set ls. live w l \<Longrightarrow>
     (case List.find (\<lambda>L. entry_named x L \<noteq> None) (List.map_filter (listed w ns) ls) of
        None \<Rightarrow> None | Some es \<Rightarrow> entry_named x es) =
     (case List.find (\<lambda>l. abs_fs w l (ns @ [x]) \<noteq> None) ls of
        None \<Rightarrow> None
      | Some l \<Rightarrow> (case abs_fs w l (ns @ [x]) of
          None \<Rightarrow> None
        | Some (i, kind) \<Rightarrow> Some \<lparr>de_name = x, de_kind = kind, de_ino = Some (of_nat i)\<rparr>))"
proof (induction ls)
  case Nil
  then show ?case by (simp add: List.map_filter_simps)
next
  case (Cons l ls)
  note l = listed [OF assms, of l]
  show ?case
  proof (cases "listed w ns l")
    case None
    have "abs_fs w l (ns @ [x]) = None"
    proof (rule ccontr)
      assume "abs_fs w l (ns @ [x]) \<noteq> None"
      from child_parent_dir [OF this] l(2) [of ns] Cons.prems None show False by simp
    qed
    then show ?thesis using Cons None by (simp add: List.map_filter_simps)
  next
    case es: (Some es)
    have "entry_named x es = map_option (\<lambda>(i, kind). \<lparr>de_name = x, de_kind = kind, de_ino = Some (of_nat i)\<rparr>) (abs_fs w l (ns @ [x]))"
      using l(3) [OF _ es] Cons.prems by simp
    then show ?thesis using Cons es by (cases "abs_fs w l (ns @ [x])") (auto simp: List.map_filter_simps)
  qed
qed

text \<open>C25: The listing of a directory of an overlay has each name once, and for each name the entry (inode
  and kind) of the first layer, from the top, that has it in that directory; the listing exists
  exactly if the path is a directory in some layer.\<close>

theorem overlay_lists_union:
  assumes ok: "layers_ok w upper mid lower"
  shows "\<exists>r. overlay_read_dir (memory_overlay K name upper mid lower) (names_path ns) w = Done (r, w) \<and>
     (r \<noteq> None \<longleftrightarrow> (\<exists>l \<in> set (layer_list upper mid lower). map_option snd (abs_fs w l ns) = Some DirKind)) \<and>
     (\<forall>es. r = Some es \<longrightarrow> distinct (map de_name es) \<and>
        (\<forall>x. entry_named x es =
           (case List.find (\<lambda>l. abs_fs w l (ns @ [x]) \<noteq> None) (layer_list upper mid lower) of
              None \<Rightarrow> None
            | Some l \<Rightarrow> (case abs_fs w l (ns @ [x]) of
                None \<Rightarrow> None
              | Some (i, kind) \<Rightarrow> Some \<lparr>de_name = x, de_kind = kind, de_ino = Some (of_nat i)\<rparr>))))"
proof -
  let ?ls = "layer_list upper mid lower" and ?L = "listed w ns"
  note w = layers_okD(1) [OF ok]
  have live: "\<forall>l \<in> set ?ls. live w l" using layers_okD(2) [OF ok] by blast
  let ?r = "if \<exists>l \<in> set ?ls. ?L l \<noteq> None then Some (foldl merge_entries [] (List.map_filter ?L ?ls)) else None"
  have res: "overlay_read_dir (memory_overlay K name upper mid lower) (names_path ns) w = Done (?r, w)"
    using read_layers_listed [OF w live, of K ns "[]" False] by (simp add: overlay_read_dir_def overlay_layers_memory)
  show ?thesis
  proof (intro exI conjI allI impI, rule res)
    show "?r \<noteq> None \<longleftrightarrow> (\<exists>l \<in> set ?ls. map_option snd (abs_fs w l ns) = Some DirKind)"
      using listed(2) [OF w] live by auto
    fix es
    assume "?r = Some es"
    then have es: "es = foldl merge_entries [] (List.map_filter ?L ?ls)" by (auto split: if_splits)
    show "distinct (map de_name es)" unfolding es by (rule fold_merge_distinct) simp
    fix x
    show "entry_named x es = (case List.find (\<lambda>l. abs_fs w l (ns @ [x]) \<noteq> None) ?ls of
         None \<Rightarrow> None
       | Some l \<Rightarrow> (case abs_fs w l (ns @ [x]) of
           None \<Rightarrow> None
         | Some (i, kind) \<Rightarrow> Some \<lparr>de_name = x, de_kind = kind, de_ino = Some (of_nat i)\<rparr>))"
      unfolding es fold_merge_named using find_listed [OF w live, of x] by (simp add: entry_named_def [of x "[]"])
  qed
qed

theorem overlay_lists_union_witness:
  "\<exists>r. overlay_read_dir (memory_overlay sample_kernel ''o'' sample_upper None sample_fs) (names_path [''d'']) sample_two =
       Done (r, sample_two) \<and> r \<noteq> None"
proof -
  have "abs_fs sample_two sample_fs [''d''] = Some (2, DirKind)" by code_simp
  then have "\<exists>l \<in> set (layer_list sample_upper None sample_fs). map_option snd (abs_fs sample_two l [''d'']) = Some DirKind"
    using layer_list_in(2) [of sample_fs sample_upper None] by force
  then show ?thesis
    using overlay_lists_union [OF sample_two_ok, of sample_kernel "''o''" "[''d'']"] by blast
qed

section \<open>Creating the parent directories in the upper layer\<close>

text \<open>The paths that \<open>ensure_top_parent_dirs\<close> goes through, from the top down.\<close>

fun dir_steps :: "string list \<Rightarrow> string list \<Rightarrow> string list list" where
  "dir_steps pre [] = []"
| "dir_steps pre (x # xs) = (pre @ [x]) # dir_steps (pre @ [x]) xs"

lemma prefixes_dir_steps: "map ((@) pre) (prefixes xs) = pre # dir_steps pre xs"
proof (induction xs arbitrary: pre)
  case (Cons x xs)
  have "map ((@) pre \<circ> (#) x) (prefixes xs) = map ((@) (pre @ [x])) (prefixes xs)" by simp
  then show ?case using Cons [of "pre @ [x]"] by simp
qed simp

lemma dir_steps_nonempty: "[] \<notin> set (dir_steps pre xs)"
  by (induction pre xs rule: dir_steps.induct) auto

lemma parent_dir_steps:
  "filter (\<lambda>p. p \<noteq> [RootDir]) (rev (ancestors (names_path ds))) = map names_path (dir_steps [] ds)"
proof -
  have "prefixes ds = [] # dir_steps [] ds" using prefixes_dir_steps [of "[]" ds] map_idI [of "prefixes ds" "(@) []"] by auto
  moreover have "filter (\<lambda>p. p \<noteq> [RootDir]) (map names_path ps) = map names_path ps" if "[] \<notin> set ps" for ps
    using that by (induction ps) auto
  ultimately show ?thesis using dir_steps_nonempty [of "[]" ds] by (simp add: ancestors_names_path rev_map [symmetric])
qed

definition grants_memfd :: "'k kernel \<Rightarrow> bool" where
  "grants_memfd K \<longleftrightarrow> (\<forall>name k. 0 \<le> fst (k_memfd_create K name k))"

text \<open>What is in \<open>w'\<close> after the directories \<open>D\<close> that were missing in \<open>w\<close> are created.\<close>

definition dirs_added :: "string list set \<Rightarrow> memory_fs \<Rightarrow> 'k world \<Rightarrow> 'k world \<Rightarrow> bool" where
  "dirs_added D fs w w' \<longleftrightarrow> (\<forall>zs.
     (abs_fs w fs zs \<noteq> None \<longrightarrow> abs_fs w' fs zs = abs_fs w fs zs) \<and>
     (abs_fs w fs zs = None \<longrightarrow> map_option snd (abs_fs w' fs zs) = (if zs \<in> D then Some DirKind else None)))"

lemma dirs_added_refl: "\<forall>zs \<in> D. abs_fs w fs zs \<noteq> None \<Longrightarrow> dirs_added D fs w w"
  by (auto simp: dirs_added_def)

lemma dirs_added_trans: "dirs_added D fs w w1 \<Longrightarrow> dirs_added E fs w1 w' \<Longrightarrow> dirs_added (D \<union> E) fs w w'"
  unfolding dirs_added_def by (metis (no_types, opaque_lifting) UnCI UnE map_option_is_None option.distinct(1))

lemma mkdir_missing:
  assumes K: "grants_memfd K" and w: "world_inv w" and fs: "live w fs"
    and dir: "map_option snd (abs_fs w fs pre) = Some DirKind" and free: "abs_fs w fs (pre @ [x]) = None"
  shows "\<exists>w'. mem_mkdir K fs (names_path (pre @ [x])) mode w = Done (0, w') \<and> good_step w w' \<and>
           only_map (mem_nodes fs) w w' \<and> dirs_added {pre @ [x]} fs w w'"
proof -
  obtain r w' where cr: "create_node K fs (names_path (pre @ [x])) DirKind mode w = Done (r, w')" "good_step w w'"
    using create_node_step [OF w fs names_path_absolute, of K "pre @ [x]" DirKind mode] by blast
  moreover have "r \<noteq> None \<and> abs_fs w' fs = (abs_fs w fs)(pre @ [x] \<mapsto> (next_node_id w, DirKind))"
    using create_node_refines [OF w fs, of K "pre @ [x]" DirKind mode] cr K dir free
    by (auto simp: spec_create_def grants_memfd_def memfd_ok_def)
  moreover from this have "dirs_added {pre @ [x]} fs w w'" using free by (auto simp: dirs_added_def)
  ultimately show ?thesis
    using create_only_map [OF w fs names_path_absolute cr(1)] by (auto simp: mem_mkdir_def)
qed

lemma dir_steps_set: "set (dir_steps pre xs) = {pre @ ys | ys. ys \<noteq> [] \<and> prefix ys xs}"
proof (induction xs arbitrary: pre)
  case (Cons x xs)
  have "{pre @ ys | ys. ys \<noteq> [] \<and> prefix ys (x # xs)} = insert (pre @ [x]) {(pre @ [x]) @ ys | ys. ys \<noteq> [] \<and> prefix ys xs}"
    by (auto simp: prefix_Cons)
  then show ?case using Cons by simp
qed auto

lemma create_missing_effect:
  assumes K: "grants_memfd K"
  shows "world_inv w \<Longrightarrow> live w fs \<Longrightarrow> map_option snd (abs_fs w fs pre) = Some DirKind \<Longrightarrow>
     (\<forall>zs \<in> set (dir_steps pre xs). abs_fs w fs zs = None \<or> map_option snd (abs_fs w fs zs) = Some DirKind) \<Longrightarrow>
     \<exists>w'. create_missing_dirs (memory_fs_ops K fs) (map names_path (dir_steps pre xs)) w = Done ((), w') \<and>
       good_step w w' \<and> only_map (mem_nodes fs) w w' \<and> dirs_added (set (dir_steps pre xs)) fs w w'"
proof (induction xs arbitrary: pre w)
  case Nil
  then show ?case using good_step_refl only_map_same [OF same_tree_refl] by (auto simp: dirs_added_def)
next
  case (Cons x xs)
  note w = Cons.prems(1) and fs = Cons.prems(2)
  let ?p = "pre @ [x]"
  have acc: "mem_access fs (names_path ?p) F_OK w = Done (if abs_fs w fs ?p = None then -1 else 0, w)"
    by (rule mem_access_names [OF w fs])
  show ?case
  proof (cases "abs_fs w fs ?p = None")
    case False
    then have "map_option snd (abs_fs w fs ?p) = Some DirKind" using Cons.prems(4) by auto
    from Cons.IH [OF w fs this] Cons.prems(4) obtain w' where
      "create_missing_dirs (memory_fs_ops K fs) (map names_path (dir_steps ?p xs)) w = Done ((), w')"
      "good_step w w'" "only_map (mem_nodes fs) w w'" "dirs_added (set (dir_steps ?p xs)) fs w w'" by auto
    moreover from this have "dirs_added (set (dir_steps pre (x # xs))) fs w w'"
      using False by (auto simp: dirs_added_def)
    ultimately show ?thesis using acc False by (simp add: vfs_simps)
  next
    case True
    from mkdir_missing [OF K w fs Cons.prems(3) True, of MODE_755] obtain w1 where
      m: "mem_mkdir K fs (names_path ?p) MODE_755 w = Done (0, w1)" "good_step w w1"
        "only_map (mem_nodes fs) w w1" "dirs_added {?p} fs w w1" by blast
    have w1: "world_inv w1" "live w1 fs" using m(2) evolves_live [OF _ fs] by (auto simp: good_step_def)
    have d1: "map_option snd (abs_fs w1 fs ?p) = Some DirKind" using m(4) True by (auto simp: dirs_added_def)
    have "\<forall>zs \<in> set (dir_steps ?p xs). abs_fs w1 fs zs = None \<or> map_option snd (abs_fs w1 fs zs) = Some DirKind"
    proof
      fix zs assume zs: "zs \<in> set (dir_steps ?p xs)"
      then have "zs \<noteq> ?p" by (auto simp: dir_steps_set)
      then show "abs_fs w1 fs zs = None \<or> map_option snd (abs_fs w1 fs zs) = Some DirKind"
        using m(4) Cons.prems(4) zs unfolding dirs_added_def
        by (metis dir_steps.simps(2) list.set_intros(2) map_option_is_None singletonD)
    qed
    from Cons.IH [OF w1 d1 this] obtain w' where
      c: "create_missing_dirs (memory_fs_ops K fs) (map names_path (dir_steps ?p xs)) w1 = Done ((), w')"
      "good_step w1 w'" "only_map (mem_nodes fs) w1 w'" "dirs_added (set (dir_steps ?p xs)) fs w1 w'" by blast
    have "dirs_added (set (dir_steps pre (x # xs))) fs w w'"
      using dirs_added_trans [OF m(4) c(4)] by (simp add: insert_is_Un [symmetric])
    then show ?thesis
      using acc True m c good_step_trans only_map_trans by (auto simp: vfs_simps)
  qed
qed

lemma path_exists_below:
  assumes "layers_ok w upper mid lower"
  shows "path_exists_below_top (memory_overlay K name upper mid lower) (names_path ns) w =
           Done (\<exists>l \<in> set (tl (layer_list upper mid lower)). abs_fs w l ns \<noteq> None, w)"
proof -
  have acc: "mem_access l (names_path ns) md w = Done (if abs_fs w l ns = None then -1 else 0, w)"
    if "l \<in> set (layer_list upper mid lower)" for l md
    using mem_access_names layers_okD [OF assms] that by blast
  show ?thesis
    using acc by (cases mid) (auto simp: path_exists_below_top_def vfs_simps layer_list_def simp del: not_None_eq)
qed

lemma ensure_effect:
  assumes K: "grants_memfd K" and ok: "layers_ok w upper mid lower"
    and conflict: "\<forall>zs. prefix zs ds \<longrightarrow> abs_fs w upper zs = None \<or> map_option snd (abs_fs w upper zs) = Some DirKind"
    and ex: "\<exists>l \<in> set (layer_list upper mid lower). abs_fs w l ds \<noteq> None"
  shows "\<exists>w'. ensure_top_parent_dirs (memory_overlay K name upper mid lower) (names_path (ds @ [x])) w = Done ((), w') \<and>
           good_step w w' \<and> only_map (mem_nodes upper) w w' \<and> dirs_added (set (dir_steps [] ds)) upper w w'"
proof -
  have w: "world_inv w" and fs: "live w upper" using layers_okD [OF ok] layer_list_in by blast+
  have acc: "mem_access upper (names_path ds) F_OK w = Done (if abs_fs w upper ds = None then -1 else 0, w)"
    by (rule mem_access_names [OF w fs])
  have root: "map_option snd (abs_fs w upper []) = Some DirKind"
    using live_inv [OF w fs] by (simp add: abs_kind view_def mem_inv_def is_directory_kind)
  show ?thesis
  proof (cases "abs_fs w upper ds = None")
    case False
    have "abs_fs w upper zs \<noteq> None" if "prefix zs ds" for zs
    proof -
      obtain ys where "ds = zs @ ys" using \<open>prefix zs ds\<close> by (auto simp: prefix_def)
      then show ?thesis
        using False by (cases "view w upper zs") (simp_all add: abs_None_iff view_def lookup_append del: not_None_eq)
    qed
    then have "dirs_added (set (dir_steps [] ds)) upper w w"
      by (intro dirs_added_refl) (auto simp: dir_steps_set simp del: not_None_eq)
    then show ?thesis
      using False acc good_step_refl [OF w] only_map_same [OF same_tree_refl]
      by (simp add: ensure_top_parent_dirs_def path_simps vfs_simps del: not_None_eq)
  next
    case True
    have "\<forall>zs \<in> set (dir_steps [] ds). abs_fs w upper zs = None \<or> map_option snd (abs_fs w upper zs) = Some DirKind"
      using conflict by (auto simp: dir_steps_set)
    from create_missing_effect [OF K w fs root this] obtain w' where
      c: "create_missing_dirs (memory_fs_ops K upper) (map names_path (dir_steps [] ds)) w = Done ((), w')"
      "good_step w w'" "only_map (mem_nodes upper) w w'" "dirs_added (set (dir_steps [] ds)) upper w w'" by blast
    have "\<exists>l \<in> set (tl (layer_list upper mid lower)). abs_fs w l ds \<noteq> None"
      using ex True by (auto simp: layer_list_def simp del: not_None_eq)
    then have "path_exists_below_top (memory_overlay K name upper mid lower) (names_path ds) w = Done (True, w)"
      using path_exists_below [OF ok] by simp
    then show ?thesis
      using True acc c by (simp add: ensure_top_parent_dirs_def parent_names_path vfs_simps parent_dir_steps)
  qed
qed

text \<open>C26: \<open>mkdir\<close> of an overlay writes to the upper layer only. If the path is free there, no ancestor of it
  is a file there, and its parent exists in some layer, it returns 0; the upper layer then has
  exactly the directories it had, the missing ancestors, and the new path, and no other layer
  has changed.\<close>

theorem overlay_mkdir_copies_parents:
  assumes K: "grants_memfd K" and ok: "layers_ok w upper mid lower"
    and free: "abs_fs w upper (ds @ [x]) = None"
    and conflict: "\<forall>zs. prefix zs ds \<longrightarrow> abs_fs w upper zs = None \<or> map_option snd (abs_fs w upper zs) = Some DirKind"
    and ex: "\<exists>l \<in> set (layer_list upper mid lower). abs_fs w l ds \<noteq> None"
  shows "\<exists>w'. overlay_mkdir (memory_overlay K name upper mid lower) (names_path (ds @ [x])) mode w = Done (0, w') \<and>
     dirs_added {zs. zs \<noteq> [] \<and> prefix zs (ds @ [x])} upper w w' \<and>
     (\<forall>l \<in> set (layer_list upper mid lower). l \<noteq> upper \<longrightarrow> abs_fs w' l = abs_fs w l)"
proof -
  have w: "world_inv w" and fs: "live w upper" using layers_okD [OF ok] layer_list_in by blast+
  obtain w1 where e: "ensure_top_parent_dirs (memory_overlay K name upper mid lower) (names_path (ds @ [x])) w = Done ((), w1)"
    "good_step w w1" "only_map (mem_nodes upper) w w1" "dirs_added (set (dir_steps [] ds)) upper w w1"
    using ensure_effect [OF K ok conflict ex] by blast
  have w1: "world_inv w1" "live w1 upper" using e(2) evolves_live [OF _ fs] by (auto simp: good_step_def)
  have root: "map_option snd (abs_fs w1 upper []) = Some DirKind"
    using live_inv [OF w1] by (simp add: abs_kind view_def mem_inv_def is_directory_kind)
  have "map_option snd (abs_fs w1 upper ds) = Some DirKind"
  proof (cases "ds = []")
    case False
    then have "ds \<in> set (dir_steps [] ds)" by (auto simp: dir_steps_set)
    then show ?thesis using e(4) conflict unfolding dirs_added_def by (metis prefix_order.refl)
  qed (use root in simp)
  moreover have "abs_fs w1 upper (ds @ [x]) = None"
  proof -
    have "ds @ [x] \<notin> set (dir_steps [] ds)" by (auto simp: dir_steps_set dest: prefix_length_le)
    then show ?thesis using e(4) free unfolding dirs_added_def by (metis map_option_is_None)
  qed
  ultimately obtain w' where m: "mem_mkdir K upper (names_path (ds @ [x])) mode w1 = Done (0, w')" "good_step w1 w'"
    "only_map (mem_nodes upper) w1 w'" "dirs_added {ds @ [x]} upper w1 w'"
    using mkdir_missing [OF K w1] by blast
  have "set (dir_steps [] ds) \<union> {ds @ [x]} = {zs. zs \<noteq> [] \<and> prefix zs (ds @ [x])}"
    by (auto simp: dir_steps_set)
  then have "dirs_added {zs. zs \<noteq> [] \<and> prefix zs (ds @ [x])} upper w w'"
    using dirs_added_trans [OF e(4) m(4)] by simp
  moreover have "abs_fs w' l = abs_fs w l" if "l \<in> set (layer_list upper mid lower)" "l \<noteq> upper" for l
    by (rule others_unchanged [OF ok layer_list_in(1) that only_map_trans [OF e(3) m(3)]])
  ultimately show ?thesis using e(1) m(1) by (auto simp: overlay_mkdir_def vfs_simps)
qed

theorem overlay_mkdir_copies_parents_witness:
  "\<exists>w'. overlay_mkdir (memory_overlay sample_kernel ''o'' sample_upper None sample_fs) (names_path [''d'', ''e'']) 0x1ED sample_two =
      Done (0, w') \<and> map_option snd (abs_fs w' sample_upper [''d'']) = Some DirKind"
proof -
  have K: "grants_memfd sample_kernel" by (simp add: grants_memfd_def sample_kernel_def)
  have v: "abs_fs sample_two sample_upper [''d'', ''e''] = None" "abs_fs sample_two sample_upper [''d''] = None"
    "abs_fs sample_two sample_upper [] = Some (4, DirKind)" "abs_fs sample_two sample_fs [''d''] = Some (2, DirKind)"
    by code_simp+
  have c: "\<forall>zs. prefix zs [''d''] \<longrightarrow> abs_fs sample_two sample_upper zs = None \<or>
      map_option snd (abs_fs sample_two sample_upper zs) = Some DirKind"
    using v by (auto simp: prefix_Cons)
  have x: "\<exists>l \<in> set (layer_list sample_upper None sample_fs). abs_fs sample_two l [''d''] \<noteq> None"
    by (intro bexI [of _ sample_fs]) (simp_all add: v layer_list_in)
  obtain w' where
    "overlay_mkdir (memory_overlay sample_kernel ''o'' sample_upper None sample_fs) (names_path ([''d''] @ [''e''])) 0x1ED sample_two =
      Done (0, w')" "dirs_added {zs. zs \<noteq> [] \<and> prefix zs ([''d''] @ [''e''])} sample_upper sample_two w'"
    using overlay_mkdir_copies_parents [OF K sample_two_ok _ c x, of "''e''" "''o''" "0x1ED"] v by auto
  moreover from this(2) have "map_option snd (abs_fs w' sample_upper [''d'']) = Some DirKind"
    using v(2) by (simp add: dirs_added_def)
  ultimately show ?thesis by auto
qed

end
