(* ===== verification/RootVFS.thy ===== *)
theory RootVFS
  imports OverlayFS Dirents
begin

text \<open>
  \<open>src/src/root_vfs.rs\<close>: the mount dispatcher. The file systems are fixed when it is built
  (\<open>root_vfs\<close>); what changes is the current directory, the table of tracked descriptors and the
  state of the backends (\<open>vfs_state\<close>). A reference to a mounted file system is the name of its
  mount (\<open>fs_ref\<close>): two references are the same pointer exactly if they name the same mount.
  \<open>debug_assert!\<close> is a panic here, as in a debug build; it is proved never to fail. The locks are
  not modelled: calls run one at a time.
\<close>

section \<open>State\<close>

text \<open>The methods of an opened file (the trait \<open>OpenedFile\<close>) over handles \<open>'h\<close>.\<close>

record ('s, 'h) opened_ops =
  op_stat :: "'h \<Rightarrow> stat_buf \<Rightarrow> ('s, int \<times> stat_buf) io"
  op_open_child :: "'h \<Rightarrow> path \<Rightarrow> flags \<Rightarrow> mode_t \<Rightarrow> ('s, 'h open_result option) io"
  op_mkdir_child :: "'h \<Rightarrow> path \<Rightarrow> mode_t \<Rightarrow> ('s, int option) io"
  op_read_dir :: "'h \<Rightarrow> ('s, vfs_dir_entry list option) io"

text \<open>In-memory file systems have the only implementation of it.\<close>

definition memory_opened_ops :: "'k kernel \<Rightarrow> ('k world, opened_file) opened_ops" where
  "memory_opened_ops K =
     \<lparr>op_stat = (\<lambda>h statbuf w. Done (opened_stat K h statbuf w)),
      op_open_child = opened_open_child K,
      op_mkdir_child = (\<lambda>h path mode w. Done (opened_mkdir_child K h path mode w)),
      op_read_dir = (\<lambda>h w. Done (opened_read_dir h w, w))\<rparr>"

record 'h fd_info =
  fi_path :: path
  dir_offset :: nat
  fi_opened :: "'h option"

record ('s, 'h) root_vfs =
  rv_root :: "('s, 'h) fs_ops"
  rv_mounts :: "path \<Rightarrow> ('s, 'h) fs_ops option"

record ('s, 'h) vfs_state =
  vfs_cwd :: path
  vfs_fds :: "fd \<Rightarrow> 'h fd_info option"
  vfs_backend :: 's

datatype fs_ref = RootFs | MountFs path

definition root_vfs_new :: "('s, 'h) fs_ops \<Rightarrow> ('s, 'h) root_vfs" where
  "root_vfs_new root = \<lparr>rv_root = root, rv_mounts = (\<lambda>_. None)\<rparr>"

definition vfs_init :: "'s \<Rightarrow> ('s, 'h) vfs_state" where
  "vfs_init s = \<lparr>vfs_cwd = [RootDir], vfs_fds = (\<lambda>_. None), vfs_backend = s\<rparr>"

definition with_mount :: "('s, 'h) root_vfs \<Rightarrow> path \<Rightarrow> ('s, 'h) fs_ops \<Rightarrow> ('s, 'h) root_vfs" where
  "with_mount rv mount_p fs = rv\<lparr>rv_mounts := (rv_mounts rv)(mount_p := Some fs)\<rparr>"

definition fs_of :: "('s, 'h) root_vfs \<Rightarrow> fs_ref \<Rightarrow> ('s, 'h) fs_ops" where
  "fs_of rv r = (case r of RootFs \<Rightarrow> rv_root rv
     | MountFs p \<Rightarrow> (case rv_mounts rv p of None \<Rightarrow> rv_root rv | Some fs \<Rightarrow> fs))"

text \<open>A call of a backend.\<close>

definition on_backend :: "('s, 'a) io \<Rightarrow> (('s, 'h) vfs_state, 'a) io" where
  "on_backend io v = do { (r, s) \<leftarrow> io (vfs_backend v); Done (r, v\<lparr>vfs_backend := s\<rparr>) }"

section \<open>Paths\<close>

fun normalize_loop :: "path \<Rightarrow> component list \<Rightarrow> path" where
  "normalize_loop normalized [] = normalized"
| "normalize_loop normalized (RootDir # cs) = normalize_loop normalized cs"
| "normalize_loop normalized (CurDir # cs) = normalize_loop normalized cs"
| "normalize_loop normalized (ParentDir # cs) = normalize_loop (pop normalized) cs"
| "normalize_loop normalized (Normal part # cs) = normalize_loop (join normalized [Normal part]) cs"

definition normalize_absolute :: "path \<Rightarrow> path outcome" where
  "normalize_absolute path = do { assert_absolute path; Done (normalize_loop [RootDir] path) }"

definition set_cwd :: "path \<Rightarrow> (('s, 'h) vfs_state, unit) io" where
  "set_cwd path v =
     do { assert_absolute path; p \<leftarrow> normalize_absolute path; Done ((), v\<lparr>vfs_cwd := p\<rparr>) }"

definition resolve_path :: "('s, 'h) vfs_state \<Rightarrow> path \<Rightarrow> path outcome" where
  "resolve_path v path =
     (if is_absolute path then normalize_absolute path else normalize_absolute (join (vfs_cwd v) path))"

definition resolve_openat_path :: "('s, 'h) vfs_state \<Rightarrow> fd \<Rightarrow> path \<Rightarrow> path option outcome" where
  "resolve_openat_path v dirfd path =
     (if is_absolute path then map_option Some (normalize_absolute path)
      else if dirfd = AT_FDCWD then map_option Some (resolve_path v path)
      else (case vfs_fds v dirfd of
              None \<Rightarrow> Done None
            | Some base \<Rightarrow> map_option Some (normalize_absolute (join (fi_path base) path))))"

definition resolve_at :: "('s, 'h) vfs_state \<Rightarrow> fd \<Rightarrow> path \<Rightarrow> path option outcome" where
  "resolve_at v dirfd path = resolve_openat_path v dirfd path"

text \<open>The loop over the ancestors; \<open>strip_prefix(..).unwrap()\<close> panics if it is not a prefix.\<close>

fun find_mount :: "('s, 'h) root_vfs \<Rightarrow> path \<Rightarrow> path list \<Rightarrow> (fs_ref \<times> path) outcome" where
  "find_mount rv in_path [] = Done (RootFs, in_path)"
| "find_mount rv in_path (p # ps) =
     (if p = [RootDir] then find_mount rv in_path ps
      else (case rv_mounts rv p of
              None \<Rightarrow> find_mount rv in_path ps
            | Some _ \<Rightarrow> do { rest \<leftarrow> strip_prefix in_path p; Done (MountFs p, join [RootDir] rest) }))"

definition absolute_path_to_fs :: "('s, 'h) root_vfs \<Rightarrow> path \<Rightarrow> (fs_ref \<times> path) outcome" where
  "absolute_path_to_fs rv in_path = do { assert_absolute in_path; find_mount rv in_path (ancestors in_path) }"

definition path_to_fs :: "('s, 'h) root_vfs \<Rightarrow> ('s, 'h) vfs_state \<Rightarrow> path \<Rightarrow> (fs_ref \<times> path) outcome" where
  "path_to_fs rv v in_path = do { p \<leftarrow> resolve_path v in_path; absolute_path_to_fs rv p }"

section \<open>Tracked descriptors\<close>

definition track_open :: "'h open_result \<Rightarrow> path \<Rightarrow> ('s, 'h) vfs_state \<Rightarrow> fd \<times> ('s, 'h) vfs_state" where
  "track_open result path v =
     (or_fd result,
      if or_fd result \<ge> 0
      then v\<lparr>vfs_fds := (vfs_fds v)(or_fd result :=
             Some \<lparr>fi_path = path, dir_offset = 0, fi_opened = or_opened result\<rparr>)\<rparr>
      else v)"

definition forget_fd :: "fd \<Rightarrow> ('s, 'h) vfs_state \<Rightarrow> ('s, 'h) vfs_state" where
  "forget_fd fd v = v\<lparr>vfs_fds := (vfs_fds v)(fd := None)\<rparr>"

definition clone_fd :: "fd \<Rightarrow> fd \<Rightarrow> ('s, 'h) vfs_state \<Rightarrow> ('s, 'h) vfs_state" where
  "clone_fd oldfd newfd v =
     (case vfs_fds v oldfd of
        Some info \<Rightarrow> v\<lparr>vfs_fds := (vfs_fds v)(newfd := Some info)\<rparr>
      | None \<Rightarrow> v\<lparr>vfs_fds := (vfs_fds v)(newfd := None)\<rparr>)"

definition openat_from_tracked_handle ::
  "('s, 'h) opened_ops \<Rightarrow> fd \<Rightarrow> path \<Rightarrow> flags \<Rightarrow> mode_t \<Rightarrow> (('s, 'h) vfs_state, fd option) io" where
  "openat_from_tracked_handle ops dirfd path flag mode v =
     (if is_absolute path \<or> dirfd = AT_FDCWD then Done (None, v)
      else (case vfs_fds v dirfd of
              None \<Rightarrow> Done (None, v)
            | Some info \<Rightarrow> do {
                virtual_path \<leftarrow> normalize_absolute (join (fi_path info) path);
                (case fi_opened info of
                   None \<Rightarrow> Done (None, v)
                 | Some opened \<Rightarrow> do {
                     (r, v) \<leftarrow> on_backend (op_open_child ops opened path flag mode) v;
                     Done (case r of
                             None \<Rightarrow> (None, v)
                           | Some result \<Rightarrow> (let (fd, v) = track_open result virtual_path v in (Some fd, v))) }) }))"

definition mkdirat_from_tracked_handle ::
  "('s, 'h) opened_ops \<Rightarrow> fd \<Rightarrow> path \<Rightarrow> mode_t \<Rightarrow> (('s, 'h) vfs_state, int option) io" where
  "mkdirat_from_tracked_handle ops dirfd path mode v =
     (if is_absolute path \<or> dirfd = AT_FDCWD then Done (None, v)
      else (case vfs_fds v dirfd of
              None \<Rightarrow> Done (None, v)
            | Some info \<Rightarrow>
                (case fi_opened info of
                   None \<Rightarrow> Done (None, v)
                 | Some opened \<Rightarrow> on_backend (op_mkdir_child ops opened path mode) v)))"

section \<open>Calls relative to a descriptor\<close>

definition vfs_mkdirat ::
  "('s, 'h) root_vfs \<Rightarrow> ('s, 'h) opened_ops \<Rightarrow> fd \<Rightarrow> path \<Rightarrow> mode_t \<Rightarrow> (('s, 'h) vfs_state, int) io" where
  "vfs_mkdirat rv ops dirfd path mode v =
     do { (r, v) \<leftarrow> mkdirat_from_tracked_handle ops dirfd path mode v;
          (case r of
             Some result \<Rightarrow> Done (result, v)
           | None \<Rightarrow> do {
               p \<leftarrow> resolve_openat_path v dirfd path;
               (case p of
                  None \<Rightarrow> Done (-1, v)
                | Some virtual_path \<Rightarrow> do {
                    (fs, backend_path) \<leftarrow> absolute_path_to_fs rv virtual_path;
                    on_backend (fs_mkdir (fs_of rv fs) backend_path mode) v }) }) }"

definition vfs_unlinkat ::
  "('s, 'h) root_vfs \<Rightarrow> fd \<Rightarrow> path \<Rightarrow> flags \<Rightarrow> (('s, 'h) vfs_state, int) io" where
  "vfs_unlinkat rv dirfd path flags v =
     do { p \<leftarrow> resolve_openat_path v dirfd path;
          (case p of
             None \<Rightarrow> Done (-1, v)
           | Some virtual_path \<Rightarrow> do {
               (fs, backend_path) \<leftarrow> absolute_path_to_fs rv virtual_path;
               if flags AND AT_REMOVEDIR \<noteq> 0 then on_backend (fs_rmdir (fs_of rv fs) backend_path) v
               else on_backend (fs_unlink (fs_of rv fs) backend_path) v }) }"

definition vfs_renameat ::
  "('s, 'h) root_vfs \<Rightarrow> fd \<Rightarrow> path \<Rightarrow> fd \<Rightarrow> path \<Rightarrow> (('s, 'h) vfs_state, int) io" where
  "vfs_renameat rv old_dirfd old_path new_dirfd new_path v =
     do { po \<leftarrow> resolve_openat_path v old_dirfd old_path;
          (case po of
             None \<Rightarrow> Done (-1, v)
           | Some old_virtual_path \<Rightarrow> do {
               pn \<leftarrow> resolve_openat_path v new_dirfd new_path;
               (case pn of
                  None \<Rightarrow> Done (-1, v)
                | Some new_virtual_path \<Rightarrow> do {
                    (old_fs, old_backend_path) \<leftarrow> absolute_path_to_fs rv old_virtual_path;
                    (new_fs, new_backend_path) \<leftarrow> absolute_path_to_fs rv new_virtual_path;
                    if old_fs \<noteq> new_fs then Done (-1, v)
                    else on_backend (fs_rename (fs_of rv old_fs) old_backend_path new_backend_path) v }) }) }"

definition vfs_fstat ::
  "('s, 'h) opened_ops \<Rightarrow> fd \<Rightarrow> stat_buf \<Rightarrow> (('s, 'h) vfs_state, (int \<times> stat_buf) option) io" where
  "vfs_fstat ops fd statbuf v =
     (case vfs_fds v fd of
        None \<Rightarrow> Done (None, v)
      | Some info \<Rightarrow>
          (case fi_opened info of
             None \<Rightarrow> Done (None, v)
           | Some opened \<Rightarrow> do { (r, v) \<leftarrow> on_backend (op_stat ops opened statbuf) v; Done (Some r, v) }))"

definition vfs_read_dir :: "('s, 'h) root_vfs \<Rightarrow> path \<Rightarrow> (('s, 'h) vfs_state, vfs_dir_entry list option) io" where
  "vfs_read_dir rv path v =
     do { (fs, p) \<leftarrow> path_to_fs rv v path; on_backend (fs_read_dir (fs_of rv fs) p) v }"

text \<open>The entries behind a descriptor, after \<open>.\<close> and \<open>..\<close>: the handle's listing, or the path's.\<close>

definition dir_entries ::
  "('s, 'h) root_vfs \<Rightarrow> ('s, 'h) opened_ops \<Rightarrow> 'h fd_info \<Rightarrow> (('s, 'h) vfs_state, vfs_dir_entry list option) io" where
  "dir_entries rv ops info v =
     do { (r, v) \<leftarrow> (case fi_opened info of
                        None \<Rightarrow> Done (None, v)
                      | Some opened \<Rightarrow> on_backend (op_read_dir ops opened) v);
          (case r of
             Some opened_entries \<Rightarrow> Done (Some (dot_entries @ opened_entries), v)
           | None \<Rightarrow> do {
               (fs, backend_path) \<leftarrow> absolute_path_to_fs rv (fi_path info);
               (r, v) \<leftarrow> on_backend (fs_read_dir (fs_of rv fs) backend_path) v;
               Done (map_option (\<lambda>es. dot_entries @ es) r, v) }) }"

text \<open>\<open>&entries[dir_offset..]\<close> panics if the offset is beyond the end.\<close>

definition slice_from :: "nat \<Rightarrow> 'a list \<Rightarrow> 'a list outcome" where
  "slice_from i xs = (if i \<le> length xs then Done (drop i xs) else Panic)"

definition vfs_getdents64 ::
  "(path \<Rightarrow> u64) \<Rightarrow> ('s, 'h) root_vfs \<Rightarrow> ('s, 'h) opened_ops \<Rightarrow> fd \<Rightarrow> byte list option \<Rightarrow> int \<Rightarrow>
   (('s, 'h) vfs_state, (int \<times> byte list option) option) io" where
  "vfs_getdents64 hash rv ops fd dirp count v =
     (case vfs_fds v fd of
        None \<Rightarrow> Done (None, v)
      | Some info \<Rightarrow> do {
          (es, v) \<leftarrow> dir_entries rv ops info v;
          (case es of
             None \<Rightarrow> Done (None, v)
           | Some entries \<Rightarrow> do {
               rest \<leftarrow> slice_from (dir_offset info) entries;
               (result, dirp) \<leftarrow> write_dirents64 hash (fi_path info) rest (dir_offset info) dirp count;
               let v = (if bytes_written result \<ge> 0
                        then (case vfs_fds v fd of
                                None \<Rightarrow> v
                              | Some i \<Rightarrow> v\<lparr>vfs_fds := (vfs_fds v)(fd :=
                                    Some (i\<lparr>dir_offset := dir_offset i + entries_consumed result\<rparr>))\<rparr>)
                        else v);
               Done (Some (bytes_written result, dirp), v) }) })"

section \<open>The trait methods\<close>

definition vfs_access :: "('s, 'h) root_vfs \<Rightarrow> path \<Rightarrow> int \<Rightarrow> (('s, 'h) vfs_state, int) io" where
  "vfs_access rv path mode v =
     do { (fs, p) \<leftarrow> path_to_fs rv v path; on_backend (fs_access (fs_of rv fs) p mode) v }"

text \<open>The common end of \<open>open\<close> and \<open>openat\<close>.\<close>

definition open_and_track ::
  "('s, 'h) root_vfs \<Rightarrow> path \<Rightarrow> flags \<Rightarrow> mode_t \<Rightarrow> (('s, 'h) vfs_state, fd) io" where
  "open_and_track rv virtual_path flag mode v =
     do { (fs, backend_path) \<leftarrow> absolute_path_to_fs rv virtual_path;
          (result, v) \<leftarrow> on_backend (fs_open_with_handle (fs_of rv fs) backend_path flag mode) v;
          Done (track_open result virtual_path v) }"

definition vfs_open :: "('s, 'h) root_vfs \<Rightarrow> path \<Rightarrow> flags \<Rightarrow> mode_t \<Rightarrow> (('s, 'h) vfs_state, fd) io" where
  "vfs_open rv path oflag mode v =
     do { virtual_path \<leftarrow> resolve_path v path; open_and_track rv virtual_path oflag mode v }"

definition vfs_mkdir :: "('s, 'h) root_vfs \<Rightarrow> path \<Rightarrow> mode_t \<Rightarrow> (('s, 'h) vfs_state, int) io" where
  "vfs_mkdir rv path mode v =
     do { (fs, p) \<leftarrow> path_to_fs rv v path; on_backend (fs_mkdir (fs_of rv fs) p mode) v }"

definition vfs_unlink :: "('s, 'h) root_vfs \<Rightarrow> path \<Rightarrow> (('s, 'h) vfs_state, int) io" where
  "vfs_unlink rv path v =
     do { (fs, p) \<leftarrow> path_to_fs rv v path; on_backend (fs_unlink (fs_of rv fs) p) v }"

definition vfs_rmdir :: "('s, 'h) root_vfs \<Rightarrow> path \<Rightarrow> (('s, 'h) vfs_state, int) io" where
  "vfs_rmdir rv path v =
     do { (fs, p) \<leftarrow> path_to_fs rv v path; on_backend (fs_rmdir (fs_of rv fs) p) v }"

definition vfs_rename :: "('s, 'h) root_vfs \<Rightarrow> path \<Rightarrow> path \<Rightarrow> (('s, 'h) vfs_state, int) io" where
  "vfs_rename rv old_path new_path v = vfs_renameat rv AT_FDCWD old_path AT_FDCWD new_path v"

definition vfs_chmod :: "('s, 'h) root_vfs \<Rightarrow> path \<Rightarrow> mode_t \<Rightarrow> (('s, 'h) vfs_state, int) io" where
  "vfs_chmod rv path mode v =
     do { (fs, p) \<leftarrow> path_to_fs rv v path; on_backend (fs_chmod (fs_of rv fs) p mode) v }"

definition vfs_stat :: "('s, 'h) root_vfs \<Rightarrow> path \<Rightarrow> stat_buf \<Rightarrow> (('s, 'h) vfs_state, int \<times> stat_buf) io" where
  "vfs_stat rv path statbuf v =
     do { (fs, p) \<leftarrow> path_to_fs rv v path; on_backend (fs_stat (fs_of rv fs) p statbuf) v }"

definition vfs_openat ::
  "('s, 'h) root_vfs \<Rightarrow> ('s, 'h) opened_ops \<Rightarrow> fd \<Rightarrow> path \<Rightarrow> flags \<Rightarrow> mode_t \<Rightarrow> (('s, 'h) vfs_state, fd) io" where
  "vfs_openat rv ops dirfd path flag mode v =
     do { (r, v) \<leftarrow> openat_from_tracked_handle ops dirfd path flag mode v;
          (case r of
             Some fd \<Rightarrow> Done (fd, v)
           | None \<Rightarrow> do {
               p \<leftarrow> resolve_openat_path v dirfd path;
               (case p of
                  None \<Rightarrow> Done (-1, v)
                | Some virtual_path \<Rightarrow> open_and_track rv virtual_path flag mode v) }) }"

end
