(* ===== verification/VfsInv.thy ===== *)
theory VfsInv
  imports RootVFS
begin

text \<open>
  The dispatcher over any backends that meet their contract: path resolution in terms of names,
  mount lookup as longest prefix, the invariant of the state, and that every call returns and
  keeps it.
\<close>

section \<open>Resolution in terms of names\<close>

lemma normalize_loop_names: "normalize_loop (names_path ns) p = names_path (resolve_dots ns p)"
proof (induction ns p rule: resolve_dots.induct)
  case (2 ns x cs)
  have "join (names_path ns) [Normal x] = names_path (ns @ [x])" using join_names_path [of ns "[x]"] by simp
  then show ?case using 2 by simp
qed (simp_all add: path_simps)

lemma normalize_names: "is_absolute p \<Longrightarrow> normalize_absolute p = Done (names_path (resolve_dots [] p))"
  using normalize_loop_names [of "[]" p] by (simp add: normalize_absolute_def names_path_def assert_absolute_def)

text \<open>What a path means below a base directory.\<close>

definition names_from :: "string list \<Rightarrow> path \<Rightarrow> string list" where
  "names_from base p = (if is_absolute p then resolve_dots [] p else resolve_dots base p)"

lemma normalize_join:
  "\<not> is_absolute p \<Longrightarrow> normalize_absolute (join (names_path base) p) = Done (names_path (resolve_dots base p))"
proof -
  assume p: "\<not> is_absolute p"
  have "resolve_dots [] (join (names_path base) p) = resolve_dots base p"
  proof (cases "p \<noteq> [] \<and> hd p = CurDir")
    case True
    then obtain q where "p = CurDir # q" by (cases p) auto
    then show ?thesis by (simp add: join_def resolve_dots_append path_simps)
  next
    case False
    then have "join (names_path base) p = names_path base @ p" using p by (auto simp: join_def)
    then show ?thesis by (simp add: resolve_dots_append path_simps)
  qed
  then show ?thesis using normalize_names [of "join (names_path base) p"] by (simp add: join_absolute_wf)
qed

lemma resolve_path_names:
  "vfs_cwd v = names_path base \<Longrightarrow> resolve_path v p = Done (names_path (names_from base p))"
  by (simp add: resolve_path_def names_from_def normalize_names normalize_join)

lemma names_from_valid: "list_all valid_name base \<Longrightarrow> wf_path p \<Longrightarrow> list_all valid_name (names_from base p)"
  by (auto simp: names_from_def intro: resolve_dots_valid wf_valid_names)

section \<open>Mounts\<close>

definition mounted :: "('s, 'h) root_vfs \<Rightarrow> string list \<Rightarrow> bool" where
  "mounted rv ms \<longleftrightarrow> ms \<noteq> [] \<and> rv_mounts rv (names_path ms) \<noteq> None"

definition dispatch :: "('s, 'h) root_vfs \<Rightarrow> string list \<Rightarrow> fs_ref \<times> string list" where
  "dispatch rv ns =
     (case List.find (mounted rv) (rev (prefixes ns)) of
        None \<Rightarrow> (RootFs, ns)
      | Some ms \<Rightarrow> (MountFs (names_path ms), drop (length ms) ns))"

lemma find_mount_names:
  assumes "\<And>ms. ms \<in> set ps \<Longrightarrow> prefix ms ns"
  shows "find_mount rv (names_path ns) (map names_path ps) =
     Done (case List.find (mounted rv) ps of
             None \<Rightarrow> (RootFs, names_path ns)
           | Some ms \<Rightarrow> (MountFs (names_path ms), names_path (drop (length ms) ns)))"
  using assms
proof (induction ps)
  case (Cons ms ps)
  have "join [RootDir] (map Normal xs) = names_path xs" for xs
    using join_names_path [of "[]" xs] by (simp add: names_path_def)
  moreover have "strip_prefix (names_path ns) (names_path ms) = Some (map Normal (drop (length ms) ns))"
    using Cons.prems by (simp add: strip_prefix_names_path)
  ultimately show ?case using Cons by (auto simp: mounted_def split: option.splits)
qed simp

lemma to_fs_names:
  "absolute_path_to_fs rv (names_path ns) = Done (case dispatch rv ns of (r, rest) \<Rightarrow> (r, names_path rest))"
  using find_mount_names [of "rev (prefixes ns)" ns rv]
  by (auto simp: absolute_path_to_fs_def assert_absolute_def ancestors_names_path dispatch_def split: option.splits)

lemma nth_prefixes: "k \<le> length ns \<Longrightarrow> prefixes ns ! k = take k ns"
proof (induction ns rule: rev_induct)
  case (snoc n ns)
  then show ?case by (cases "k = Suc (length ns)") (simp_all add: prefixes_snoc nth_append)
qed simp

lemma dispatch_cases:
  obtains "dispatch rv ns = (RootFs, ns)" "\<And>ls. prefix ls ns \<Longrightarrow> \<not> mounted rv ls"
  | ms where "dispatch rv ns = (MountFs (names_path ms), drop (length ms) ns)" "mounted rv ms" "prefix ms ns"
      "\<And>ls. prefix ls ns \<Longrightarrow> mounted rv ls \<Longrightarrow> length ls \<le> length ms"
proof (cases "List.find (mounted rv) (rev (prefixes ns))")
  case None
  then have "dispatch rv ns = (RootFs, ns)" by (simp add: dispatch_def)
  moreover have "\<not> mounted rv ls" if "prefix ls ns" for ls using None that by (auto simp: find_None_iff)
  ultimately show ?thesis by (rule that(1))
next
  case (Some ms)
  then obtain i where i: "i < length (prefixes ns)" "ms = rev (prefixes ns) ! i" "mounted rv ms"
    "\<And>j. j < i \<Longrightarrow> \<not> mounted rv (rev (prefixes ns) ! j)"
    by (auto simp: find_Some_iff)
  have nth: "rev (prefixes ns) ! j = take (length ns - j) ns" if "j \<le> length ns" for j
    using that by (simp add: rev_nth nth_prefixes)
  have ms: "ms = take (length ns - i) ns" using i(1,2) nth by (simp add: length_prefixes)
  have "length ls \<le> length ms" if ls: "prefix ls ns" "mounted rv ls" for ls
  proof (rule ccontr)
    assume "\<not> length ls \<le> length ms"
    then have "length ns - length ls < i" using prefix_length_le [OF ls(1)] ms i(1) by (simp add: length_prefixes)
    moreover have "rev (prefixes ns) ! (length ns - length ls) = ls"
      using ls(1) nth [of "length ns - length ls"] prefix_length_le [OF ls(1)] by (auto simp: prefix_def)
    ultimately show False using i(4) ls(2) by metis
  qed
  moreover have "prefix ms ns" by (simp add: ms take_is_prefix)
  ultimately show ?thesis using that(2) [of ms] Some i(3) by (simp add: dispatch_def)
qed

lemma dispatch_valid: "list_all valid_name ns \<Longrightarrow> dispatch rv ns = (r, rest) \<Longrightarrow> list_all valid_name rest"
  by (auto simp: dispatch_def list_all_iff split: option.splits dest: in_set_dropD)

section \<open>The contracts\<close>

text \<open>What the dispatcher relies on of the methods of opened files.\<close>

locale opened_files =
  fixes ops :: "('s, 'h) opened_ops"
    and ok :: "'s \<Rightarrow> bool"
    and hok :: "'s \<Rightarrow> 'h \<Rightarrow> bool"
  assumes op_stat_ok: "ok s \<Longrightarrow> hok s h \<Longrightarrow>
      \<exists>r s'. op_stat ops h sb s = Done (r, s') \<and> ok s' \<and> (\<forall>h'. hok s h' \<longrightarrow> hok s' h')"
    and op_open_ok: "ok s \<Longrightarrow> hok s h \<Longrightarrow>
      \<exists>r s'. op_open_child ops h p fl mo s = Done (r, s') \<and> ok s' \<and> (\<forall>h'. hok s h' \<longrightarrow> hok s' h') \<and>
        (\<forall>z h'. r = Some z \<longrightarrow> or_opened z = Some h' \<longrightarrow> hok s' h')"
    and op_mkdir_ok: "ok s \<Longrightarrow> hok s h \<Longrightarrow>
      \<exists>r s'. op_mkdir_child ops h p mo s = Done (r, s') \<and> ok s' \<and> (\<forall>h'. hok s h' \<longrightarrow> hok s' h')"
    and op_read_ok: "ok s \<Longrightarrow> hok s h \<Longrightarrow>
      \<exists>r s'. op_read_dir ops h s = Done (r, s') \<and> ok s' \<and> (\<forall>h'. hok s h' \<longrightarrow> hok s' h')"

interpretation mem_files: opened_files "memory_opened_ops K" "mem_ok F" handle_ok
  for K :: "'k kernel" and F
proof unfold_locales
  fix w :: "'k world" and h p fl mo sb
  assume ok: "mem_ok F w" and h: "handle_ok w h"
  then have w: "world_inv w" by (simp add: mem_ok_def)
  have keep: "mem_ok F w' \<and> (\<forall>h'. handle_ok w h' \<longrightarrow> handle_ok w' h')" if "good_step w w'" for w'
    using mem_ok_step [OF ok that] evolves_handle that by (auto simp: good_step_def simp del: handle_ok.simps)
  show "\<exists>r s'. op_stat (memory_opened_ops K) h sb w = Done (r, s') \<and> mem_ok F s' \<and> (\<forall>h'. handle_ok w h' \<longrightarrow> handle_ok s' h')"
  proof -
    obtain r w' where st: "opened_stat K h sb w = (r, w')" by fastforce
    then have "good_step w w'" by (cases h) (auto dest: stat_node_world intro: good_step_same [OF w])
    then show ?thesis using keep st by (auto simp: memory_opened_ops_def simp del: handle_ok.simps opened_stat.simps)
  qed
  show "\<exists>r s'. op_open_child (memory_opened_ops K) h p fl mo w = Done (r, s') \<and> mem_ok F s' \<and>
      (\<forall>h'. handle_ok w h' \<longrightarrow> handle_ok s' h') \<and> (\<forall>z h'. r = Some z \<longrightarrow> or_opened z = Some h' \<longrightarrow> handle_ok s' h')"
    using opened_open_child_step [OF w h, of K p fl mo] keep
    by (auto simp: memory_opened_ops_def simp del: handle_ok.simps opened_open_child.simps)
  show "\<exists>r s'. op_mkdir_child (memory_opened_ops K) h p mo w = Done (r, s') \<and> mem_ok F s' \<and>
      (\<forall>h'. handle_ok w h' \<longrightarrow> handle_ok s' h')"
    using opened_mkdir_child_step [OF w h, of K p mo] keep
    by (auto simp: memory_opened_ops_def simp del: handle_ok.simps opened_mkdir_child.simps)
  show "\<exists>r s'. op_read_dir (memory_opened_ops K) h w = Done (r, s') \<and> mem_ok F s' \<and>
      (\<forall>h'. handle_ok w h' \<longrightarrow> handle_ok s' h')"
    using ok by (simp add: memory_opened_ops_def del: handle_ok.simps)
qed

text \<open>The invariant of the dispatcher's state.\<close>

definition vfs_inv :: "('s \<Rightarrow> bool) \<Rightarrow> ('s \<Rightarrow> 'h \<Rightarrow> bool) \<Rightarrow> ('s, 'h) vfs_state \<Rightarrow> bool" where
  "vfs_inv ok hok v \<longleftrightarrow> normal_path (vfs_cwd v) \<and> ok (vfs_backend v) \<and>
     (\<forall>fd i. vfs_fds v fd = Some i \<longrightarrow> 0 \<le> fd \<and> normal_path (fi_path i) \<and>
        (\<forall>h. fi_opened i = Some h \<longrightarrow> hok (vfs_backend v) h))"

text \<open>A call that returns and keeps the invariant.\<close>

definition vfs_safe :: "('s \<Rightarrow> bool) \<Rightarrow> ('s \<Rightarrow> 'h \<Rightarrow> bool) \<Rightarrow> (('s, 'h) vfs_state, 'a) io \<Rightarrow> bool" where
  "vfs_safe ok hok io \<longleftrightarrow> (\<forall>v. vfs_inv ok hok v \<longrightarrow> (\<exists>r v'. io v = Done (r, v') \<and> vfs_inv ok hok v'))"

lemma vfs_safeD: "vfs_safe ok hok io \<Longrightarrow> vfs_inv ok hok v \<Longrightarrow> \<exists>r v'. io v = Done (r, v') \<and> vfs_inv ok hok v'"
  by (simp add: vfs_safe_def)

lemma vfs_inv_backend:
  "vfs_inv ok hok v \<Longrightarrow> ok s' \<Longrightarrow> (\<And>h. hok (vfs_backend v) h \<Longrightarrow> hok s' h) \<Longrightarrow> vfs_inv ok hok (v\<lparr>vfs_backend := s'\<rparr>)"
  by (auto simp: vfs_inv_def)

lemma on_backend_safe:
  assumes "safe_io ok hok io"
  shows "vfs_safe ok hok (on_backend io)"
  unfolding vfs_safe_def
proof (intro allI impI)
  fix v :: "('a, 'b) vfs_state"
  assume v: "vfs_inv ok hok v"
  then have "ok (vfs_backend v)" by (simp add: vfs_inv_def)
  from safe_ioD [OF assms this] obtain r s' where s: "io (vfs_backend v) = Done (r, s')" "ok s'"
    "\<forall>h. hok (vfs_backend v) h \<longrightarrow> hok s' h" by blast
  then show "\<exists>r v'. on_backend io v = Done (r, v') \<and> vfs_inv ok hok v'"
    using vfs_inv_backend [OF v, of s'] by (auto simp: on_backend_def)
qed

lemma vfs_inv_track:
  assumes "vfs_inv ok hok v" "normal_path p" "\<And>h. or_opened z = Some h \<Longrightarrow> hok (vfs_backend v) h"
  shows "vfs_inv ok hok (snd (track_open z p v))"
  using assms by (auto simp: track_open_def vfs_inv_def)

lemma forget_inv: "vfs_inv ok hok v \<Longrightarrow> vfs_inv ok hok (forget_fd fd v)"
  by (auto simp: vfs_inv_def forget_fd_def)

lemma clone_inv: "vfs_inv ok hok v \<Longrightarrow> 0 \<le> newfd \<Longrightarrow> vfs_inv ok hok (clone_fd oldfd newfd v)"
  by (auto simp: vfs_inv_def clone_fd_def split: option.splits)

lemma set_cwd_inv: "is_absolute p \<Longrightarrow> wf_path p \<Longrightarrow> vfs_inv ok hok v \<Longrightarrow> \<exists>v'. set_cwd p v = Done ((), v') \<and> vfs_inv ok hok v'"
  using resolve_dots_valid [of "[]" p] wf_valid_names [of p]
  by (auto simp: set_cwd_def normalize_names assert_absolute_def vfs_inv_def normal_path_iff)

lemma resolve_openat_names:
  assumes v: "vfs_inv ok hok v" and p: "wf_path p"
  obtains "resolve_openat_path v dirfd p = Done None"
  | ns where "resolve_openat_path v dirfd p = Done (Some (names_path ns))" "list_all valid_name ns"
proof -
  obtain cwd where cwd: "vfs_cwd v = names_path cwd" "list_all valid_name cwd"
    using v by (auto simp: vfs_inv_def normal_path_iff)
  show ?thesis
  proof (cases "is_absolute p \<or> dirfd = AT_FDCWD")
    case True
    then have "resolve_openat_path v dirfd p = Done (Some (names_path (names_from cwd p)))"
      using resolve_path_names [OF cwd(1), of p] by (auto simp: resolve_openat_path_def normalize_names names_from_def)
    then show ?thesis using that(2) names_from_valid [OF cwd(2) p] by blast
  next
    case False
    show ?thesis
    proof (cases "vfs_fds v dirfd")
      case None
      then show ?thesis using False that(1) by (simp add: resolve_openat_path_def)
    next
      case (Some info)
      then have "normal_path (fi_path info)" using v unfolding vfs_inv_def by blast
      then obtain ns where ns: "fi_path info = names_path ns" "list_all valid_name ns"
        by (auto simp: normal_path_iff)
      then have "resolve_openat_path v dirfd p = Done (Some (names_path (resolve_dots ns p)))"
        using False Some by (simp add: resolve_openat_path_def normalize_join)
      then show ?thesis using that(2) resolve_dots_valid [OF ns(2) wf_valid_names [OF p]] by blast
    qed
  qed
qed

section \<open>The dispatcher over backends\<close>

locale dispatcher =
  root: backend "rv_root rv" ok hok + files: opened_files ops ok hok
  for rv :: "('s, 'h) root_vfs" and ops :: "('s, 'h) opened_ops" and ok hok +
  assumes mount_backend: "rv_mounts rv p = Some fs \<Longrightarrow> backend fs ok hok"
begin

lemma fs_backend: "backend (fs_of rv r) ok hok"
  using root.backend_axioms mount_backend by (auto simp: fs_of_def split: fs_ref.split option.split)

lemma to_fs:
  assumes "list_all valid_name ns"
  obtains r q where "absolute_path_to_fs rv (names_path ns) = Done (r, q)" "normal_path q"
proof -
  obtain r rest where d: "dispatch rv ns = (r, rest)" by fastforce
  have "normal_path (names_path rest)" using dispatch_valid [OF assms d] by (auto simp: normal_path_iff)
  then show ?thesis using that d to_fs_names [of rv ns] by simp
qed

lemma path_to_fs_ok:
  assumes "vfs_inv ok hok v" "wf_path p"
  obtains r q where "path_to_fs rv v p = Done (r, q)" "normal_path q"
proof -
  obtain cwd where cwd: "vfs_cwd v = names_path cwd" "list_all valid_name cwd"
    using assms(1) by (auto simp: vfs_inv_def normal_path_iff)
  show ?thesis
    by (rule to_fs [OF names_from_valid [OF cwd(2) assms(2)]])
       (simp add: that path_to_fs_def resolve_path_names [OF cwd(1)])
qed

lemma on_path_safe:
  assumes p: "wf_path p" and f: "\<And>fs q. backend fs ok hok \<Longrightarrow> normal_path q \<Longrightarrow> safe_io ok hok (f fs q)"
  shows "vfs_safe ok hok (\<lambda>v. do { (fs, q) \<leftarrow> path_to_fs rv v p; on_backend (f (fs_of rv fs) q) v })"
  unfolding vfs_safe_def
proof (intro allI impI)
  fix v assume v: "vfs_inv ok hok v"
  obtain r q where rq: "path_to_fs rv v p = Done (r, q)" "normal_path q" using path_to_fs_ok [OF v p] .
  from vfs_safeD [OF on_backend_safe [OF f [OF fs_backend rq(2)]] v]
  show "\<exists>r v'. (do { (fs, q) \<leftarrow> path_to_fs rv v p; on_backend (f (fs_of rv fs) q) v }) = Done (r, v') \<and> vfs_inv ok hok v'"
    by (simp add: rq(1))
qed

lemma access_safe: "wf_path p \<Longrightarrow> vfs_safe ok hok (vfs_access rv p md)"
  unfolding vfs_access_def [abs_def] by (rule on_path_safe) (auto intro: backend.access_safe)

lemma mkdir_safe: "wf_path p \<Longrightarrow> vfs_safe ok hok (vfs_mkdir rv p mo)"
  unfolding vfs_mkdir_def [abs_def] by (rule on_path_safe) (auto intro: backend.mkdir_safe)

lemma unlink_safe: "wf_path p \<Longrightarrow> vfs_safe ok hok (vfs_unlink rv p)"
  unfolding vfs_unlink_def [abs_def] by (rule on_path_safe) (auto intro: backend.unlink_safe)

lemma rmdir_safe: "wf_path p \<Longrightarrow> vfs_safe ok hok (vfs_rmdir rv p)"
  unfolding vfs_rmdir_def [abs_def] by (rule on_path_safe) (auto intro: backend.rmdir_safe)

lemma chmod_safe: "wf_path p \<Longrightarrow> vfs_safe ok hok (vfs_chmod rv p mo)"
  unfolding vfs_chmod_def [abs_def] by (rule on_path_safe) (auto intro: backend.chmod_safe)

lemma stat_safe: "wf_path p \<Longrightarrow> vfs_safe ok hok (vfs_stat rv p sb)"
  unfolding vfs_stat_def [abs_def] by (rule on_path_safe) (auto intro: backend.stat_safe)

lemma read_dir_safe: "wf_path p \<Longrightarrow> vfs_safe ok hok (vfs_read_dir rv p)"
  unfolding vfs_read_dir_def [abs_def] by (rule on_path_safe) (auto intro: backend.read_dir_safe)

lemma on_virtual:
  assumes ns: "list_all valid_name ns" and v: "vfs_inv ok hok v"
    and f: "\<And>fs q. backend fs ok hok \<Longrightarrow> normal_path q \<Longrightarrow> safe_io ok hok (f fs q)"
  shows "\<exists>r v'. (do { (fs, q) \<leftarrow> absolute_path_to_fs rv (names_path ns); on_backend (f (fs_of rv fs) q) v }) = Done (r, v') \<and>
           vfs_inv ok hok v'"
proof -
  obtain r q where rq: "absolute_path_to_fs rv (names_path ns) = Done (r, q)" "normal_path q" using to_fs [OF ns] .
  from vfs_safeD [OF on_backend_safe [OF f [OF fs_backend rq(2)]] v] show ?thesis by (simp add: rq(1))
qed

lemma unlinkat_safe:
  assumes p: "wf_path p"
  shows "vfs_safe ok hok (vfs_unlinkat rv dirfd p fl)"
  unfolding vfs_safe_def
proof (intro allI impI)
  fix v assume v: "vfs_inv ok hok v"
  show "\<exists>r v'. vfs_unlinkat rv dirfd p fl v = Done (r, v') \<and> vfs_inv ok hok v'"
  proof (rule resolve_openat_names [OF v p, of dirfd])
    assume "resolve_openat_path v dirfd p = Done None"
    then show ?thesis using v by (simp add: vfs_unlinkat_def)
  next
    fix ns assume ns: "resolve_openat_path v dirfd p = Done (Some (names_path ns))" "list_all valid_name ns"
    show ?thesis
    proof (cases "fl AND AT_REMOVEDIR = 0")
      case True
      then show ?thesis using ns(1) on_virtual [OF ns(2) v, of fs_unlink, OF backend.unlink_safe] by (simp add: vfs_unlinkat_def)
    next
      case False
      then show ?thesis using ns(1) on_virtual [OF ns(2) v, of fs_rmdir, OF backend.rmdir_safe] by (simp add: vfs_unlinkat_def)
    qed
  qed
qed

lemma renameat_safe:
  assumes p: "wf_path p" and q: "wf_path q"
  shows "vfs_safe ok hok (vfs_renameat rv fd1 p fd2 q)"
  unfolding vfs_safe_def
proof (intro allI impI)
  fix v assume v: "vfs_inv ok hok v"
  show "\<exists>r v'. vfs_renameat rv fd1 p fd2 q v = Done (r, v') \<and> vfs_inv ok hok v'"
  proof (rule resolve_openat_names [OF v p, of fd1])
    assume "resolve_openat_path v fd1 p = Done None"
    then show ?thesis using v by (simp add: vfs_renameat_def)
  next
    fix ns assume ns: "resolve_openat_path v fd1 p = Done (Some (names_path ns))" "list_all valid_name ns"
    show ?thesis
    proof (rule resolve_openat_names [OF v q, of fd2])
      assume "resolve_openat_path v fd2 q = Done None"
      then show ?thesis using v ns(1) by (simp add: vfs_renameat_def)
    next
      fix ms assume ms: "resolve_openat_path v fd2 q = Done (Some (names_path ms))" "list_all valid_name ms"
      obtain r1 q1 where 1: "absolute_path_to_fs rv (names_path ns) = Done (r1, q1)" "normal_path q1" using to_fs [OF ns(2)] .
      obtain r2 q2 where 2: "absolute_path_to_fs rv (names_path ms) = Done (r2, q2)" "normal_path q2" using to_fs [OF ms(2)] .
      have "safe_io ok hok (fs_rename (fs_of rv r1) q1 q2)" using backend.rename_safe [OF fs_backend 1(2) 2(2)] .
      from vfs_safeD [OF on_backend_safe [OF this] v] show ?thesis
        using v ns(1) ms(1) 1(1) 2(1) by (auto simp: vfs_renameat_def)
    qed
  qed
qed

lemma rename_safe: "wf_path p \<Longrightarrow> wf_path q \<Longrightarrow> vfs_safe ok hok (vfs_rename rv p q)"
  unfolding vfs_rename_def [abs_def] by (rule renameat_safe)

lemma open_and_track_safe:
  assumes ns: "list_all valid_name ns"
  shows "vfs_safe ok hok (open_and_track rv (names_path ns) fl mo)"
  unfolding vfs_safe_def
proof (intro allI impI)
  fix v assume v: "vfs_inv ok hok v"
  obtain r q where rq: "absolute_path_to_fs rv (names_path ns) = Done (r, q)" "normal_path q" using to_fs [OF ns] .
  have "ok (vfs_backend v)" using v by (simp add: vfs_inv_def)
  from safe_openD [OF backend.open_with_handle_safe [OF fs_backend rq(2)] this]
  obtain z s' where z: "fs_open_with_handle (fs_of rv r) q fl mo (vfs_backend v) = Done (z, s')" "ok s'"
    "\<forall>h. hok (vfs_backend v) h \<longrightarrow> hok s' h" "\<forall>h. or_opened z = Some h \<longrightarrow> hok s' h" by blast
  have "vfs_inv ok hok (v\<lparr>vfs_backend := s'\<rparr>)" using vfs_inv_backend [where v = v and s' = s', OF v] z by blast
  then have "vfs_inv ok hok (snd (track_open z (names_path ns) (v\<lparr>vfs_backend := s'\<rparr>)))"
    by (rule vfs_inv_track) (use ns z(4) in \<open>auto simp: normal_path_iff\<close>)
  then show "\<exists>r v'. open_and_track rv (names_path ns) fl mo v = Done (r, v') \<and> vfs_inv ok hok v'"
    using rq(1) z(1) by (auto simp: open_and_track_def on_backend_def prod_eq_iff)
qed

lemma open_safe:
  assumes p: "wf_path p"
  shows "vfs_safe ok hok (vfs_open rv p fl mo)"
  unfolding vfs_safe_def
proof (intro allI impI)
  fix v assume v: "vfs_inv ok hok v"
  then obtain cwd where cwd: "vfs_cwd v = names_path cwd" "list_all valid_name cwd"
    by (auto simp: vfs_inv_def normal_path_iff)
  show "\<exists>r v'. vfs_open rv p fl mo v = Done (r, v') \<and> vfs_inv ok hok v'"
    using vfs_safeD [OF open_and_track_safe [OF names_from_valid [OF cwd(2) p]] v]
    by (simp add: vfs_open_def resolve_path_names [OF cwd(1)])
qed

lemma handle_of:
  assumes v: "vfs_inv ok hok v" and i: "vfs_fds v fd = Some i"
  shows "\<exists>ns. fi_path i = names_path ns \<and> list_all valid_name ns" "fi_opened i = Some h \<Longrightarrow> hok (vfs_backend v) h"
    "ok (vfs_backend v)"
proof -
  have "normal_path (fi_path i)" using v i unfolding vfs_inv_def by blast
  then show "\<exists>ns. fi_path i = names_path ns \<and> list_all valid_name ns" by (auto simp: normal_path_iff)
  show "fi_opened i = Some h \<Longrightarrow> hok (vfs_backend v) h" using v i unfolding vfs_inv_def by blast
  show "ok (vfs_backend v)" using v unfolding vfs_inv_def by blast
qed

lemma openat_handle_safe:
  assumes p: "wf_path p" and v: "vfs_inv ok hok v"
  shows "\<exists>r v'. openat_from_tracked_handle ops dirfd p fl mo v = Done (r, v') \<and> vfs_inv ok hok v'"
proof (cases "is_absolute p \<or> dirfd = AT_FDCWD \<or> vfs_fds v dirfd = None")
  case True
  then show ?thesis using v by (auto simp: openat_from_tracked_handle_def)
next
  case False
  then obtain i where i: "vfs_fds v dirfd = Some i" by auto
  obtain ns where ns: "fi_path i = names_path ns" "list_all valid_name ns" using handle_of(1) [OF v i] by blast
  have vp: "normalize_absolute (join (fi_path i) p) = Done (names_path (resolve_dots ns p))"
    using False ns by (simp add: normalize_join)
  have val: "normal_path (names_path (resolve_dots ns p))"
    using resolve_dots_valid [OF ns(2) wf_valid_names [OF p]] by (auto simp: normal_path_iff)
  show ?thesis
  proof (cases "fi_opened i")
    case None
    then show ?thesis using False i vp v by (simp add: openat_from_tracked_handle_def)
  next
    case (Some h)
    obtain r s' where s: "op_open_child ops h p fl mo (vfs_backend v) = Done (r, s')" "ok s'"
      "\<forall>h'. hok (vfs_backend v) h' \<longrightarrow> hok s' h'" "\<forall>z h'. r = Some z \<longrightarrow> or_opened z = Some h' \<longrightarrow> hok s' h'"
      using files.op_open_ok [OF handle_of(3) [OF v i] handle_of(2) [OF v i Some]] by blast
    have v': "vfs_inv ok hok (v\<lparr>vfs_backend := s'\<rparr>)" using vfs_inv_backend [where v = v and s' = s', OF v] s by blast
    have "vfs_inv ok hok (snd (track_open z (names_path (resolve_dots ns p)) (v\<lparr>vfs_backend := s'\<rparr>)))" if "r = Some z" for z
      by (rule vfs_inv_track [OF v' val]) (use s(4) that in auto)
    then show ?thesis
      using False i vp Some s(1) v'
      by (cases r) (auto simp: openat_from_tracked_handle_def on_backend_def split: prod.split)
  qed
qed

lemma openat_safe:
  assumes p: "wf_path p"
  shows "vfs_safe ok hok (vfs_openat rv ops dirfd p fl mo)"
  unfolding vfs_safe_def
proof (intro allI impI)
  fix v assume "vfs_inv ok hok v"
  then obtain r v1 where o: "openat_from_tracked_handle ops dirfd p fl mo v = Done (r, v1)" and v1: "vfs_inv ok hok v1"
    using openat_handle_safe [OF p] by blast
  show "\<exists>r v'. vfs_openat rv ops dirfd p fl mo v = Done (r, v') \<and> vfs_inv ok hok v'"
  proof (cases r)
    case (Some fd)
    then show ?thesis using o v1 by (simp add: vfs_openat_def)
  next
    case None
    show ?thesis
    proof (rule resolve_openat_names [OF v1 p, of dirfd])
      assume "resolve_openat_path v1 dirfd p = Done None"
      then show ?thesis using o None v1 by (simp add: vfs_openat_def)
    next
      fix ns assume "resolve_openat_path v1 dirfd p = Done (Some (names_path ns))" "list_all valid_name ns"
      then show ?thesis using o None vfs_safeD [OF open_and_track_safe v1] by (simp add: vfs_openat_def)
    qed
  qed
qed

lemma mkdirat_safe:
  assumes p: "wf_path p"
  shows "vfs_safe ok hok (vfs_mkdirat rv ops dirfd p mo)"
  unfolding vfs_safe_def
proof (intro allI impI)
  fix v assume v: "vfs_inv ok hok v"
  have "\<exists>r v1. mkdirat_from_tracked_handle ops dirfd p mo v = Done (r, v1) \<and> vfs_inv ok hok v1"
  proof (cases "is_absolute p \<or> dirfd = AT_FDCWD \<or> vfs_fds v dirfd = None")
    case True
    then show ?thesis using v by (auto simp: mkdirat_from_tracked_handle_def)
  next
    case False
    then obtain i where i: "vfs_fds v dirfd = Some i" by auto
    show ?thesis
    proof (cases "fi_opened i")
      case None
      then show ?thesis using False i v by (simp add: mkdirat_from_tracked_handle_def)
    next
      case (Some h)
      obtain r s' where s: "op_mkdir_child ops h p mo (vfs_backend v) = Done (r, s')" "ok s'"
        "\<forall>h'. hok (vfs_backend v) h' \<longrightarrow> hok s' h'"
        using files.op_mkdir_ok [OF handle_of(3) [OF v i] handle_of(2) [OF v i Some]] by blast
      then show ?thesis
        using False i Some vfs_inv_backend [where v = v and s' = s', OF v]
        by (auto simp: mkdirat_from_tracked_handle_def on_backend_def)
    qed
  qed
  then obtain r v1 where o: "mkdirat_from_tracked_handle ops dirfd p mo v = Done (r, v1)" and v1: "vfs_inv ok hok v1" by blast
  show "\<exists>r v'. vfs_mkdirat rv ops dirfd p mo v = Done (r, v') \<and> vfs_inv ok hok v'"
  proof (cases r)
    case (Some fd)
    then show ?thesis using o v1 by (simp add: vfs_mkdirat_def)
  next
    case None
    show ?thesis
    proof (rule resolve_openat_names [OF v1 p, of dirfd])
      assume "resolve_openat_path v1 dirfd p = Done None"
      then show ?thesis using o None v1 by (simp add: vfs_mkdirat_def)
    next
      fix ns assume ns: "resolve_openat_path v1 dirfd p = Done (Some (names_path ns))" "list_all valid_name ns"
      then show ?thesis
        using o None on_virtual [OF ns(2) v1, of "\<lambda>fs q. fs_mkdir fs q mo", OF backend.mkdir_safe] by (simp add: vfs_mkdirat_def)
    qed
  qed
qed

lemma fstat_safe: "vfs_safe ok hok (vfs_fstat ops fd sb)"
  unfolding vfs_safe_def
proof (intro allI impI)
  fix v assume v: "vfs_inv ok hok v"
  show "\<exists>r v'. vfs_fstat ops fd sb v = Done (r, v') \<and> vfs_inv ok hok v'"
  proof (cases "\<exists>i h. vfs_fds v fd = Some i \<and> fi_opened i = Some h")
    case False
    then show ?thesis using v by (auto simp: vfs_fstat_def split: option.split)
  next
    case True
    then obtain i h where i: "vfs_fds v fd = Some i" and h: "fi_opened i = Some h" by blast
    obtain r s' where "op_stat ops h sb (vfs_backend v) = Done (r, s')" "ok s'" "\<forall>h'. hok (vfs_backend v) h' \<longrightarrow> hok s' h'"
      using files.op_stat_ok [OF handle_of(3) [OF v i] handle_of(2) [OF v i h]] by blast
    then show ?thesis
      using i h vfs_inv_backend [where v = v and s' = s', OF v] by (auto simp: vfs_fstat_def on_backend_def)
  qed
qed

lemma dir_entries_safe:
  assumes v: "vfs_inv ok hok v" and i: "vfs_fds v fd = Some i"
  shows "\<exists>r v'. dir_entries rv ops i v = Done (r, v') \<and> vfs_inv ok hok v' \<and> vfs_fds v' = vfs_fds v"
proof -
  obtain ns where ns: "fi_path i = names_path ns" "list_all valid_name ns" using handle_of(1) [OF v i] by blast
  have fin: "\<exists>r v'. (do { (fs, q) \<leftarrow> absolute_path_to_fs rv (fi_path i);
       (r, v) \<leftarrow> on_backend (fs_read_dir (fs_of rv fs) q) v1; Done (map_option (\<lambda>es. dot_entries @ es) r, v) }) = Done (r, v') \<and>
      vfs_inv ok hok v' \<and> vfs_fds v' = vfs_fds v1" if v1: "vfs_inv ok hok v1" for v1
  proof -
    obtain r q where rq: "absolute_path_to_fs rv (names_path ns) = Done (r, q)" "normal_path q" using to_fs [OF ns(2)] .
    have "ok (vfs_backend v1)" using v1 by (simp add: vfs_inv_def)
    from safe_ioD [OF backend.read_dir_safe [OF fs_backend rq(2)] this]
    obtain es s' where "fs_read_dir (fs_of rv r) q (vfs_backend v1) = Done (es, s')" "ok s'"
      "\<forall>h. hok (vfs_backend v1) h \<longrightarrow> hok s' h" by blast
    then show ?thesis
      using ns(1) rq(1) vfs_inv_backend [where v = v1 and s' = s', OF v1] by (auto simp: on_backend_def)
  qed
  show ?thesis
  proof (cases "fi_opened i")
    case None
    then show ?thesis using fin [OF v] by (simp add: dir_entries_def)
  next
    case (Some h)
    obtain r s' where s: "op_read_dir ops h (vfs_backend v) = Done (r, s')" "ok s'" "\<forall>h'. hok (vfs_backend v) h' \<longrightarrow> hok s' h'"
      using files.op_read_ok [OF handle_of(3) [OF v i] handle_of(2) [OF v i Some]] by blast
    have v1: "vfs_inv ok hok (v\<lparr>vfs_backend := s'\<rparr>)" using vfs_inv_backend [where v = v and s' = s', OF v] s by blast
    then show ?thesis using Some s(1) fin [OF v1] by (cases r) (auto simp: dir_entries_def on_backend_def)
  qed
qed

end

end
