(* ===== verification/VfsRun.thy ===== *)
theory VfsRun
  imports VfsInv
begin

text \<open>
  Sequences of calls of the dispatcher, and the two kinds of dispatchers the program builds: an
  in-memory root, and an overlay of two host directories with at most one in-memory mount.
\<close>

section \<open>Sequences of calls\<close>

datatype vfs_call =
    CallAccess path int
  | CallOpen path flags mode_t
  | CallOpenat fd path flags mode_t
  | CallMkdir path mode_t
  | CallMkdirat fd path mode_t
  | CallUnlink path
  | CallRmdir path
  | CallUnlinkat fd path flags
  | CallRename path path
  | CallRenameat fd path fd path
  | CallChmod path mode_t
  | CallStat path stat_buf
  | CallFstat fd stat_buf
  | CallReadDir path
  | CallSetCwd path
  | CallForget fd
  | CallClone fd fd

text \<open>One call; the listings and buffers it returns are dropped, the state is what matters here.\<close>

fun do_call ::
  "('s, 'h) root_vfs \<Rightarrow> ('s, 'h) opened_ops \<Rightarrow> vfs_call \<Rightarrow> (('s, 'h) vfs_state, int) io" where
  "do_call rv ops (CallAccess p md) v = vfs_access rv p md v"
| "do_call rv ops (CallOpen p fl mo) v = vfs_open rv p fl mo v"
| "do_call rv ops (CallOpenat d p fl mo) v = vfs_openat rv ops d p fl mo v"
| "do_call rv ops (CallMkdir p mo) v = vfs_mkdir rv p mo v"
| "do_call rv ops (CallMkdirat d p mo) v = vfs_mkdirat rv ops d p mo v"
| "do_call rv ops (CallUnlink p) v = vfs_unlink rv p v"
| "do_call rv ops (CallRmdir p) v = vfs_rmdir rv p v"
| "do_call rv ops (CallUnlinkat d p fl) v = vfs_unlinkat rv d p fl v"
| "do_call rv ops (CallRename p q) v = vfs_rename rv p q v"
| "do_call rv ops (CallRenameat d p e q) v = vfs_renameat rv d p e q v"
| "do_call rv ops (CallChmod p mo) v = vfs_chmod rv p mo v"
| "do_call rv ops (CallStat p sb) v = do { ((r, _), v) \<leftarrow> vfs_stat rv p sb v; Done (r, v) }"
| "do_call rv ops (CallFstat d sb) v =
     do { (r, v) \<leftarrow> vfs_fstat ops d sb v; Done (case r of None \<Rightarrow> -1 | Some (r, _) \<Rightarrow> r, v) }"
| "do_call rv ops (CallReadDir p) v =
     do { (r, v) \<leftarrow> vfs_read_dir rv p v; Done (case r of None \<Rightarrow> -1 | Some es \<Rightarrow> int (length es), v) }"
| "do_call rv ops (CallSetCwd p) v = do { (_, v) \<leftarrow> set_cwd p v; Done (0, v) }"
| "do_call rv ops (CallForget d) v = Done (0, forget_fd d v)"
| "do_call rv ops (CallClone d e) v = Done (e, clone_fd d e v)"

fun do_calls ::
  "('s, 'h) root_vfs \<Rightarrow> ('s, 'h) opened_ops \<Rightarrow> vfs_call list \<Rightarrow> (('s, 'h) vfs_state, int list) io" where
  "do_calls rv ops [] v = Done ([], v)"
| "do_calls rv ops (c # cs) v =
     do { (r, v) \<leftarrow> do_call rv ops c v; (rs, v) \<leftarrow> do_calls rv ops cs v; Done (r # rs, v) }"

text \<open>
  The paths a C caller can pass are parsed from bytes, so they are well formed; the descriptor a
  \<open>dup\<close> returned is not negative; \<open>set_cwd\<close> asks for an absolute path.
\<close>

fun call_ok :: "vfs_call \<Rightarrow> bool" where
  "call_ok (CallAccess p md) = wf_path p"
| "call_ok (CallOpen p fl mo) = wf_path p"
| "call_ok (CallOpenat d p fl mo) = wf_path p"
| "call_ok (CallMkdir p mo) = wf_path p"
| "call_ok (CallMkdirat d p mo) = wf_path p"
| "call_ok (CallUnlink p) = wf_path p"
| "call_ok (CallRmdir p) = wf_path p"
| "call_ok (CallUnlinkat d p fl) = wf_path p"
| "call_ok (CallRename p q) = (wf_path p \<and> wf_path q)"
| "call_ok (CallRenameat d p e q) = (wf_path p \<and> wf_path q)"
| "call_ok (CallChmod p mo) = wf_path p"
| "call_ok (CallStat p sb) = wf_path p"
| "call_ok (CallFstat d sb) = True"
| "call_ok (CallReadDir p) = wf_path p"
| "call_ok (CallSetCwd p) = (wf_path p \<and> is_absolute p)"
| "call_ok (CallForget d) = True"
| "call_ok (CallClone d e) = (0 \<le> e)"

lemma vfs_init_inv: "ok s \<Longrightarrow> vfs_inv ok hok (vfs_init s)"
  by (simp add: vfs_inv_def vfs_init_def)

context dispatcher
begin

lemma do_call_safe: "call_ok c \<Longrightarrow> vfs_inv ok hok v \<Longrightarrow> \<exists>r v'. do_call rv ops c v = Done (r, v') \<and> vfs_inv ok hok v'"
proof (cases c)
  case (CallStat p sb)
  assume "call_ok c" "vfs_inv ok hok v"
  then obtain r v' where "vfs_stat rv p sb v = Done (r, v')" "vfs_inv ok hok v'"
    using CallStat vfs_safeD [OF stat_safe] by fastforce
  then show ?thesis using CallStat by (cases r) simp
next
  case (CallFstat d sb)
  assume "vfs_inv ok hok v"
  then obtain r v' where "vfs_fstat ops d sb v = Done (r, v')" "vfs_inv ok hok v'"
    using vfs_safeD [OF fstat_safe] by blast
  then show ?thesis using CallFstat by simp
next
  case (CallReadDir p)
  assume "call_ok c" "vfs_inv ok hok v"
  then obtain r v' where "vfs_read_dir rv p v = Done (r, v')" "vfs_inv ok hok v'"
    using CallReadDir vfs_safeD [OF read_dir_safe] by fastforce
  then show ?thesis using CallReadDir by simp
next
  case (CallSetCwd p)
  assume "call_ok c" "vfs_inv ok hok v"
  then obtain v' where "set_cwd p v = Done ((), v')" "vfs_inv ok hok v'"
    using CallSetCwd set_cwd_inv [of p ok hok v] by auto
  then show ?thesis using CallSetCwd by simp
next
  case (CallForget d)
  assume "vfs_inv ok hok v"
  then show ?thesis using CallForget forget_inv by simp
next
  case (CallClone d e)
  assume "call_ok c" "vfs_inv ok hok v"
  then show ?thesis using CallClone clone_inv by simp
qed (simp_all add: vfs_safeD access_safe open_safe openat_safe mkdir_safe mkdirat_safe unlink_safe
      rmdir_safe unlinkat_safe rename_safe renameat_safe chmod_safe)

lemma do_calls_safe:
  "\<forall>c \<in> set cs. call_ok c \<Longrightarrow> vfs_inv ok hok v \<Longrightarrow>
     \<exists>rs v'. do_calls rv ops cs v = Done (rs, v') \<and> length rs = length cs \<and> vfs_inv ok hok v'"
proof (induction cs arbitrary: v)
  case (Cons c cs)
  then obtain r v1 where 1: "do_call rv ops c v = Done (r, v1)" "vfs_inv ok hok v1"
    using do_call_safe [of c v] by auto
  then obtain rs v2 where "do_calls rv ops cs v1 = Done (rs, v2)" "length rs = length cs" "vfs_inv ok hok v2"
    using Cons.IH [of v1] Cons.prems by auto
  with 1 show ?case by simp
qed simp

end

section \<open>The configurations\<close>

definition memory_root :: "'k kernel \<Rightarrow> memory_fs \<Rightarrow> ('k world, opened_file) root_vfs" where
  "memory_root K fs = root_vfs_new (memory_fs_ops K fs)"

definition overlay_root :: "'k kernel \<Rightarrow> bind_fs \<Rightarrow> bind_fs \<Rightarrow> ('k world, opened_file) root_vfs" where
  "overlay_root K upper lower =
     root_vfs_new (overlay_fs_ops (overlay_new ''overlay'' (bind_fs_ops K upper) (bind_fs_ops K lower)))"

definition overlay_with_memory ::
  "'k kernel \<Rightarrow> bind_fs \<Rightarrow> bind_fs \<Rightarrow> path \<Rightarrow> memory_fs \<Rightarrow> ('k world, opened_file) root_vfs" where
  "overlay_with_memory K upper lower mp fs = with_mount (overlay_root K upper lower) mp (memory_fs_ops K fs)"

lemma memory_root_sel [simp]:
  "rv_root (memory_root K fs) = memory_fs_ops K fs" "rv_mounts (memory_root K fs) p = None"
  by (simp_all add: memory_root_def root_vfs_new_def)

lemma overlay_root_sel [simp]:
  "rv_root (overlay_root K upper lower) = overlay_fs_ops (overlay_new ''overlay'' (bind_fs_ops K upper) (bind_fs_ops K lower))"
  "rv_mounts (overlay_root K upper lower) p = None"
  by (simp_all add: overlay_root_def root_vfs_new_def)

lemma overlay_with_memory_sel [simp]:
  "rv_root (overlay_with_memory K upper lower mp fs) = rv_root (overlay_root K upper lower)"
  "rv_mounts (overlay_with_memory K upper lower mp fs) p = (if p = mp then Some (memory_fs_ops K fs) else None)"
  by (simp_all add: overlay_with_memory_def with_mount_def)

interpretation mem_vfs: dispatcher "memory_root K fs" "memory_opened_ops K" "mem_ok (insert fs F)" handle_ok
  for K :: "'k kernel" and fs F
  by (rule dispatcher.intro) (simp_all add: dispatcher_axioms_def mem.backend_axioms mem_files.opened_files_axioms)

interpretation host_vfs: dispatcher "overlay_root K upper lower" "memory_opened_ops K" "mem_ok F" handle_ok
  for K :: "'k kernel" and upper lower F
  by (rule dispatcher.intro)
     (simp_all add: dispatcher_axioms_def host_overlay.overlay.backend_axioms mem_files.opened_files_axioms)

interpretation mixed_vfs: dispatcher "overlay_with_memory K upper lower mp fs" "memory_opened_ops K"
    "mem_ok (insert fs F)" handle_ok
  for K :: "'k kernel" and upper lower mp fs F
  by (rule dispatcher.intro)
     (simp_all add: dispatcher_axioms_def host_overlay.overlay.backend_axioms mem.backend_axioms
       mem_files.opened_files_axioms)

end
