(* ===== verification/VfsProps.thy ===== *)
theory VfsProps
  imports VfsRun MemoryProps OverlayProps
begin

text \<open>
  What the mount dispatcher guarantees: path normalisation, the choice of the mount, that no
  sequence of calls panics, the descriptor table, calls through handles, and the enumeration of a
  directory by repeated \<open>getdents64\<close>.
\<close>

section \<open>Paths and mounts\<close>

lemma resolve_dots_join:
  assumes "is_absolute p" and "\<not> is_absolute r"
  shows "resolve_dots ns (join p r) = resolve_dots (resolve_dots ns p) r"
proof (cases "r \<noteq> [] \<and> hd r = CurDir")
  case True
  then obtain q where "r = CurDir # q" by (cases r) auto
  moreover have "p \<noteq> []" using assms(1) by auto
  ultimately show ?thesis by (simp add: join_def resolve_dots_append)
next
  case False
  then have "join p r = p @ r" using assms(2) by (auto simp: join_def)
  then show ?thesis by (simp add: resolve_dots_append)
qed

lemma normalize_join_absolute:
  "is_absolute p \<Longrightarrow> \<not> is_absolute r \<Longrightarrow>
     normalize_absolute (join p r) = Done (names_path (resolve_dots (resolve_dots [] p) r))"
  by (simp add: normalize_names join_absolute_wf resolve_dots_join)

text \<open>Normalisation of an absolute path never panics and gives a normal form: applied to its result it
  changes nothing, and normalising \<open>p\<close> first changes no later meaning: \<open>p/r\<close> and \<open>q/r\<close> normalise
  alike, \<open>p/x\<close> to \<open>q/x\<close>, \<open>p/..\<close> to the parent of \<open>q\<close> (\<open>/\<close> being its own parent) and \<open>p/.\<close> to
  \<open>q\<close>. From well-formed components it has names only.\<close>

theorem normalize_canonical:
  assumes "is_absolute p"
  shows "\<exists>q. normalize_absolute p = Done q \<and> normalize_absolute q = Done q \<and>
     (wf_path p \<longrightarrow> normal_path q) \<and>
     (\<forall>r. normalize_absolute (join p r) = normalize_absolute (join q r)) \<and>
     (\<forall>x. normalize_absolute (join p [Normal x]) = Done (q @ [Normal x])) \<and>
     normalize_absolute (join p [ParentDir]) = Done (pop q) \<and> normalize_absolute (join p [CurDir]) = Done q"
proof (intro exI conjI allI impI)
  let ?q = "names_path (resolve_dots [] p)"
  show "normalize_absolute p = Done ?q" using assms by (rule normalize_names)
  show "normalize_absolute ?q = Done ?q" by (simp add: normalize_names path_simps)
  show "normal_path ?q" if "wf_path p"
    using resolve_dots_valid [of "[]" p] wf_valid_names [OF that] by (auto simp: normal_path_iff)
  show "normalize_absolute (join p r) = normalize_absolute (join ?q r)" for r
  proof (cases "is_absolute r")
    case True
    then show ?thesis by (simp add: join_def)
  next
    case False
    then show ?thesis using assms by (simp add: normalize_join_absolute path_simps)
  qed
  show "normalize_absolute (join p [Normal x]) = Done (?q @ [Normal x])" for x
    using assms by (simp add: normalize_join_absolute names_path_def)
  show "normalize_absolute (join p [ParentDir]) = Done (pop ?q)"
    and "normalize_absolute (join p [CurDir]) = Done ?q"
    using assms by (simp_all add: normalize_join_absolute path_simps)
qed

theorem normalize_canonical_witness:
  "normalize_absolute [RootDir, ParentDir, Normal ''a'', ParentDir, Normal ''b''] = Done [RootDir, Normal ''b''] \<and>
   (\<exists>q. normalize_absolute [RootDir, Normal ''a'', ParentDir] = Done q \<and> normalize_absolute q = Done q)"
proof
  show "normalize_absolute [RootDir, ParentDir, Normal ''a'', ParentDir, Normal ''b''] = Done [RootDir, Normal ''b'']"
    by code_simp
  show "\<exists>q. normalize_absolute [RootDir, Normal ''a'', ParentDir] = Done q \<and> normalize_absolute q = Done q"
    using normalize_canonical [of "[RootDir, Normal ''a'', ParentDir]"] by auto
qed

text \<open>The longest mounted prefix is unique.\<close>

definition longest_prefix :: "('s, 'h) root_vfs \<Rightarrow> string list \<Rightarrow> string list \<Rightarrow> bool" where
  "longest_prefix rv ns ms \<longleftrightarrow>
     ms \<noteq> [] \<and> rv_mounts rv (names_path ms) \<noteq> None \<and> prefix ms ns \<and>
     (\<nexists>ls. rv_mounts rv (names_path ls) \<noteq> None \<and> prefix ls ns \<and> length ms < length ls)"

lemma longest_prefix_unique:
  assumes 1: "longest_prefix rv ns ms" and 2: "longest_prefix rv ns ms'"
  shows "ms = ms'"
proof -
  have "\<not> length ms < length ms'" "\<not> length ms' < length ms" using 1 2 unfolding longest_prefix_def by blast+
  then show ?thesis using 1 2 by (auto simp: longest_prefix_def prefix_def append_eq_append_conv)
qed

lemma dispatch_longest_prefix:
  obtains "dispatch rv ns = (RootFs, ns)" "\<nexists>ms. ms \<noteq> [] \<and> rv_mounts rv (names_path ms) \<noteq> None \<and> prefix ms ns"
  | ms where "dispatch rv ns = (MountFs (names_path ms), drop (length ms) ns)" "longest_prefix rv ns ms"
proof (cases rule: dispatch_cases [of rv ns])
  case 1
  then show thesis using that(1) unfolding mounted_def by blast
next
  case (2 ms)
  have "\<not> length ms < length ls" if "rv_mounts rv (names_path ls) \<noteq> None" "prefix ls ns" for ls
    using 2(4) [OF that(2)] that(1) by (cases "ls = []") (auto simp: mounted_def)
  then have "longest_prefix rv ns ms" using 2(2,3) unfolding mounted_def longest_prefix_def by blast
  then show thesis by (rule that(2) [OF 2(1)])
qed

text \<open>C14: A normal path is dispatched to the longest mount point that is a prefix of it, with the rest of the
  path below \<open>/\<close> of that file system; a path below no mount point goes to the root file system as
  it is. A mount at \<open>/\<close> is never used.\<close>

theorem longest_mount:
  "(\<exists>r. absolute_path_to_fs rv (names_path ns) = Done r) \<and>
   (absolute_path_to_fs rv (names_path ns) = Done (RootFs, q) \<longleftrightarrow>
      q = names_path ns \<and> (\<nexists>ms. ms \<noteq> [] \<and> rv_mounts rv (names_path ms) \<noteq> None \<and> prefix ms ns)) \<and>
   (absolute_path_to_fs rv (names_path ns) = Done (MountFs p, q) \<longleftrightarrow>
      (\<exists>ms rest. p = names_path ms \<and> ns = ms @ rest \<and> q = names_path rest \<and>
         ms \<noteq> [] \<and> rv_mounts rv (names_path ms) \<noteq> None \<and>
         (\<nexists>ls. rv_mounts rv (names_path ls) \<noteq> None \<and> prefix ls ns \<and> length ms < length ls)))"
proof (cases rule: dispatch_longest_prefix [of rv ns])
  case 1
  then show ?thesis by (auto simp: to_fs_names prefix_def)
next
  case (2 ms)
  obtain rest where ns: "ns = ms @ rest" using 2(2) by (auto simp: longest_prefix_def prefix_def)
  have D: "absolute_path_to_fs rv (names_path ns) = Done (MountFs (names_path ms), names_path rest)"
    using 2(1) ns by (simp add: to_fs_names)
  have eq: "ms' = ms \<and> rest' = rest"
    if "ns = ms' @ rest'" "ms' \<noteq> []" "rv_mounts rv (names_path ms') \<noteq> None"
      "\<nexists>ls. rv_mounts rv (names_path ls) \<noteq> None \<and> prefix ls ns \<and> length ms' < length ls" for ms' rest'
  proof -
    have "longest_prefix rv ns ms'" using that unfolding longest_prefix_def by (auto simp: prefix_def)
    then have "ms' = ms" using longest_prefix_unique 2(2) by blast
    then show ?thesis using that(1) ns by simp
  qed
  show ?thesis
    unfolding D using 2(2) ns eq unfolding longest_prefix_def by (intro conjI) (blast | simp)+
qed

section \<open>Sequences of calls\<close>



section \<open>The table of tracked descriptors\<close>

lemma on_backend_keeps: "on_backend io v = Done (r, v') \<Longrightarrow> vfs_fds v' = vfs_fds v \<and> vfs_cwd v' = vfs_cwd v"
  by (auto simp: on_backend_def bind_eq_Some_conv)

lemma track_open_effect:
  "track_open z p v = (fd, v') \<Longrightarrow> vfs_cwd v' = vfs_cwd v \<and>
     vfs_fds v' = (if 0 \<le> fd then (vfs_fds v)(fd \<mapsto> \<lparr>fi_path = p, dir_offset = 0, fi_opened = or_opened z\<rparr>)
                   else vfs_fds v)"
  by (auto simp: track_open_def)

lemma open_and_track_effect:
  assumes "open_and_track rv p fl mo v = Done (fd, v')"
  shows "vfs_cwd v' = vfs_cwd v \<and>
     (\<exists>h. vfs_fds v' = (if 0 \<le> fd then (vfs_fds v)(fd \<mapsto> \<lparr>fi_path = p, dir_offset = 0, fi_opened = h\<rparr>)
                   else vfs_fds v))"
proof -
  obtain r q z v1 where "on_backend (fs_open_with_handle (fs_of rv r) q fl mo) v = Done (z, v1)" "track_open z p v1 = (fd, v')"
    using assms by (auto simp: open_and_track_def bind_eq_Some_conv)
  then show ?thesis using on_backend_keeps track_open_effect by metis
qed

lemma resolve_openat_cong:
  "vfs_fds v' = vfs_fds v \<Longrightarrow> vfs_cwd v' = vfs_cwd v \<Longrightarrow> resolve_openat_path v' d p = resolve_openat_path v d p"
  by (simp add: resolve_openat_path_def resolve_path_def)

text \<open>The descriptor table after a call that tracks what it opened, and after any other.\<close>

definition tracks :: "('s, 'h) vfs_state \<Rightarrow> fd \<Rightarrow> path \<Rightarrow> int \<Rightarrow> ('s, 'h) vfs_state \<Rightarrow> bool" where
  "tracks v d p fd v' \<longleftrightarrow> vfs_cwd v' = vfs_cwd v \<and>
     (if 0 \<le> fd
      then \<exists>q h. resolve_openat_path v d p = Done (Some q) \<and>
             vfs_fds v' = (vfs_fds v)(fd \<mapsto> \<lparr>fi_path = q, dir_offset = 0, fi_opened = h\<rparr>)
      else vfs_fds v' = vfs_fds v)"

lemma open_tracks:
  assumes "vfs_open rv p fl mo v = Done (fd, v')"
  shows "tracks v AT_FDCWD p fd v'"
proof -
  obtain q where "resolve_path v p = Done q" "open_and_track rv q fl mo v = Done (fd, v')"
    using assms by (auto simp: vfs_open_def bind_eq_Some_conv)
  moreover from this have "resolve_openat_path v AT_FDCWD p = Done (Some q)"
    by (auto simp: resolve_openat_path_def resolve_path_def split: if_splits)
  ultimately show ?thesis using open_and_track_effect by (fastforce simp: tracks_def)
qed

lemma handle_open_tracks:
  assumes "openat_from_tracked_handle ops d p fl mo v = Done (r, v')"
  shows "case r of Some fd \<Rightarrow> tracks v d p fd v' | None \<Rightarrow> vfs_fds v' = vfs_fds v \<and> vfs_cwd v' = vfs_cwd v"
proof (cases "is_absolute p \<or> d = AT_FDCWD \<or> vfs_fds v d = None")
  case True
  then have "openat_from_tracked_handle ops d p fl mo v = Done (None, v)"
    by (auto simp: openat_from_tracked_handle_def)
  then show ?thesis using assms by auto
next
  case False
  then obtain i where i: "vfs_fds v d = Some i" by auto
  then obtain q where q: "normalize_absolute (join (fi_path i) p) = Done q"
    using False assms by (auto simp: openat_from_tracked_handle_def bind_eq_Some_conv)
  have at: "resolve_openat_path v d p = Done (Some q)" using False i q by (simp add: resolve_openat_path_def)
  show ?thesis
  proof (cases "fi_opened i")
    case None
    then show ?thesis using False i q assms by (simp add: openat_from_tracked_handle_def)
  next
    case (Some h)
    then obtain z v1 where z: "on_backend (op_open_child ops h p fl mo) v = Done (z, v1)"
      "(r, v') = (case z of None \<Rightarrow> (None, v1) | Some result \<Rightarrow> (let (fd, v) = track_open result q v1 in (Some fd, v)))"
      using False i q assms by (auto simp: openat_from_tracked_handle_def bind_eq_Some_conv)
    show ?thesis
    proof (cases z)
      case None
      then show ?thesis using z(2) on_backend_keeps [OF z(1)] by auto
    next
      case (Some result)
      then obtain fd where t: "track_open result q v1 = (fd, v')" "r = Some fd"
        using z(2) by (auto split: prod.splits)
      then show ?thesis using at track_open_effect [OF t(1)] on_backend_keeps [OF z(1)] by (auto simp: tracks_def)
    qed
  qed
qed

lemma openat_tracks:
  assumes "vfs_openat rv ops d p fl mo v = Done (fd, v')"
  shows "tracks v d p fd v'"
proof -
  obtain r v1 where r: "openat_from_tracked_handle ops d p fl mo v = Done (r, v1)"
    and fin: "(case r of Some fd \<Rightarrow> Done (fd, v1)
      | None \<Rightarrow> do { p \<leftarrow> resolve_openat_path v1 d p;
          (case p of None \<Rightarrow> Done (-1, v1) | Some virtual_path \<Rightarrow> open_and_track rv virtual_path fl mo v1) }) = Done (fd, v')"
    using assms by (auto simp: vfs_openat_def bind_eq_Some_conv)
  note t = handle_open_tracks [OF r]
  show ?thesis
  proof (cases r)
    case (Some fd')
    then show ?thesis using t fin by simp
  next
    case None
    then have same: "vfs_fds v1 = vfs_fds v" "vfs_cwd v1 = vfs_cwd v" using t by auto
    from None fin obtain q where q: "resolve_openat_path v d p = Done q"
      "(case q of None \<Rightarrow> Done (-1, v1) | Some virtual_path \<Rightarrow> open_and_track rv virtual_path fl mo v1) = Done (fd, v')"
      using resolve_openat_cong [OF same, of d p] by (auto simp: bind_eq_Some_conv)
    show ?thesis
    proof (cases q)
      case None
      then show ?thesis using q(2) same by (auto simp: tracks_def)
    next
      case (Some vp)
      then have "open_and_track rv vp fl mo v1 = Done (fd, v')" using q(2) by simp
      from open_and_track_effect [OF this] show ?thesis
        using Some q(1) same unfolding tracks_def by (cases "0 \<le> fd") auto
    qed
  qed
qed


text \<open>A state of the dispatcher over the sample world: \<open>/d\<close> open as 7 and 8, current directory \<open>/d\<close>.\<close>

definition sample_vfs :: "(nat world, opened_file) vfs_state" where
  "sample_vfs = \<lparr>vfs_cwd = names_path [''d''],
     vfs_fds = (\<lambda>_. None)(7 \<mapsto> \<lparr>fi_path = names_path [''d''], dir_offset = 0, fi_opened = Some (MemoryOpenedFile 2 1)\<rparr>),
     vfs_backend = sample_world\<rparr>"


section \<open>An in-memory file system behind the dispatcher\<close>

lemma path_to_fs_dispatch:
  "vfs_cwd v = names_path base \<Longrightarrow>
     path_to_fs rv v p = Done (case dispatch rv (names_from base p) of (r, rest) \<Rightarrow> (r, names_path rest))"
  by (simp add: path_to_fs_def resolve_path_names to_fs_names)

lemma dispatch_one_mount:
  assumes "ms \<noteq> []"
  shows "dispatch (overlay_with_memory K upper lower (names_path ms) fs) ns =
     (if prefix ms ns then (MountFs (names_path ms), drop (length ms) ns) else (RootFs, ns))"
proof -
  let ?rv = "overlay_with_memory K upper lower (names_path ms) fs"
  have m: "mounted ?rv ls \<longleftrightarrow> ls = ms" for ls using assms by (auto simp: mounted_def)
  show ?thesis
  proof (cases rule: dispatch_cases [of ?rv ns])
    case 1
    then show ?thesis by (auto simp: m)
  next
    case (2 ls)
    then show ?thesis by (auto simp: m)
  qed
qed

lemma dispatch_memory_root: "dispatch (memory_root K fs) ns = (RootFs, ns)"
proof (cases rule: dispatch_cases [of "memory_root K fs" ns])
  case (2 ls)
  then show ?thesis by (simp add: mounted_def)
qed

lemma fs_of_simps [simp]:
  "fs_of rv RootFs = rv_root rv"
  "rv_mounts rv p = Some fs \<Longrightarrow> fs_of rv (MountFs p) = fs"
  by (simp_all add: fs_of_def)

lemma mem_ops_refine:
  assumes "world_inv w" "live w fs"
  shows "\<exists>r w'. mem_mkdir K fs (names_path ns) mode w = Done (r, w') \<and>
       (case (if memfd_ok K DirKind w then spec_create (abs_fs w fs) ns (next_node_id w) DirKind else None) of
          None \<Rightarrow> r = -1 \<and> abs_fs w' fs = abs_fs w fs
        | Some t \<Rightarrow> r = 0 \<and> abs_fs w' fs = t)"
    "\<exists>r w'. mem_unlink fs (names_path ns) w = Done (r, w') \<and>
       (case spec_remove (abs_fs w fs) ns FileKind of
          None \<Rightarrow> r = -1 \<and> w' = w | Some t \<Rightarrow> r = 0 \<and> abs_fs w' fs = t)"
    "\<exists>r w'. mem_rmdir fs (names_path ns) w = Done (r, w') \<and>
       (case spec_remove (abs_fs w fs) ns DirKind of
          None \<Rightarrow> r = -1 \<and> w' = w | Some t \<Rightarrow> r = 0 \<and> abs_fs w' fs = t)"
    "\<exists>r w'. mem_rename fs (names_path ns) (names_path ms) w = Done (r, w') \<and>
       (case spec_rename (abs_fs w fs) ns ms of
          None \<Rightarrow> r = -1 \<and> w' = w | Some t \<Rightarrow> r = 0 \<and> abs_fs w' fs = t)"
  using create_node_refines [OF assms, of K ns DirKind mode] remove_refines [OF assms, of ns]
    rename_refines [OF assms, of ns ms]
  by (auto simp: mem_mkdir_def mem_unlink_def mem_rmdir_def mem_rename_def same_tree_spec split: option.splits)

lemma on_backend_result:
  "\<exists>r w'. io (vfs_backend v) = Done (r, w') \<and> P r w' \<Longrightarrow>
     \<exists>r v'. on_backend io v = Done (r, v') \<and> vfs_fds v' = vfs_fds v \<and> vfs_cwd v' = vfs_cwd v \<and> P r (vfs_backend v')"
  by (auto simp: on_backend_def)

text \<open>C15: \<open>mkdir\<close>, \<open>unlink\<close> and \<open>rmdir\<close> of any path, absolute or relative to the current directory, that is
  dispatched to an in-memory file system implement the specification on that file system's
  abstract tree, at the rest of the normalised path below the mount point, errors included; the
  descriptor table and the current directory stay.\<close>

theorem dispatched_calls_refine:
  assumes ok: "world_inv (vfs_backend v)" "live (vfs_backend v) fs"
    and cwd: "vfs_cwd v = names_path base"
    and at: "dispatch rv (names_from base p) = (ref, rest)" "fs_of rv ref = memory_fs_ops K fs"
  shows "(\<exists>r v'. vfs_mkdir rv p mode v = Done (r, v') \<and> vfs_fds v' = vfs_fds v \<and> vfs_cwd v' = vfs_cwd v \<and>
       (case (if memfd_ok K DirKind (vfs_backend v)
              then spec_create (abs_fs (vfs_backend v) fs) rest (next_node_id (vfs_backend v)) DirKind else None) of
          None \<Rightarrow> r = -1 \<and> abs_fs (vfs_backend v') fs = abs_fs (vfs_backend v) fs
        | Some t \<Rightarrow> r = 0 \<and> abs_fs (vfs_backend v') fs = t)) \<and>
     (\<exists>r v'. vfs_unlink rv p v = Done (r, v') \<and> vfs_fds v' = vfs_fds v \<and> vfs_cwd v' = vfs_cwd v \<and>
       (case spec_remove (abs_fs (vfs_backend v) fs) rest FileKind of
          None \<Rightarrow> r = -1 \<and> vfs_backend v' = vfs_backend v
        | Some t \<Rightarrow> r = 0 \<and> abs_fs (vfs_backend v') fs = t)) \<and>
     (\<exists>r v'. vfs_rmdir rv p v = Done (r, v') \<and> vfs_fds v' = vfs_fds v \<and> vfs_cwd v' = vfs_cwd v \<and>
       (case spec_remove (abs_fs (vfs_backend v) fs) rest DirKind of
          None \<Rightarrow> r = -1 \<and> vfs_backend v' = vfs_backend v
        | Some t \<Rightarrow> r = 0 \<and> abs_fs (vfs_backend v') fs = t))"
proof -
  have io: "vfs_mkdir rv p mode v = on_backend (mem_mkdir K fs (names_path rest) mode) v"
    "vfs_unlink rv p v = on_backend (mem_unlink fs (names_path rest)) v"
    "vfs_rmdir rv p v = on_backend (mem_rmdir fs (names_path rest)) v"
    by (simp_all add: vfs_mkdir_def vfs_unlink_def vfs_rmdir_def path_to_fs_dispatch [OF cwd] at memory_fs_ops_def)
  show ?thesis
    unfolding io by (intro conjI on_backend_result mem_ops_refine [OF ok])
qed

theorem dispatched_calls_refine_witness:
  "\<exists>v'. vfs_unlink (memory_root sample_kernel sample_fs) [Normal ''f''] sample_vfs = Done (0, v') \<and>
     abs_fs (vfs_backend v') sample_fs = (abs_fs sample_world sample_fs)([''d'', ''f''] := None)"
proof -
  have f: "abs_fs sample_world sample_fs [''d'', ''f''] = Some (3, FileKind)"
    "view sample_world sample_fs [''d'', ''f''] = Some 3" "entries_of (heap sample_world 3) = []"
    by code_simp+
  then have sp: "spec_remove (abs_fs sample_world sample_fs) [''d'', ''f''] FileKind =
      Some ((abs_fs sample_world sample_fs)([''d'', ''f''] := None))"
    using leaf_abs [OF sample_ok, of "[''d'', ''f'']" 3] by (simp add: spec_remove_def)
  have b: "vfs_backend sample_vfs = sample_world" "vfs_cwd sample_vfs = names_path [''d'']"
    by (simp_all add: sample_vfs_def)
  have "names_from [''d''] [Normal ''f''] = [''d'', ''f'']" by code_simp
  then show ?thesis
    using dispatched_calls_refine [of sample_vfs sample_fs "[''d'']" "memory_root sample_kernel sample_fs" "[Normal ''f'']"
        RootFs "[''d'', ''f'']" sample_kernel] sample_ok sp
    by (auto simp: b dispatch_memory_root)
qed

lemma renameat_dispatch:
  assumes "resolve_openat_path v d p = Done (Some (names_path ns))" "resolve_openat_path v e q = Done (Some (names_path ms))"
    and "dispatch rv ns = (r, xs)" "dispatch rv ms = (r', ys)"
  shows "vfs_renameat rv d p e q v =
     (if r = r' then on_backend (fs_rename (fs_of rv r) (names_path xs) (names_path ys)) v else Done (-1, v))"
  using assms by (simp add: vfs_renameat_def to_fs_names)

text \<open>C18: \<open>rename\<close> and \<open>renameat\<close> do not cross a mount: with an in-memory file system mounted over host
  directories, if one of the two resolved paths is below the mount point and the other is not, the
  result is -1 and nothing changes anywhere; if both are below it, the call implements the
  specification of \<open>rename\<close> on the mounted tree.\<close>

theorem rename_within_mount:
  assumes ok: "world_inv (vfs_backend v)" "live (vfs_backend v) fs" and mp: "mp \<noteq> []"
    and rv: "rv = overlay_with_memory K upper lower (names_path mp) fs"
    and old: "resolve_openat_path v d p = Done (Some (names_path ns))"
    and new: "resolve_openat_path v e q = Done (Some (names_path ms))"
  shows "(prefix mp ns \<noteq> prefix mp ms \<longrightarrow> vfs_renameat rv d p e q v = Done (-1, v)) \<and>
     (prefix mp ns \<and> prefix mp ms \<longrightarrow>
        (\<exists>r v'. vfs_renameat rv d p e q v = Done (r, v') \<and> vfs_fds v' = vfs_fds v \<and> vfs_cwd v' = vfs_cwd v \<and>
          (case spec_rename (abs_fs (vfs_backend v) fs) (drop (length mp) ns) (drop (length mp) ms) of
             None \<Rightarrow> r = -1 \<and> vfs_backend v' = vfs_backend v
           | Some t \<Rightarrow> r = 0 \<and> abs_fs (vfs_backend v') fs = t)))"
proof (intro conjI impI)
  note disp = dispatch_one_mount [OF mp, of K upper lower fs]
  show "vfs_renameat rv d p e q v = Done (-1, v)" if "prefix mp ns \<noteq> prefix mp ms"
    using that by (auto simp: renameat_dispatch [OF old new] rv disp)
  assume "prefix mp ns \<and> prefix mp ms"
  then have io: "vfs_renameat rv d p e q v =
      on_backend (mem_rename fs (names_path (drop (length mp) ns)) (names_path (drop (length mp) ms))) v"
    by (simp add: renameat_dispatch [OF old new] rv disp memory_fs_ops_def)
  show "\<exists>r v'. vfs_renameat rv d p e q v = Done (r, v') \<and> vfs_fds v' = vfs_fds v \<and> vfs_cwd v' = vfs_cwd v \<and>
      (case spec_rename (abs_fs (vfs_backend v) fs) (drop (length mp) ns) (drop (length mp) ms) of
         None \<Rightarrow> r = -1 \<and> vfs_backend v' = vfs_backend v
       | Some t \<Rightarrow> r = 0 \<and> abs_fs (vfs_backend v') fs = t)"
    unfolding io by (intro on_backend_result mem_ops_refine [OF ok])
qed

definition sample_mixed :: "(nat world, opened_file) root_vfs" where
  "sample_mixed = overlay_with_memory sample_kernel \<lparr>bind_id = ''upper'', bind_root = ''/u''\<rparr>
     \<lparr>bind_id = ''lower'', bind_root = ''/l''\<rparr> (names_path [''mem'']) sample_fs"

theorem rename_within_mount_witness:
  "vfs_renameat sample_mixed AT_FDCWD [RootDir, Normal ''mem'', Normal ''d''] AT_FDCWD [RootDir, Normal ''d''] sample_vfs =
     Done (-1, sample_vfs)"
proof -
  have ok: "world_inv (vfs_backend sample_vfs)" "live (vfs_backend sample_vfs) sample_fs"
    using sample_ok by (simp_all add: sample_vfs_def)
  have "resolve_openat_path sample_vfs AT_FDCWD [RootDir, Normal ''mem'', Normal ''d''] = Done (Some (names_path [''mem'', ''d'']))"
    "resolve_openat_path sample_vfs AT_FDCWD [RootDir, Normal ''d''] = Done (Some (names_path [''d'']))"
    by code_simp+
  from rename_within_mount [OF ok _ sample_mixed_def this] show ?thesis by simp
qed

text \<open>A call on a path, below no descriptor.\<close>

fun path_call :: "path \<Rightarrow> vfs_call \<Rightarrow> bool" where
  "path_call q (CallAccess p md) = (p = q)"
| "path_call q (CallOpen p fl mo) = (p = q)"
| "path_call q (CallMkdir p mo) = (p = q)"
| "path_call q (CallUnlink p) = (p = q)"
| "path_call q (CallRmdir p) = (p = q)"
| "path_call q (CallChmod p mo) = (p = q)"
| "path_call q (CallStat p sb) = (p = q)"
| "path_call q (CallReadDir p) = (p = q)"
| "path_call q _ = False"

lemma on_backend_frame:
  assumes "safe_io (kernel_only (vfs_backend v)) (\<lambda>_ _. True) io" and "on_backend io v = Done (r, v')"
  shows "kernel_only (vfs_backend v) (vfs_backend v')"
proof -
  have "kernel_only (vfs_backend v) (vfs_backend v)" by (auto simp: kernel_only_def intro: exI [of _ "kern (vfs_backend v)"])
  from safe_ioD [OF assms(1) this] assms(2) show ?thesis by (auto simp: on_backend_def)
qed

lemma on_backend_open_frame:
  assumes "safe_open (kernel_only (vfs_backend v)) (\<lambda>_ _. True) io" and "on_backend io v = Done (r, v')"
  shows "kernel_only (vfs_backend v) (vfs_backend v')"
proof -
  have "kernel_only (vfs_backend v) (vfs_backend v)" by (auto simp: kernel_only_def intro: exI [of _ "kern (vfs_backend v)"])
  from safe_openD [OF assms(1) this] assms(2) show ?thesis by (auto simp: on_backend_def)
qed

text \<open>A call with a path of the root file system leaves the state to that file system.\<close>

lemma root_call_frame:
  assumes to: "absolute_path_to_fs rv (names_path ns) = Done (RootFs, names_path ns)"
      "path_to_fs rv v p = Done (RootFs, names_path ns)" "resolve_path v p = Done (names_path ns)"
    and q: "normal_path (names_path ns)" and p: "path_call p c"
    and safe: "backend (rv_root rv) (kernel_only (vfs_backend v)) (\<lambda>_ _. True)"
    and run: "do_call rv ops c v = Done (r, v')"
  shows "kernel_only (vfs_backend v) (vfs_backend v')"
proof (cases c)
  case (CallAccess p' md)
  then have "on_backend (fs_access (rv_root rv) (names_path ns) md) v = Done (r, v')" using run p to
    by (simp add: vfs_access_def)
  then show ?thesis by (rule on_backend_frame [OF backend.access_safe [OF safe q]])
next
  case (CallOpen p' fl mo)
  then obtain z v1 where o: "on_backend (fs_open_with_handle (rv_root rv) (names_path ns) fl mo) v = Done (z, v1)"
    "track_open z (names_path ns) v1 = (r, v')"
    using run p to by (auto simp: vfs_open_def open_and_track_def bind_eq_Some_conv)
  then have "vfs_backend v' = vfs_backend v1" by (auto simp: track_open_def)
  then show ?thesis using on_backend_open_frame [OF backend.open_with_handle_safe [OF safe q] o(1)] by simp
next
  case (CallMkdir p' mo)
  then have "on_backend (fs_mkdir (rv_root rv) (names_path ns) mo) v = Done (r, v')" using run p to
    by (simp add: vfs_mkdir_def)
  then show ?thesis by (rule on_backend_frame [OF backend.mkdir_safe [OF safe q]])
next
  case (CallUnlink p')
  then have "on_backend (fs_unlink (rv_root rv) (names_path ns)) v = Done (r, v')" using run p to
    by (simp add: vfs_unlink_def)
  then show ?thesis by (rule on_backend_frame [OF backend.unlink_safe [OF safe q]])
next
  case (CallRmdir p')
  then have "on_backend (fs_rmdir (rv_root rv) (names_path ns)) v = Done (r, v')" using run p to
    by (simp add: vfs_rmdir_def)
  then show ?thesis by (rule on_backend_frame [OF backend.rmdir_safe [OF safe q]])
next
  case (CallChmod p' mo)
  then have "on_backend (fs_chmod (rv_root rv) (names_path ns) mo) v = Done (r, v')" using run p to
    by (simp add: vfs_chmod_def)
  then show ?thesis by (rule on_backend_frame [OF backend.chmod_safe [OF safe q]])
next
  case (CallStat p' sb)
  then obtain z where "on_backend (fs_stat (rv_root rv) (names_path ns) sb) v = Done (z, v')"
    using run p to by (auto simp: vfs_stat_def bind_eq_Some_conv)
  then show ?thesis by (rule on_backend_frame [OF backend.stat_safe [OF safe q]])
next
  case (CallReadDir p')
  then obtain z where "on_backend (fs_read_dir (rv_root rv) (names_path ns)) v = Done (z, v')"
    using run p to by (auto simp: vfs_read_dir_def bind_eq_Some_conv)
  then show ?thesis by (rule on_backend_frame [OF backend.read_dir_safe [OF safe q]])
qed (use p in simp_all)



section \<open>Calls relative to an opened directory\<close>

text \<open>C16: \<open>openat\<close> and \<open>mkdirat\<close> through a descriptor of an in-memory directory follow the directory: they act
  at its present path, wherever it was moved since it was opened, whatever is mounted; the new
  descriptor is recorded below the path the directory had when it was opened. \<open>unlinkat\<close> acts at
  that recorded path instead.\<close>

theorem at_calls_follow_directory:
  assumes ok: "world_inv (vfs_backend v)" "live (vfs_backend v) fs"
    and d: "vfs_fds v d = Some i" "d \<noteq> AT_FDCWD" "fi_path i = names_path recorded"
      "fi_opened i = Some (MemoryOpenedFile n (mem_nodes fs))"
    and now: "resolve fs (names_path ns) (vfs_backend v) = Done (Some n)" and ms: "ms \<noteq> []"
    and at: "dispatch rv (recorded @ ms) = (r, rest)"
  shows "vfs_openat rv (memory_opened_ops K) d (map Normal ms) fl mo v =
       do { (z, v) \<leftarrow> on_backend (mem_open_with_handle K fs (names_path (ns @ ms)) fl mo) v;
            Done (track_open z (names_path (recorded @ ms)) v) } \<and>
     vfs_mkdirat rv (memory_opened_ops K) d (map Normal ms) mo v =
       on_backend (mem_mkdir K fs (names_path (ns @ ms)) mo) v \<and>
     vfs_unlinkat rv d (map Normal ms) fl v =
       on_backend ((if fl AND AT_REMOVEDIR \<noteq> 0 then fs_rmdir else fs_unlink) (fs_of rv r) (names_path rest)) v"
proof (intro conjI)
  have view: "view (vfs_backend v) fs ns = Some n" using now by (simp add: resolve_view [OF ok])
  have rel: "\<not> is_absolute (map Normal ms)" by (cases ms) auto
  have to: "normalize_absolute (join (fi_path i) (map Normal ms)) = Done (names_path (recorded @ ms))"
    using rel d(3) by (simp add: normalize_join)
  note h = handle_calls_lemma [OF ok view ms]
  show "vfs_openat rv (memory_opened_ops K) d (map Normal ms) fl mo v =
       do { (z, v) \<leftarrow> on_backend (mem_open_with_handle K fs (names_path (ns @ ms)) fl mo) v;
            Done (track_open z (names_path (recorded @ ms)) v) }"
    using rel d to h(1) [of K fl mo]
    by (cases "mem_open_with_handle K fs (names_path (ns @ ms)) fl mo (vfs_backend v)")
       (auto simp: vfs_openat_def openat_from_tracked_handle_def on_backend_def memory_opened_ops_def
         simp del: opened_open_child.simps split: prod.split)
  show "vfs_mkdirat rv (memory_opened_ops K) d (map Normal ms) mo v =
       on_backend (mem_mkdir K fs (names_path (ns @ ms)) mo) v"
    using rel d h(2) [of K mo]
    by (cases "mem_mkdir K fs (names_path (ns @ ms)) mo (vfs_backend v)")
       (auto simp: vfs_mkdirat_def mkdirat_from_tracked_handle_def on_backend_def memory_opened_ops_def
         simp del: opened_mkdir_child.simps)
  have "resolve_openat_path v d (map Normal ms) = Done (Some (names_path (recorded @ ms)))"
    using rel d to by (simp add: resolve_openat_path_def)
  then show "vfs_unlinkat rv d (map Normal ms) fl v =
       on_backend ((if fl AND AT_REMOVEDIR \<noteq> 0 then fs_rmdir else fs_unlink) (fs_of rv r) (names_path rest)) v"
    by (simp add: vfs_unlinkat_def to_fs_names at)
qed

text \<open>The sample after \<open>rename(\<dots>)\<close> of \<open>/d\<close> to \<open>/e\<close>: descriptor 7 has the recorded path \<open>/d\<close>.\<close>

definition moved_vfs :: "(nat world, opened_file) vfs_state" where
  "moved_vfs = snd (the (vfs_rename (memory_root sample_kernel sample_fs) [RootDir, Normal ''d''] [RootDir, Normal ''e''] sample_vfs))"

lemma moved_ok: "world_inv (vfs_backend moved_vfs)" "live (vfs_backend moved_vfs) sample_fs"
proof -
  have "vfs_inv (mem_ok {sample_fs}) handle_ok sample_vfs"
    using sample_ok mem_reach_ok [OF sample_reach]
    by (auto simp: vfs_inv_def sample_vfs_def mem_ok_def all_ok_def sample_handles_def valid_name_def names_path_def
        simp del: handle_ok.simps)
  from vfs_safeD [OF mem_vfs.rename_safe this, of "[RootDir, Normal ''d'']" "[RootDir, Normal ''e'']" sample_kernel]
  obtain r v' where "vfs_rename (memory_root sample_kernel sample_fs) [RootDir, Normal ''d''] [RootDir, Normal ''e''] sample_vfs = Done (r, v')"
    "vfs_inv (mem_ok {sample_fs}) handle_ok v'" by (auto simp: valid_name_def)
  then show "world_inv (vfs_backend moved_vfs)" "live (vfs_backend moved_vfs) sample_fs"
    by (simp_all add: moved_vfs_def vfs_inv_def mem_ok_def)
qed

theorem at_calls_follow_directory_witness:
  "vfs_mkdirat (memory_root sample_kernel sample_fs) (memory_opened_ops sample_kernel) 7 [Normal ''x''] 0 moved_vfs =
     on_backend (mem_mkdir sample_kernel sample_fs (names_path [''e'', ''x'']) 0) moved_vfs \<and>
   vfs_unlinkat (memory_root sample_kernel sample_fs) 7 [Normal ''x''] 0 moved_vfs =
     on_backend (mem_unlink sample_fs (names_path [''d'', ''x''])) moved_vfs"
proof -
  have 7: "vfs_fds moved_vfs 7 = Some \<lparr>fi_path = names_path [''d''], dir_offset = 0, fi_opened = Some (MemoryOpenedFile 2 (mem_nodes sample_fs))\<rparr>"
    "resolve sample_fs (names_path [''e'']) (vfs_backend moved_vfs) = Done (Some 2)"
    by code_simp+
  show ?thesis
    using at_calls_follow_directory [OF moved_ok 7(1) _ _ _ 7(2), of "[''d'']" "[''x'']" "memory_root sample_kernel sample_fs" RootFs
        "[''d'', ''x'']" sample_kernel 0 0]
    by (simp add: dispatch_memory_root memory_fs_ops_def)
qed

end
