(* ===== verification/Getdents.thy ===== *)
theory Getdents
  imports VfsProps
begin

text \<open>
  \<open>getdents64\<close> of the dispatcher on a descriptor of an in-memory directory: when it panics, and that a
  client that calls it until it returns 0 gets every entry of the directory once.
\<close>

section \<open>One call\<close>

lemma dir_entries_handle:
  assumes "fi_opened i = Some (MemoryOpenedFile n m)" and "read_node_dir (vfs_backend v) m n = Some es"
  shows "dir_entries rv (memory_opened_ops K) i v = Done (Some (dot_entries @ es), v)"
  using assms by (simp add: dir_entries_def on_backend_def memory_opened_ops_def)

text \<open>The state after a call that consumed entries.\<close>

definition advance :: "fd \<Rightarrow> 'h fd_info \<Rightarrow> nat \<Rightarrow> ('s, 'h) vfs_state \<Rightarrow> ('s, 'h) vfs_state" where
  "advance fd i n v = v\<lparr>vfs_fds := (vfs_fds v)(fd \<mapsto> i\<lparr>dir_offset := dir_offset i + n\<rparr>)\<rparr>"

lemma getdents_handle:
  assumes fd: "vfs_fds v fd = Some i" "fi_opened i = Some (MemoryOpenedFile n m)"
    and es: "read_node_dir (vfs_backend v) m n = Some es"
  shows "vfs_getdents64 hash rv (memory_opened_ops K) fd dirp count v =
     (if dir_offset i \<le> length es + 2
      then do { (r, dirp) \<leftarrow> write_dirents64 hash (fi_path i) (drop (dir_offset i) (dot_entries @ es)) (dir_offset i) dirp count;
                Done (Some (bytes_written r, dirp),
                      if 0 \<le> bytes_written r then advance fd i (entries_consumed r) v else v) }
      else Panic)"
proof -
  have "length dot_entries = 2" by (simp add: dot_entries_def)
  then show ?thesis
    using fd by (simp add: vfs_getdents64_def dir_entries_handle [OF fd(2) es] slice_from_def advance_def Let_def
        cong: if_cong)
qed

text \<open>C20: \<open>getdents64\<close> on a descriptor of an in-memory directory panics exactly if the descriptor's offset is
  beyond the entries the directory has by now (\<open>.\<close> and \<open>..\<close> included), so only after entries were
  removed between two calls. Otherwise, given a buffer of at least \<open>count\<close> bytes (or a null
  pointer), it returns within the buffer's bounds and changes nothing but this descriptor's offset.\<close>

theorem getdents_panics_iff_shrunk:
  assumes fd: "vfs_fds v fd = Some i" "fi_opened i = Some (MemoryOpenedFile n m)"
    and es: "read_node_dir (vfs_backend v) m n = Some es"
    and buf: "\<And>buf. dirp = Some buf \<Longrightarrow> nat count \<le> length buf"
  shows "if length es + 2 < dir_offset i
     then vfs_getdents64 hash rv (memory_opened_ops K) fd dirp count v = Panic
     else \<exists>bytes dirp' k. vfs_getdents64 hash rv (memory_opened_ops K) fd dirp count v =
            Done (Some (bytes, dirp'), v\<lparr>vfs_fds := (vfs_fds v)(fd \<mapsto> i\<lparr>dir_offset := dir_offset i + k\<rparr>)\<rparr>) \<and>
            bytes \<le> max 0 count \<and> dir_offset i + k \<le> length es + 2 \<and> map_option length dirp' = map_option length dirp"
proof (cases "length es + 2 < dir_offset i")
  case True
  then show ?thesis using getdents_handle [OF fd es, of hash rv K dirp count] by simp
next
  case False
  let ?rest = "drop (dir_offset i) (dot_entries @ es)"
  obtain r dirp' where w: "write_dirents64 hash (fi_path i) ?rest (dir_offset i) dirp count = Done (r, dirp')"
    and r: "bytes_written r \<le> max 0 count" "entries_consumed r \<le> length ?rest"
    and same: "case dirp of None \<Rightarrow> dirp' = None | Some buf \<Rightarrow> \<exists>buf'. dirp' = Some buf' \<and> length buf' = length buf \<and>
          drop (nat (bytes_written r)) buf' = drop (nat (bytes_written r)) buf"
    using write_in_bounds [of dirp count hash "fi_path i" ?rest "dir_offset i"] buf by blast
  have len: "length ?rest = length es + 2 - dir_offset i" by (simp add: dot_entries_def)
  have here: "v\<lparr>vfs_fds := (vfs_fds v)(fd \<mapsto> i\<lparr>dir_offset := dir_offset i + 0\<rparr>)\<rparr> = v"
    using fd(1) by (cases v) (auto simp: fun_upd_idem)
  have "map_option length dirp' = map_option length dirp" using same by (auto split: option.splits)
  moreover have "\<exists>k. vfs_getdents64 hash rv (memory_opened_ops K) fd dirp count v =
      Done (Some (bytes_written r, dirp'), v\<lparr>vfs_fds := (vfs_fds v)(fd \<mapsto> i\<lparr>dir_offset := dir_offset i + k\<rparr>)\<rparr>) \<and>
      dir_offset i + k \<le> length es + 2"
  proof (cases "0 \<le> bytes_written r")
    case True
    then show ?thesis using False r(2) len w getdents_handle [OF fd es, of hash rv K dirp count]
      by (intro exI [of _ "entries_consumed r"]) (simp add: advance_def)
  next
    case neg: False
    then show ?thesis using False w getdents_handle [OF fd es, of hash rv K dirp count] here
      by (intro exI [of _ 0]) simp
  qed
  ultimately show ?thesis using False r(1) by auto
qed

text \<open>The sample after reading the three entries of \<open>/d\<close> through descriptor 7 and then removing \<open>/d/f\<close>.\<close>

definition read_vfs :: "(nat world, opened_file) vfs_state" where
  "read_vfs = snd (the (vfs_getdents64 (\<lambda>_. 7) (memory_root sample_kernel sample_fs) (memory_opened_ops sample_kernel) 7
     (Some (replicate 80 0)) 80 sample_vfs))"

definition shrunk_vfs :: "(nat world, opened_file) vfs_state" where
  "shrunk_vfs = snd (the (vfs_unlink (memory_root sample_kernel sample_fs) [Normal ''f''] read_vfs))"

theorem getdents_panics_iff_shrunk_witness:
  "vfs_getdents64 (\<lambda>_. 7) (memory_root sample_kernel sample_fs) (memory_opened_ops sample_kernel) 7 None 80 shrunk_vfs = Panic"
proof -
  have "vfs_fds shrunk_vfs 7 = Some \<lparr>fi_path = names_path [''d''], dir_offset = 3, fi_opened = Some (MemoryOpenedFile 2 1)\<rparr>"
    "read_node_dir (vfs_backend shrunk_vfs) 1 2 = Some []"
    by code_simp+
  from getdents_panics_iff_shrunk [OF this(1) _ this(2), of None 80 "\<lambda>_. 7" "memory_root sample_kernel sample_fs" sample_kernel]
  show ?thesis by simp
qed

section \<open>Reading a whole directory\<close>

text \<open>
  What a C library's \<open>readdir\<close> loop does: call with a fresh buffer of \<open>count\<close> bytes and parse the
  records, until 0 bytes are returned. The first argument bounds the number of calls.
\<close>

fun read_all ::
  "nat \<Rightarrow> (path \<Rightarrow> u64) \<Rightarrow> ('s, 'h) root_vfs \<Rightarrow> ('s, 'h) opened_ops \<Rightarrow> fd \<Rightarrow> int \<Rightarrow>
   (('s, 'h) vfs_state, dirent list option) io" where
  "read_all 0 hash rv ops fd count v = Done (None, v)"
| "read_all (Suc n) hash rv ops fd count v =
     do { (r, v) \<leftarrow> vfs_getdents64 hash rv ops fd (Some (replicate (nat count) 0)) count v;
          (case r of
             Some (bytes, Some buf) \<Rightarrow>
               if bytes = 0 then Done (Some [], v)
               else if bytes < 0 then Done (None, v)
               else do { (rest, v) \<leftarrow> read_all n hash rv ops fd count v;
                         Done (do { ds \<leftarrow> parse_dirents (take (nat bytes) buf); es \<leftarrow> rest; Some (ds @ es) }, v) }
           | _ \<Rightarrow> Done (None, v)) }"

lemma dirents_of_append:
  "dirents_of hash parent start (xs @ ys) =
     dirents_of hash parent start xs @ dirents_of hash parent (start + length xs) ys"
  by (induction xs arbitrary: start) simp_all

lemma dirents_of_split:
  "n \<le> length es \<Longrightarrow> dirents_of hash parent start es =
     dirents_of hash parent start (take n es) @ dirents_of hash parent (start + n) (drop n es)"
  using dirents_of_append [of hash parent start "take n es" "drop n es"] by simp

lemma d_name_dirents_of: "map d_name (dirents_of hash parent start es) = map de_name es"
  by (induction es arbitrary: start) (simp_all add: dirent_of_def)

lemma advance_advance: "advance fd (i\<lparr>dir_offset := dir_offset i + n\<rparr>) k (advance fd i n v) = advance fd i (n + k) v"
  by (simp add: advance_def add.assoc)

lemma read_all_from:
  assumes "vfs_fds v fd = Some i" "fi_opened i = Some (MemoryOpenedFile n m)"
    and "read_node_dir (vfs_backend v) m n = Some es"
    and "dir_offset i + k = length es + 2" and "k < fuel"
    and "\<forall>e \<in> set (dot_entries @ es). short_name e \<and> int (reclen e) \<le> count"
  shows "read_all fuel hash rv (memory_opened_ops K) fd count v =
     Done (Some (dirents_of hash (fi_path i) (dir_offset i) (drop (dir_offset i) (dot_entries @ es))), advance fd i k v)"
  using assms
proof (induction fuel arbitrary: v i k)
  case (Suc fuel)
  let ?rest = "drop (dir_offset i) (dot_entries @ es)" and ?buf = "replicate (nat count) (0 :: byte)"
  let ?n = "fit (nat count) ?rest"
  have len: "length ?rest = k" using Suc.prems(4) by (simp add: dot_entries_def)
  have count: "0 < count"
    using Suc.prems(6) reclen_ge [of "hd dot_entries"] by (auto simp: dot_entries_def)
  note call = getdents_handle [OF Suc.prems(1-3), of hash rv K "Some ?buf" count]
  note wr = write_dirents64_records [OF count, of ?buf hash "fi_path i" ?rest "dir_offset i"]
  show ?case
  proof (cases "k = 0")
    case True
    then have "?rest = []" using len by simp
    then show ?thesis using Suc.prems(4) True call wr count
      by (simp add: Let_def advance_def)
  next
    case False
    then have ne: "?rest \<noteq> []" using len by auto
    then have "hd ?rest \<in> set (dot_entries @ es)" by (metis hd_in_set in_set_dropD)
    then have n: "0 < ?n" using Suc.prems(6) ne count fit_0 [of "nat count" ?rest] by force
    have n_le: "?n \<le> k" using fit_le [of "nat count" ?rest] len by simp
    let ?R = "records hash (fi_path i) (dir_offset i) (take ?n ?rest)"
    have R: "0 < length ?R"
      using ne n reclen_ge [of "hd ?rest"] by (cases ?rest) (auto simp: length_records split: if_splits)
    have bound: "dir_offset i \<le> length es + 2" using Suc.prems(4) by simp
    have step: "vfs_getdents64 hash rv (memory_opened_ops K) fd (Some ?buf) count v =
        Done (Some (int (length ?R), Some (?R @ drop (length ?R) ?buf)), advance fd i ?n v)"
      using call wr bound n ne by (simp add: Let_def)
    have short: "\<forall>e \<in> set (take ?n ?rest). short_name e"
      using Suc.prems(6) by (meson in_set_dropD in_set_takeD)
    have parsed: "parse_dirents (take (nat (int (length ?R))) (?R @ drop (length ?R) ?buf)) =
        Some (dirents_of hash (fi_path i) (dir_offset i) (take ?n ?rest))"
      using parse_records [OF short] by simp
    let ?i = "i\<lparr>dir_offset := dir_offset i + ?n\<rparr>"
    have IH: "read_all fuel hash rv (memory_opened_ops K) fd count (advance fd i ?n v) =
        Done (Some (dirents_of hash (fi_path ?i) (dir_offset ?i) (drop (dir_offset ?i) (dot_entries @ es))),
              advance fd ?i (k - ?n) (advance fd i ?n v))"
    proof (rule Suc.IH)
      show "vfs_fds (advance fd i ?n v) fd = Some ?i" by (simp add: advance_def)
      show "k - ?n < fuel" using Suc.prems(5) n n_le by linarith
    qed (use Suc.prems n_le in \<open>simp_all add: advance_def\<close>)
    have split: "dirents_of hash (fi_path i) (dir_offset i) ?rest =
        dirents_of hash (fi_path i) (dir_offset i) (take ?n ?rest) @
        dirents_of hash (fi_path i) (dir_offset i + ?n) (drop (dir_offset i + ?n) (dot_entries @ es))"
      using dirents_of_split [of ?n ?rest hash "fi_path i" "dir_offset i"] n_le len
      by (simp only: drop_drop add.commute)
    show ?thesis
      using step R parsed IH split n_le by (simp add: advance_advance)
  qed
qed simp

lemma handle_listing:
  assumes w: "world_inv w" and fs: "live w fs" and dir: "abs_fs w fs ns = Some (n, DirKind)"
  obtains es where "read_node_dir w (mem_nodes fs) n = Some es" "sorted (map de_name es)" "distinct (map de_name es)"
    "de_name ` set es = {x. abs_fs w fs (ns @ [x]) \<noteq> None}"
    "\<And>x j kind. abs_fs w fs (ns @ [x]) = Some (j, kind) \<Longrightarrow>
       \<lparr>de_name = x, de_kind = kind, de_ino = Some (of_nat j)\<rparr> \<in> set es"
proof -
  have "view w fs ns = Some n" using dir by (auto simp: abs_fs_def split: option.splits)
  then have call: "mem_read_dir fs (names_path ns) w = Done (read_node_dir w (mem_nodes fs) n, w)"
    by (simp add: mem_read_dir_def resolve_view [OF w fs])
  from listing_lemma [OF w fs, of ns] dir obtain es where
    es: "mem_read_dir fs (names_path ns) w = Done (Some es, w)" "sorted (map de_name es)" "distinct (map de_name es)"
    and all: "\<forall>x. case abs_fs w fs (ns @ [x]) of
               None \<Rightarrow> x \<notin> de_name ` set es
             | Some (i, kind) \<Rightarrow> \<lparr>de_name = x, de_kind = kind, de_ino = Some (of_nat i)\<rparr> \<in> set es"
    by auto
  have "x \<in> de_name ` set es \<longleftrightarrow> abs_fs w fs (ns @ [x]) \<noteq> None" for x
  proof (cases "abs_fs w fs (ns @ [x])")
    case None
    then show ?thesis using all [rule_format, of x] by simp
  next
    case (Some jk)
    then have "\<lparr>de_name = x, de_kind = snd jk, de_ino = Some (of_nat (fst jk))\<rparr> \<in> set es"
      using all [rule_format, of x] by (simp add: case_prod_unfold)
    then show ?thesis using Some by force
  qed
  then have set: "de_name ` set es = {x. abs_fs w fs (ns @ [x]) \<noteq> None}" by blast
  have "\<lparr>de_name = x, de_kind = kind, de_ino = Some (of_nat j)\<rparr> \<in> set es" if "abs_fs w fs (ns @ [x]) = Some (j, kind)" for x j kind
    using all [rule_format, of x] that by simp
  with set es call show thesis by (intro that) auto
qed

lemma dirents_of_mem: "e \<in> set es \<Longrightarrow> \<exists>off. dirent_of hash parent off e \<in> set (dirents_of hash parent start es)"
  by (induction es arbitrary: start) auto

text \<open>C13: Reading an in-memory directory through a fresh descriptor until \<open>getdents64\<close> returns 0, with a
  buffer large enough for each single name, ends after at most one call more than there are
  entries and yields \<open>.\<close>, \<open>..\<close> and then every name of the directory exactly once, in order, each
  with the inode and type of the node it resolves to. The file systems are unchanged.\<close>

theorem read_all_lists_directory:
  assumes ok: "world_inv (vfs_backend v)" "live (vfs_backend v) fs"
    and dir: "abs_fs (vfs_backend v) fs ns = Some (n, DirKind)"
    and fd: "vfs_fds v fd = Some i" "fi_opened i = Some (MemoryOpenedFile n (mem_nodes fs))" "dir_offset i = 0"
    and count: "29 \<le> count" "\<forall>x. abs_fs (vfs_backend v) fs (ns @ [x]) \<noteq> None \<longrightarrow>
      CHR 0x00 \<notin> set x \<and> length x \<le> 65508 \<and> int (length x) + 27 \<le> count"
    and fuel: "card {x. abs_fs (vfs_backend v) fs (ns @ [x]) \<noteq> None} + 2 < fuel"
  shows "\<exists>ds v' xs. read_all fuel hash rv (memory_opened_ops K) fd count v = Done (Some ds, v') \<and>
     vfs_backend v' = vfs_backend v \<and> map d_name ds = [''.'', ''..''] @ xs \<and> sorted xs \<and> distinct xs \<and>
     set xs = {x. abs_fs (vfs_backend v) fs (ns @ [x]) \<noteq> None} \<and>
     (\<forall>x j kind. abs_fs (vfs_backend v) fs (ns @ [x]) = Some (j, kind) \<longrightarrow>
        (\<exists>d \<in> set ds. d_name d = x \<and> d_ino d = of_nat j \<and> d_type d = dirent_type kind))"
proof -
  obtain es where es: "read_node_dir (vfs_backend v) (mem_nodes fs) n = Some es"
    and srt: "sorted (map de_name es)" "distinct (map de_name es)"
    and set: "de_name ` set es = {x. abs_fs (vfs_backend v) fs (ns @ [x]) \<noteq> None}"
    and mem: "\<And>x j kind. abs_fs (vfs_backend v) fs (ns @ [x]) = Some (j, kind) \<Longrightarrow>
       \<lparr>de_name = x, de_kind = kind, de_ino = Some (of_nat j)\<rparr> \<in> set es"
    using handle_listing [OF ok dir] by blast
  have fuel': "length es + 2 < fuel" using fuel distinct_card [OF srt(2)] set by simp
  have good: "\<forall>e \<in> set (dot_entries @ es). short_name e \<and> int (reclen e) \<le> count"
  proof
    fix e assume "e \<in> set (dot_entries @ es)"
    then consider "e \<in> set dot_entries" | "de_name e \<in> de_name ` set es" by auto
    then show "short_name e \<and> int (reclen e) \<le> count"
    proof cases
      case 1
      then show ?thesis using count(1) reclen_lt [of e] by (auto simp: dot_entries_def short_name_def)
    next
      case 2
      then have "CHR 0x00 \<notin> set (de_name e) \<and> length (de_name e) \<le> 65508 \<and> int (length (de_name e)) + 27 \<le> count"
        using count(2) unfolding set by blast
      then show ?thesis using reclen_lt [of e] by (simp add: short_name_def)
    qed
  qed
  let ?ds = "dirents_of hash (fi_path i) 0 (dot_entries @ es)"
  have run: "read_all fuel hash rv (memory_opened_ops K) fd count v = Done (Some ?ds, advance fd i (length es + 2) v)"
    using read_all_from [OF fd(1,2) es _ fuel' good] fd(3) by simp
  have found: "\<exists>d \<in> set ?ds. d_name d = x \<and> d_ino d = of_nat j \<and> d_type d = dirent_type kind"
    if "abs_fs (vfs_backend v) fs (ns @ [x]) = Some (j, kind)" for x j kind
  proof -
    have "\<lparr>de_name = x, de_kind = kind, de_ino = Some (of_nat j)\<rparr> \<in> set (dot_entries @ es)" using mem [OF that] by simp
    from dirents_of_mem [OF this, of hash "fi_path i" 0] obtain off where
      "dirent_of hash (fi_path i) off \<lparr>de_name = x, de_kind = kind, de_ino = Some (of_nat j)\<rparr> \<in> set ?ds" ..
    then show ?thesis by (rule rev_bexI) (simp add: dirent_of_def entry_ino_def)
  qed
  have names: "map d_name ?ds = [''.'', ''..''] @ map de_name es" by (simp only: d_name_dirents_of) (simp add: dot_entries_def)
  show ?thesis
    using run names srt set found by (intro exI [of _ ?ds] exI [of _ "advance fd i (length es + 2) v"] exI [of _ "map de_name es"])
      (auto simp: advance_def)
qed

theorem read_all_lists_directory_witness:
  "\<exists>ds v'. read_all 4 (\<lambda>_. 7) (memory_root sample_kernel sample_fs) (memory_opened_ops sample_kernel) 7 40 sample_vfs = Done (Some ds, v') \<and>
     map d_name ds = [''.'', ''..'', ''f'']"
proof -
  have ok: "world_inv (vfs_backend sample_vfs)" "live (vfs_backend sample_vfs) sample_fs"
    and b: "vfs_backend sample_vfs = sample_world"
    using sample_ok by (simp_all add: sample_vfs_def)
  have d: "abs_fs (vfs_backend sample_vfs) sample_fs [''d''] = Some (2, DirKind)"
    "vfs_fds sample_vfs 7 = Some \<lparr>fi_path = names_path [''d''], dir_offset = 0, fi_opened = Some (MemoryOpenedFile 2 (mem_nodes sample_fs))\<rparr>"
    "view sample_world sample_fs [''d''] = Some 2" "mem_nodes sample_fs = 1"
    by code_simp+
  have "entries_of (heap sample_world 2) = [(''f'', 3)]" by code_simp
  then have "child sample_world 2 = [''f'' \<mapsto> 3]" by (auto simp: child_def btree_get_def fun_eq_iff)
  then have ns: "{x. abs_fs sample_world sample_fs ([''d''] @ [x]) \<noteq> None} = {''f''}"
    unfolding abs_fs_def view_snoc d(3) by auto
  have names: "\<forall>x. abs_fs (vfs_backend sample_vfs) sample_fs ([''d''] @ [x]) \<noteq> None \<longrightarrow>
      CHR 0x00 \<notin> set x \<and> length x \<le> 65508 \<and> int (length x) + 27 \<le> 40"
  proof (intro allI impI)
    fix x assume "abs_fs (vfs_backend sample_vfs) sample_fs ([''d''] @ [x]) \<noteq> None"
    then have "x \<in> {''f''}" unfolding b ns [symmetric] by blast
    then show "CHR 0x00 \<notin> set x \<and> length x \<le> 65508 \<and> int (length x) + 27 \<le> 40" by simp
  qed
  have fuel: "card {x. abs_fs (vfs_backend sample_vfs) sample_fs ([''d''] @ [x]) \<noteq> None} + 2 < 4"
    unfolding b ns by simp
  obtain ds v' xs where run: "read_all 4 (\<lambda>_. 7) (memory_root sample_kernel sample_fs) (memory_opened_ops sample_kernel) 7 40 sample_vfs = Done (Some ds, v')"
    and xs: "map d_name ds = [''.'', ''..''] @ xs" "distinct xs"
      "set xs = {x. abs_fs (vfs_backend sample_vfs) sample_fs ([''d''] @ [x]) \<noteq> None}"
    using read_all_lists_directory [OF ok d(1,2) _ _ _ names fuel, of "\<lambda>_. 7" "memory_root sample_kernel sample_fs" sample_kernel]
    by fastforce
  have "set xs = {''f''}" using xs(3) unfolding b ns .
  then have "xs = [''f'']" using xs(2) by (cases xs) (auto simp: subset_singleton_iff)
  then show ?thesis using run xs(1) by auto
qed

end
