(* ===== verification/Confine.thy ===== *)
theory Confine
  imports VfsProps
begin

text \<open>
  Which calls of the host the dispatcher makes, whatever it is asked to do. The relation \<open>host_call\<close>
  lists them: anonymous memory files and their re-opening through \<open>/proc/self/fd\<close>, and path calls
  whose path is a list of names appended to the root of a bind. The contract of a backend is
  instantiated a second time, with this relation as part of the invariant.
\<close>

section \<open>Host calls\<close>

inductive host_call :: "'k kernel \<Rightarrow> bind_fs set \<Rightarrow> 'k \<Rightarrow> 'k \<Rightarrow> bool" for K and B where
  memfd: "host_call K B k (snd (k_memfd_create K name k))"
| reopen: "host_call K B k (snd (k_sys_openat K AT_FDCWD (''/proc/self/fd/'' @ show_int n) fl 0 k))"
| fstat: "host_call K B k (snd (k_fstat K fd sb k))"
| fchmod: "host_call K B k (snd (k_fchmod K fd mo k))"
| access: "fs \<in> B \<Longrightarrow> list_all valid_name ns \<Longrightarrow> host_call K B k (snd (k_access K (c_string (host_path fs ns)) md k))"
| open_path: "fs \<in> B \<Longrightarrow> list_all valid_name ns \<Longrightarrow> host_call K B k (snd (k_open K (c_string (host_path fs ns)) fl mo k))"
| mkdir: "fs \<in> B \<Longrightarrow> list_all valid_name ns \<Longrightarrow> host_call K B k (snd (k_mkdir K (c_string (host_path fs ns)) mo k))"
| unlink: "fs \<in> B \<Longrightarrow> list_all valid_name ns \<Longrightarrow> host_call K B k (snd (k_unlink K (c_string (host_path fs ns)) k))"
| rmdir: "fs \<in> B \<Longrightarrow> list_all valid_name ns \<Longrightarrow> host_call K B k (snd (k_rmdir K (c_string (host_path fs ns)) k))"
| rename: "fs \<in> B \<Longrightarrow> list_all valid_name ns \<Longrightarrow> list_all valid_name ms \<Longrightarrow>
    host_call K B k (snd (k_rename K (c_string (host_path fs ns)) (c_string (host_path fs ms)) k))"
| chmod: "fs \<in> B \<Longrightarrow> list_all valid_name ns \<Longrightarrow> host_call K B k (snd (k_chmod K (c_string (host_path fs ns)) mo k))"
| stat: "fs \<in> B \<Longrightarrow> list_all valid_name ns \<Longrightarrow> host_call K B k (snd (k_stat K (c_string (host_path fs ns)) sb k))"

definition host_calls :: "'k kernel \<Rightarrow> bind_fs set \<Rightarrow> 'k \<Rightarrow> 'k \<Rightarrow> bool" where
  "host_calls K B = (host_call K B)\<^sup>*\<^sup>*"

lemma host_calls_refl [simp]: "host_calls K B k k"
  by (simp add: host_calls_def)

lemma host_calls_one: "host_call K B k k' \<Longrightarrow> host_calls K B k k'"
  by (simp add: host_calls_def)

lemma host_calls_trans: "host_calls K B k k' \<Longrightarrow> host_calls K B k' k'' \<Longrightarrow> host_calls K B k k''"
  unfolding host_calls_def by (rule rtranclp_trans)

definition confined :: "'k kernel \<Rightarrow> bind_fs set \<Rightarrow> 'k \<Rightarrow> memory_fs set \<Rightarrow> 'k world \<Rightarrow> bool" where
  "confined K B k F w \<longleftrightarrow> mem_ok F w \<and> host_calls K B k (kern w)"

text \<open>A call that keeps the other invariant and makes host calls only is safe for both.\<close>

definition host_io :: "'k kernel \<Rightarrow> bind_fs set \<Rightarrow> ('k world, 'a) io \<Rightarrow> bool" where
  "host_io K B io \<longleftrightarrow> (\<forall>w r w'. io w = Done (r, w') \<longrightarrow> host_calls K B (kern w) (kern w'))"

lemma confine_io: "safe_io (mem_ok F) hok io \<Longrightarrow> host_io K B io \<Longrightarrow> safe_io (confined K B k F) hok io"
  unfolding safe_io_def host_io_def confined_def by (blast intro: host_calls_trans)

lemma confine_open: "safe_open (mem_ok F) hok io \<Longrightarrow> host_io K B io \<Longrightarrow> safe_open (confined K B k F) hok io"
  unfolding safe_open_def host_io_def confined_def by (blast intro: host_calls_trans)

section \<open>In-memory file systems\<close>

lemma kern_updates [simp]:
  "kern (update_node a f w) = kern w" "kern (nodes_insert m i w) = kern w" "kern (nodes_remove m i w) = kern w"
  "kern (detach_node a w) = kern w"
  by (simp_all add: update_node_def nodes_insert_def nodes_remove_def detach_node_def)

lemma host_memfd: "create_memfd K name w = (fd, w') \<Longrightarrow> host_calls K B (kern w) (kern w')"
  using host_call.memfd [of K B "kern w" name] by (auto simp: create_memfd_def host_calls_one split: prod.splits)

lemma host_open_backing: "open_backing K b fl w = (fd, w') \<Longrightarrow> host_calls K B (kern w) (kern w')"
  using host_call.reopen [of K B "kern w" b "fl AND NOT (O_CREAT OR O_EXCL OR O_NOFOLLOW OR O_DIRECTORY)"]
  by (auto simp: open_backing_def Let_def host_calls_one split: prod.splits)

lemma host_stat_node: "stat_node K a m sb w = (r, w') \<Longrightarrow> host_calls K B (kern w) (kern w')"
  using host_call.fstat [of K B "kern w" "node_backing_fd (heap w a)" zeroed_stat]
  by (auto simp: stat_node_def Let_def host_calls_one split: prod.splits node_kind.splits)

lemma host_create_in_dir: "create_node_in_dir K p m x kind mo w = (r, w') \<Longrightarrow> host_calls K B (kern w) (kern w')"
  using host_memfd [of K _ "w\<lparr>next_node_id := next_node_id w + 1\<rparr>"]
  by (auto simp: create_node_in_dir_def fetch_add_node_id_def Let_def
      split: node_kind.splits if_splits prod.splits vfs_entry_kind.splits)

lemma host_create_node: "create_node K fs p kind mo w = Done (r, w') \<Longrightarrow> host_calls K B (kern w) (kern w')"
  by (auto simp: create_node_def bind_eq_Some_conv host_create_in_dir split: option.splits)

lemma host_create_relative: "create_relative_node K n m p kind mo w = (r, w') \<Longrightarrow> host_calls K B (kern w) (kern w')"
  by (auto simp: create_relative_node_def host_create_in_dir split: if_splits option.splits)

lemma host_open_resolved:
  assumes c: "\<And>w r w'. create w = Done (r, w') \<Longrightarrow> host_calls K B (kern w) (kern w')"
    and o: "open_resolved_node K existing create fl w = Done (r, w')"
  shows "host_calls K B (kern w) (kern w')"
proof (cases "existing \<noteq> None \<and> fl AND (O_CREAT OR O_EXCL) = (O_CREAT OR O_EXCL)")
  case True
  then show ?thesis using o by (auto simp: open_resolved_node_def)
next
  case False
  obtain node w1 where n: "(case existing of Some node \<Rightarrow> Done (Some node, w)
        | None \<Rightarrow> if fl AND O_CREAT \<noteq> 0 then create w else Done (None, w)) = Done (node, w1)"
    and fin: "(r, w') = (case node of None \<Rightarrow> ((-1, None), w1) | Some node \<Rightarrow>
        if fl AND O_DIRECTORY \<noteq> 0 \<and> \<not> is_directory (heap w1 node) then ((-1, None), w1)
        else (let (fd, w) = open_backing K (node_backing_fd (heap w1 node)) fl w1
              in if fd < 0 then ((fd, None), w) else ((fd, Some node), w)))"
    using o False unfolding open_resolved_node_def if_not_P [OF False] by (auto simp: bind_eq_Some_conv)
  have "host_calls K B (kern w) (kern w1)" using n c by (auto split: option.splits if_splits)
  moreover have "host_calls K B (kern w1) (kern w')"
    using fin host_open_backing by (auto split: option.splits if_splits prod.splits)
  ultimately show ?thesis by (rule host_calls_trans)
qed

lemma host_open_node: "open_node K fs p fl mo w = Done (r, w') \<Longrightarrow> host_calls K B (kern w) (kern w')"
  by (auto simp: open_node_def bind_eq_Some_conv intro: host_open_resolved host_create_node)

lemma host_remove: "remove_node_at p m root kind w = Done (r, w') \<Longrightarrow> kern w' = kern w"
proof -
  have "case remove_node_at p m root kind w of None \<Rightarrow> True | Some x \<Rightarrow> kern (snd x) = kern w"
    by (simp add: remove_node_at_def Let_def split: bind_split option.split node_kind.split)
  then show "remove_node_at p m root kind w = Done (r, w') \<Longrightarrow> kern w' = kern w" by simp
qed

lemma host_rename_in_dir: "kern (snd (rename_in_dir p q d es x y m w)) = kern w"
  by (simp add: rename_in_dir_def Let_def split: option.split)

lemma host_rename_between: "kern (snd (rename_between p q d es x d' es' y m w)) = kern w"
  by (simp add: rename_between_def Let_def split: option.split)

lemma host_rename: "rename_node_at p q m root w = Done (r, w') \<Longrightarrow> kern w' = kern w"
proof -
  have "case rename_node_at p q m root w of None \<Rightarrow> True | Some x \<Rightarrow> kern (snd x) = kern w"
    using host_rename_in_dir [of p q _ _ _ _ m w] host_rename_between [of p q _ _ _ _ _ _ m w]
    by (auto simp: rename_node_at_def split: bind_split option.split node_kind.split) (metis snd_conv)+
  then show "rename_node_at p q m root w = Done (r, w') \<Longrightarrow> kern w' = kern w" by simp
qed

lemma host_chmod: "mem_chmod K fs p mo w = Done (r, w') \<Longrightarrow> host_calls K B (kern w) (kern w')"
proof -
  have "host_calls K B (kern w) (snd (k_fchmod K fd mo (kern w)))" for fd
    by (rule host_calls_one) (rule host_call.fchmod)
  then have "case mem_chmod K fs p mo w of None \<Rightarrow> True | Some x \<Rightarrow> host_calls K B (kern w) (kern (snd x))"
    by (simp add: mem_chmod_def Let_def split: bind_split option.split node_kind.split)
  then show "mem_chmod K fs p mo w = Done (r, w') \<Longrightarrow> host_calls K B (kern w) (kern w')" by simp
qed

lemma host_io_mem:
  "host_io K B (mem_access fs p md)" "host_io K B (mem_open K fs p fl mo)" "host_io K B (mem_mkdir K fs p mo)"
  "host_io K B (mem_unlink fs p)" "host_io K B (mem_rmdir fs p)" "host_io K B (mem_rename fs p q)"
  "host_io K B (mem_chmod K fs p mo)" "host_io K B (mem_stat K fs p sb)" "host_io K B (mem_open_with_handle K fs p fl mo)"
  "host_io K B (mem_read_dir fs p)"
  unfolding host_io_def
  by (auto simp: mem_access_def mem_open_def mem_mkdir_def mem_unlink_def mem_rmdir_def mem_rename_def mem_stat_def
      mem_open_with_handle_def mem_read_dir_def bind_eq_Some_conv
      dest: host_open_node host_create_node host_remove host_rename host_chmod host_stat_node split: option.splits)

interpretation mem_confined: backend "memory_fs_ops K fs" "confined K B k (insert fs F)" handle_ok
  for K :: "'k kernel" and fs B k F
proof -
  have sel: "fs_access (memory_fs_ops K fs) = mem_access fs" "fs_open (memory_fs_ops K fs) = mem_open K fs"
    "fs_mkdir (memory_fs_ops K fs) = mem_mkdir K fs" "fs_unlink (memory_fs_ops K fs) = mem_unlink fs"
    "fs_rmdir (memory_fs_ops K fs) = mem_rmdir fs" "fs_rename (memory_fs_ops K fs) = mem_rename fs"
    "fs_chmod (memory_fs_ops K fs) = mem_chmod K fs" "fs_stat (memory_fs_ops K fs) = mem_stat K fs"
    "fs_open_with_handle (memory_fs_ops K fs) = mem_open_with_handle K fs" "fs_read_dir (memory_fs_ops K fs) = mem_read_dir fs"
    by (simp_all add: memory_fs_ops_def)
  note c = mem.backend_axioms [of K fs F, unfolded backend_def sel]
  show "backend (memory_fs_ops K fs) (confined K B k (insert fs F)) handle_ok"
    unfolding backend_def sel
    by (intro conjI allI impI confine_io confine_open host_io_mem) (use c in simp_all)
qed

lemma host_opened:
  "opened_stat K h sb w = (r, w') \<Longrightarrow> host_calls K B (kern w) (kern w')"
  "opened_open_child K h p fl mo w = Done (z, w') \<Longrightarrow> host_calls K B (kern w) (kern w')"
  "opened_mkdir_child K h p mo w = (c, w') \<Longrightarrow> host_calls K B (kern w) (kern w')"
proof -
  obtain n m where h: "h = MemoryOpenedFile n m" by (cases h)
  show "host_calls K B (kern w) (kern w')" if "opened_stat K h sb w = (r, w')"
    using that h host_stat_node by simp
  show "host_calls K B (kern w) (kern w')" if o: "opened_open_child K h p fl mo w = Done (z, w')"
  proof (cases "can_resolve_relative_to_opened_node p")
    case False
    then show ?thesis using o h by (simp add: open_node_relative_def)
  next
    case True
    then obtain r where r: "open_resolved_node K (resolve_relative n m p w)
        (\<lambda>w. Done (create_relative_node K n m p FileKind mo w)) fl w = Done (r, w')"
      using o h by (auto simp: open_node_relative_def bind_eq_Some_conv)
    show ?thesis by (rule host_open_resolved [OF _ r]) (simp add: host_create_relative)
  qed
  show "host_calls K B (kern w) (kern w')" if "opened_mkdir_child K h p mo w = (c, w')"
    using that h host_create_relative [of K n m p DirKind mo w] by (auto split: if_splits prod.splits)
qed

interpretation mem_files_confined: opened_files "memory_opened_ops K" "confined K B k F" handle_ok
  for K :: "'k kernel" and B k F
proof -
  have files: "opened_files (memory_opened_ops K) (mem_ok F) handle_ok" by (rule mem_files.opened_files_axioms)
  have host: "op_stat (memory_opened_ops K) h sb w = Done (r, w') \<Longrightarrow> host_calls K B (kern w) (kern w')"
    "op_open_child (memory_opened_ops K) h p fl mo w = Done (z, w') \<Longrightarrow> host_calls K B (kern w) (kern w')"
    "op_mkdir_child (memory_opened_ops K) h p mo w = Done (c, w') \<Longrightarrow> host_calls K B (kern w) (kern w')"
    "op_read_dir (memory_opened_ops K) h w = Done (es, w') \<Longrightarrow> host_calls K B (kern w) (kern w')"
    for h sb p fl mo w w' r z c es
    by (auto simp: memory_opened_ops_def dest: host_opened simp del: opened_stat.simps opened_open_child.simps opened_mkdir_child.simps)
  show "opened_files (memory_opened_ops K) (confined K B k F) handle_ok"
  proof unfold_locales
    fix w h sb p fl mo
    assume "confined K B k F w" and h: "handle_ok w h"
    then have ok: "mem_ok F w" and k: "host_calls K B k (kern w)" by (simp_all add: confined_def)
    show "\<exists>r w'. op_stat (memory_opened_ops K) h sb w = Done (r, w') \<and> confined K B k F w' \<and>
        (\<forall>h'. handle_ok w h' \<longrightarrow> handle_ok w' h')"
      using opened_files.op_stat_ok [OF files ok h] host(1) host_calls_trans [OF k] unfolding confined_def by blast
    show "\<exists>r w'. op_open_child (memory_opened_ops K) h p fl mo w = Done (r, w') \<and> confined K B k F w' \<and>
        (\<forall>h'. handle_ok w h' \<longrightarrow> handle_ok w' h') \<and> (\<forall>z h'. r = Some z \<longrightarrow> or_opened z = Some h' \<longrightarrow> handle_ok w' h')"
      using opened_files.op_open_ok [OF files ok h] host(2) host_calls_trans [OF k] unfolding confined_def by blast
    show "\<exists>r w'. op_mkdir_child (memory_opened_ops K) h p mo w = Done (r, w') \<and> confined K B k F w' \<and>
        (\<forall>h'. handle_ok w h' \<longrightarrow> handle_ok w' h')"
      using opened_files.op_mkdir_ok [OF files ok h] host(3) host_calls_trans [OF k] unfolding confined_def by blast
    show "\<exists>r w'. op_read_dir (memory_opened_ops K) h w = Done (r, w') \<and> confined K B k F w' \<and>
        (\<forall>h'. handle_ok w h' \<longrightarrow> handle_ok w' h')"
      using opened_files.op_read_ok [OF files ok h] host(4) host_calls_trans [OF k] unfolding confined_def by blast
  qed
qed

section \<open>Host directories\<close>

lemma host_io_libc:
  "(\<And>w. io w = libc call w) \<Longrightarrow> (\<And>k. host_call K B k (snd (call k))) \<Longrightarrow> host_io K B io"
  by (auto simp: host_io_def libc_def Let_def split: prod.splits) (metis host_calls_one snd_conv)

lemma host_io_bind:
  assumes B: "b \<in> B" and ns: "list_all valid_name ns" "list_all valid_name ms"
  shows "host_io K B (bind_access K b (names_path ns) md)" "host_io K B (bind_open K b (names_path ns) fl mo)"
    "host_io K B (bind_mkdir K b (names_path ns) mo)" "host_io K B (bind_unlink K b (names_path ns))"
    "host_io K B (bind_rmdir K b (names_path ns))" "host_io K B (bind_chmod K b (names_path ns) mo)"
    "host_io K B (bind_stat K b (names_path ns) sb)" "host_io K B (bind_rename K b (names_path ns) (names_path ms))"
  by (rule host_io_libc, rule vfs_simps, rule host_call.intros; fact)+

lemma host_io_bind_open: "host_io K B (open_fn p fl mo) \<Longrightarrow> host_io K B (default_open_with_handle open_fn p fl mo)"
  by (auto simp: host_io_def default_open_with_handle_def bind_eq_Some_conv)

interpretation bind_confined: backend "bind_fs_ops K b" "confined K (insert b B) k F" handle_ok
  for K :: "'k kernel" and b B k F
proof -
  have sel: "fs_access (bind_fs_ops K b) = bind_access K b" "fs_open (bind_fs_ops K b) = bind_open K b"
    "fs_mkdir (bind_fs_ops K b) = bind_mkdir K b" "fs_unlink (bind_fs_ops K b) = bind_unlink K b"
    "fs_rmdir (bind_fs_ops K b) = bind_rmdir K b" "fs_rename (bind_fs_ops K b) = bind_rename K b"
    "fs_chmod (bind_fs_ops K b) = bind_chmod K b" "fs_stat (bind_fs_ops K b) = bind_stat K b"
    "fs_open_with_handle (bind_fs_ops K b) = default_open_with_handle (bind_open K b)" "fs_read_dir (bind_fs_ops K b) = default_read_dir"
    by (simp_all add: bind_fs_ops_def)
  note c = host_mem.bnd.backend_axioms [of K b F, unfolded backend_def sel]
  have rd: "host_io K (insert b B) (default_read_dir p)" for p by (simp add: host_io_def default_read_dir_def)
  show "backend (bind_fs_ops K b) (confined K (insert b B) k F) handle_ok"
    unfolding backend_def sel
    by (intro conjI allI impI confine_io confine_open host_io_bind_open rd)
      (use c in \<open>auto simp: normal_path_iff intro: host_io_bind\<close>)
qed

section \<open>The configurations\<close>

lemma bind_confined_in: "b \<in> B \<Longrightarrow> backend (bind_fs_ops K b) (confined K B k F) handle_ok"
  using bind_confined.backend_axioms [where K = K and b = b and B = B and k = k and F = F] by (simp add: insert_absorb)

interpretation overlay_confined: layered "overlay_new name (bind_fs_ops K upper) (bind_fs_ops K lower)"
    "confined K {upper, lower} k F" handle_ok
  for name and K :: "'k kernel" and upper lower k F
  by (rule layered.intro) (simp_all add: overlay_new_def layered_axioms_def bind_confined_in)

interpretation mem_vfs_confined: dispatcher "memory_root K fs" "memory_opened_ops K" "confined K B k (insert fs F)" handle_ok
  for K :: "'k kernel" and fs B k F
  by (rule dispatcher.intro)
     (simp_all add: dispatcher_axioms_def mem_confined.backend_axioms mem_files_confined.opened_files_axioms)

interpretation host_vfs_confined: dispatcher "overlay_root K upper lower" "memory_opened_ops K"
    "confined K {upper, lower} k F" handle_ok
  for K :: "'k kernel" and upper lower k F
  by (rule dispatcher.intro)
     (simp_all add: dispatcher_axioms_def overlay_confined.overlay.backend_axioms mem_files_confined.opened_files_axioms)

interpretation mixed_vfs_confined: dispatcher "overlay_with_memory K upper lower mp fs" "memory_opened_ops K"
    "confined K {upper, lower} k (insert fs F)" handle_ok
  for K :: "'k kernel" and upper lower mp fs k F
  by (rule dispatcher.intro)
     (simp_all add: dispatcher_axioms_def overlay_confined.overlay.backend_axioms mem_confined.backend_axioms
       mem_files_confined.opened_files_axioms)



end
