(* ===== verification/Hooks.thy ===== *)
theory Hooks
  imports VfsRun Dirents
begin

text \<open>
  \<open>src/src/libc_hooks.rs\<close> and \<open>src/src/dlhooks.rs\<close>: the functions of the C library that the program
  replaces. The definitions they hide (\<open>dlsym(RTLD_NEXT, \<dots>)\<close>) are those of the kernel record, which
  the backends call too, and of \<open>libc_next\<close>; both belong to the parameter \<open>process\<close>. Unwinding
  out of a hook's body is caught, so a body returns an outcome together with the state it left:
  a panic of the dispatcher leaves the state of its call, as the only call that can panic
  (\<open>getdents64\<close>) changes nothing before it does.
\<close>

section \<open>The process\<close>

text \<open>The next definitions of the replaced functions, other than those of the kernel record.\<close>

record 'k libc_next =
  n_accessat :: "fd \<Rightarrow> string \<Rightarrow> int \<Rightarrow> flags \<Rightarrow> 'k \<Rightarrow> int \<times> 'k"
  n_lstat :: "string \<Rightarrow> stat_buf \<Rightarrow> 'k \<Rightarrow> (int \<times> stat_buf) \<times> 'k"
  n_fstatat :: "fd \<Rightarrow> string \<Rightarrow> stat_buf \<Rightarrow> flags \<Rightarrow> 'k \<Rightarrow> (int \<times> stat_buf) \<times> 'k"
  n_newfstatat :: "fd \<Rightarrow> string \<Rightarrow> stat_buf \<Rightarrow> flags \<Rightarrow> 'k \<Rightarrow> (int \<times> stat_buf) \<times> 'k"
  n_fchownat :: "fd \<Rightarrow> string \<Rightarrow> 32 word \<Rightarrow> 32 word \<Rightarrow> flags \<Rightarrow> 'k \<Rightarrow> int \<times> 'k"
  n_lchown :: "string \<Rightarrow> 32 word \<Rightarrow> 32 word \<Rightarrow> 'k \<Rightarrow> int \<times> 'k"
  n_creat :: "string \<Rightarrow> mode_t \<Rightarrow> 'k \<Rightarrow> fd \<times> 'k"
  n_dup :: "fd \<Rightarrow> 'k \<Rightarrow> fd \<times> 'k"
  n_dup2 :: "fd \<Rightarrow> fd \<Rightarrow> 'k \<Rightarrow> fd \<times> 'k"
  n_dup3 :: "fd \<Rightarrow> fd \<Rightarrow> flags \<Rightarrow> 'k \<Rightarrow> fd \<times> 'k"
  n_mkdirat :: "fd \<Rightarrow> string \<Rightarrow> mode_t \<Rightarrow> 'k \<Rightarrow> int \<times> 'k"
  n_unlinkat :: "fd \<Rightarrow> string \<Rightarrow> flags \<Rightarrow> 'k \<Rightarrow> int \<times> 'k"
  n_renameat :: "fd \<Rightarrow> string \<Rightarrow> fd \<Rightarrow> string \<Rightarrow> 'k \<Rightarrow> int \<times> 'k"
  n_renameat2 :: "fd \<Rightarrow> string \<Rightarrow> fd \<Rightarrow> string \<Rightarrow> 32 word \<Rightarrow> 'k \<Rightarrow> int \<times> 'k"
  n_getdents64 :: "fd \<Rightarrow> byte list option \<Rightarrow> int \<Rightarrow> 'k \<Rightarrow> (int \<times> byte list option) \<times> 'k"
  n_opendir :: "string \<Rightarrow> 'k \<Rightarrow> nat \<times> 'k"
  n_closedir :: "nat \<Rightarrow> 'k \<Rightarrow> int \<times> 'k"
  n_fcntl_no_arg :: "fd \<Rightarrow> int \<Rightarrow> 'k \<Rightarrow> int \<times> 'k"
  n_fcntl_int :: "fd \<Rightarrow> int \<Rightarrow> int \<Rightarrow> 'k \<Rightarrow> int \<times> 'k"
  n_fcntl_ptr :: "fd \<Rightarrow> int \<Rightarrow> 64 word \<Rightarrow> 'k \<Rightarrow> int \<times> 'k"

text \<open>The environment: \<open>env::var_os\<close>, whether bytes are UTF-8, \<open>env::current_dir\<close>, \<open>Path::is_dir\<close>.\<close>

record 'k environment =
  env_var_os :: "string \<Rightarrow> string option"
  env_utf8 :: "string \<Rightarrow> bool"
  env_current_dir :: "string option"
  env_is_dir :: "string \<Rightarrow> 'k \<Rightarrow> bool"

text \<open>\<open>DIR *\<close> is its address, 0 the null pointer.\<close>

record materialized_dir =
  md_path :: string
  md_entries :: "vfs_dir_entry list"

datatype 'k lazy_vfs = Uninit | Ready "('k world, opened_file) root_vfs" | Poisoned

record 'k hook_state =
  hk_static :: "'k lazy_vfs"
  hk_vfs :: "('k world, opened_file) vfs_state"
  hk_dirs :: "nat \<Rightarrow> materialized_dir option"
  hk_next_dir :: u64

record 'k process =
  pr_kernel :: "'k kernel"
  pr_next :: "'k libc_next"
  pr_env :: "'k environment"
  pr_hash :: "path \<Rightarrow> u64"
  pr_pid :: int
  pr_unpassed :: "32 word"

text \<open>\<open>pr_unpassed\<close> is what reading a variadic argument gives that the caller did not pass.\<close>

section \<open>Building the file system\<close>

definition env_var :: "'k environment \<Rightarrow> string \<Rightarrow> string option" where
  "env_var E name = do { v \<leftarrow> env_var_os E name; if env_utf8 E v then Some v else None }"

definition required_dir_from_env :: "'k environment \<Rightarrow> string \<Rightarrow> 'k \<Rightarrow> string outcome" where
  "required_dir_from_env E name k =
     do { value \<leftarrow> env_var_os E name;
          path \<leftarrow> (if is_absolute (components value) then Done value
                  else do { cwd \<leftarrow> env_current_dir E; Done (join_bytes cwd value) });
          if env_is_dir E path k then Done path else Panic }"

definition optional_absolute_path_from_env :: "'k environment \<Rightarrow> string \<Rightarrow> path option outcome" where
  "optional_absolute_path_from_env E name =
     (case env_var_os E name of
        None \<Rightarrow> Done None
      | Some v \<Rightarrow> if is_absolute (components v) then Done (Some (components v)) else Panic)"

definition vfs_static ::
  "'k kernel \<Rightarrow> 'k environment \<Rightarrow> 'k world \<Rightarrow> (('k world, opened_file) root_vfs \<times> 'k world) outcome" where
  "vfs_static K E w =
     (let backend = env_var E ''SANDBOX_VFS_BACKEND''
      in if backend = Some ''memory''
         then let (fs, w) = memory_fs_new K ''memory'' w in Done (root_vfs_new (memory_fs_ops K fs), w)
         else if backend = Some ''overlay'' \<or> backend = None
         then do { lower \<leftarrow> required_dir_from_env E ''SANDBOX_VFS_LOWER'' (kern w);
                   upper \<leftarrow> required_dir_from_env E ''SANDBOX_VFS_UPPER'' (kern w);
                   let root = root_vfs_new (overlay_fs_ops (overlay_new ''overlay''
                                (bind_fs_ops K (bind_new ''upper'' upper))
                                (bind_fs_ops K (bind_new ''lower'' lower))));
                   mount \<leftarrow> optional_absolute_path_from_env E ''SANDBOX_VFS_MEMORY_MOUNT'';
                   (case mount of
                      Some path \<Rightarrow> let (fs, w) = memory_fs_new K ''memory'' w
                                   in Done (with_mount root path (memory_fs_ops K fs), w)
                    | None \<Rightarrow> Done (root, w)) }
         else Panic)"

section \<open>Calls of a hook's body\<close>

text \<open>Forcing the \<open>LazyLock\<close>: a panic of the initialiser poisons it, and every later use panics.\<close>

definition force_vfs ::
  "'k process \<Rightarrow> 'k hook_state \<Rightarrow> ('k world, opened_file) root_vfs outcome \<times> 'k hook_state" where
  "force_vfs P st =
     (case hk_static st of
        Ready rv \<Rightarrow> (Done rv, st)
      | Poisoned \<Rightarrow> (Panic, st)
      | Uninit \<Rightarrow>
          (case vfs_static (pr_kernel P) (pr_env P) (vfs_backend (hk_vfs st)) of
             Panic \<Rightarrow> (Panic, st\<lparr>hk_static := Poisoned\<rparr>)
           | Done (rv, w) \<Rightarrow> (Done rv, st\<lparr>hk_static := Ready rv, hk_vfs := (hk_vfs st)\<lparr>vfs_backend := w\<rparr>\<rparr>)))"

definition on_vfs ::
  "'k process \<Rightarrow> (('k world, opened_file) root_vfs \<Rightarrow> (('k world, opened_file) vfs_state, 'a) io) \<Rightarrow>
   'k hook_state \<Rightarrow> 'a outcome \<times> 'k hook_state" where
  "on_vfs P f st =
     (case force_vfs P st of
        (Panic, st) \<Rightarrow> (Panic, st)
      | (Done rv, st) \<Rightarrow>
          (case f rv (hk_vfs st) of
             Panic \<Rightarrow> (Panic, st)
           | Done (r, v) \<Rightarrow> (Done r, st\<lparr>hk_vfs := v\<rparr>)))"

text \<open>A call of a hidden definition.\<close>

definition host :: "('k \<Rightarrow> 'a \<times> 'k) \<Rightarrow> 'k hook_state \<Rightarrow> 'a \<times> 'k hook_state" where
  "host call st =
     (let w = vfs_backend (hk_vfs st); (r, k) = call (kern w)
      in (r, st\<lparr>hk_vfs := (hk_vfs st)\<lparr>vfs_backend := w\<lparr>kern := k\<rparr>\<rparr>\<rparr>))"

text \<open>The macro \<open>hook!\<close>: the body, or the hidden definition if the body panics.\<close>

definition hook ::
  "('k hook_state \<Rightarrow> 'a outcome \<times> 'k hook_state) \<Rightarrow> ('k \<Rightarrow> 'a \<times> 'k) \<Rightarrow> 'k hook_state \<Rightarrow> 'a \<times> 'k hook_state" where
  "hook body orig st =
     (case body st of
        (Done r, st) \<Rightarrow> (r, st)
      | (Panic, st) \<Rightarrow> host orig st)"

text \<open>\<open>match VFS.f(\<dots>) { Some(r) => r, None => Self::call_orig(\<dots>) }\<close>.\<close>

definition or_orig ::
  "('k hook_state \<Rightarrow> 'a option outcome \<times> 'k hook_state) \<Rightarrow> ('k \<Rightarrow> 'a \<times> 'k) \<Rightarrow>
   'k hook_state \<Rightarrow> 'a outcome \<times> 'k hook_state" where
  "or_orig body orig st =
     (case body st of
        (Panic, st) \<Rightarrow> (Panic, st)
      | (Done (Some r), st) \<Rightarrow> (Done r, st)
      | (Done None, st) \<Rightarrow> (let (r, st) = host orig st in (Done r, st)))"

text \<open>\<open>let result = Self::call_orig(\<dots>); if cond { VFS.f(result); } result\<close>.\<close>

definition orig_then ::
  "('k \<Rightarrow> int \<times> 'k) \<Rightarrow> (int \<Rightarrow> bool) \<Rightarrow>
   (int \<Rightarrow> ('k world, opened_file) vfs_state \<Rightarrow> ('k world, opened_file) vfs_state) \<Rightarrow>
   'k process \<Rightarrow> 'k hook_state \<Rightarrow> int outcome \<times> 'k hook_state" where
  "orig_then orig cond f P st =
     (let (result, st) = host orig st
      in if cond result
         then (case on_vfs P (\<lambda>rv v. Done ((), f result v)) st of
                 (Done _, st) \<Rightarrow> (Done result, st)
               | (Panic, st) \<Rightarrow> (Panic, st))
         else (Done result, st))"

text \<open>The path a C string argument denotes.\<close>

definition path_arg :: "string \<Rightarrow> path" where
  "path_arg cpath = components (from_cstr cpath)"

section \<open>Hooks that pass on to the hidden definition\<close>

definition hook_accessat :: "'k process \<Rightarrow> fd \<Rightarrow> string \<Rightarrow> int \<Rightarrow> flags \<Rightarrow> 'k hook_state \<Rightarrow> int \<times> 'k hook_state" where
  "hook_accessat P dirfd cpath mode flags =
     (let orig = n_accessat (pr_next P) dirfd (c_string cpath) mode flags
      in hook (\<lambda>st. let (r, st) = host orig st in (Done r, st)) orig)"

definition hook_fchownat ::
  "'k process \<Rightarrow> fd \<Rightarrow> string \<Rightarrow> 32 word \<Rightarrow> 32 word \<Rightarrow> flags \<Rightarrow> 'k hook_state \<Rightarrow> int \<times> 'k hook_state" where
  "hook_fchownat P dirfd cpath uid gid flags =
     (let orig = n_fchownat (pr_next P) dirfd (c_string cpath) uid gid flags
      in hook (\<lambda>st. let (r, st) = host orig st in (Done r, st)) orig)"

definition hook_lchown :: "'k process \<Rightarrow> string \<Rightarrow> 32 word \<Rightarrow> 32 word \<Rightarrow> 'k hook_state \<Rightarrow> int \<times> 'k hook_state" where
  "hook_lchown P path uid gid =
     (let orig = n_lchown (pr_next P) (c_string path) uid gid
      in hook (\<lambda>st. let (r, st) = host orig st in (Done r, st)) orig)"

section \<open>Hooks on paths\<close>

definition hook_access :: "'k process \<Rightarrow> string \<Rightarrow> int \<Rightarrow> 'k hook_state \<Rightarrow> int \<times> 'k hook_state" where
  "hook_access P cpath mode =
     hook (on_vfs P (\<lambda>rv. vfs_access rv (path_arg cpath) mode)) (k_access (pr_kernel P) (c_string cpath) mode)"

definition hook_chmod :: "'k process \<Rightarrow> string \<Rightarrow> mode_t \<Rightarrow> 'k hook_state \<Rightarrow> int \<times> 'k hook_state" where
  "hook_chmod P path mode =
     hook (on_vfs P (\<lambda>rv. vfs_chmod rv (path_arg path) mode)) (k_chmod (pr_kernel P) (c_string path) mode)"

definition hook_stat :: "'k process \<Rightarrow> string \<Rightarrow> stat_buf \<Rightarrow> 'k hook_state \<Rightarrow> (int \<times> stat_buf) \<times> 'k hook_state" where
  "hook_stat P path statbuf =
     hook (on_vfs P (\<lambda>rv. vfs_stat rv (path_arg path) statbuf)) (k_stat (pr_kernel P) (c_string path) statbuf)"

definition hook_lstat :: "'k process \<Rightarrow> string \<Rightarrow> stat_buf \<Rightarrow> 'k hook_state \<Rightarrow> (int \<times> stat_buf) \<times> 'k hook_state" where
  "hook_lstat P path statbuf =
     hook (on_vfs P (\<lambda>rv. vfs_stat rv (path_arg path) statbuf)) (n_lstat (pr_next P) (c_string path) statbuf)"

definition hook_creat :: "'k process \<Rightarrow> string \<Rightarrow> mode_t \<Rightarrow> 'k hook_state \<Rightarrow> fd \<times> 'k hook_state" where
  "hook_creat P path mode =
     hook (on_vfs P (\<lambda>rv. vfs_open rv (path_arg path) (O_CREAT OR O_WRONLY OR O_TRUNC) mode))
       (n_creat (pr_next P) (c_string path) mode)"

definition hook_mkdir :: "'k process \<Rightarrow> string \<Rightarrow> mode_t \<Rightarrow> 'k hook_state \<Rightarrow> int \<times> 'k hook_state" where
  "hook_mkdir P path mode =
     hook (on_vfs P (\<lambda>rv. vfs_mkdir rv (path_arg path) mode)) (k_mkdir (pr_kernel P) (c_string path) mode)"

definition hook_unlink :: "'k process \<Rightarrow> string \<Rightarrow> 'k hook_state \<Rightarrow> int \<times> 'k hook_state" where
  "hook_unlink P path =
     hook (on_vfs P (\<lambda>rv. vfs_unlink rv (path_arg path))) (k_unlink (pr_kernel P) (c_string path))"

definition hook_rmdir :: "'k process \<Rightarrow> string \<Rightarrow> 'k hook_state \<Rightarrow> int \<times> 'k hook_state" where
  "hook_rmdir P path =
     hook (on_vfs P (\<lambda>rv. vfs_rmdir rv (path_arg path))) (k_rmdir (pr_kernel P) (c_string path))"

definition hook_rename :: "'k process \<Rightarrow> string \<Rightarrow> string \<Rightarrow> 'k hook_state \<Rightarrow> int \<times> 'k hook_state" where
  "hook_rename P oldpath newpath =
     hook (on_vfs P (\<lambda>rv. vfs_rename rv (path_arg oldpath) (path_arg newpath)))
       (k_rename (pr_kernel P) (c_string oldpath) (c_string newpath))"

section \<open>Hooks on descriptors\<close>

definition hook_fstat :: "'k process \<Rightarrow> fd \<Rightarrow> stat_buf \<Rightarrow> 'k hook_state \<Rightarrow> (int \<times> stat_buf) \<times> 'k hook_state" where
  "hook_fstat P fd statbuf =
     (let orig = k_fstat (pr_kernel P) fd statbuf
      in hook (or_orig (on_vfs P (\<lambda>rv. vfs_fstat (memory_opened_ops (pr_kernel P)) fd statbuf)) orig) orig)"

text \<open>\<open>resolve_at\<close>, then \<open>stat\<close> of the resolved path.\<close>

definition stat_at ::
  "('s, 'h) root_vfs \<Rightarrow> fd \<Rightarrow> path \<Rightarrow> stat_buf \<Rightarrow> (('s, 'h) vfs_state, (int \<times> stat_buf) option) io" where
  "stat_at rv dirfd path statbuf v =
     do { p \<leftarrow> resolve_at v dirfd path;
          (case p of
             None \<Rightarrow> Done (None, v)
           | Some path \<Rightarrow> do { (r, v) \<leftarrow> vfs_stat rv path statbuf v; Done (Some r, v) }) }"

definition hook_fstatat ::
  "'k process \<Rightarrow> fd \<Rightarrow> string \<Rightarrow> stat_buf \<Rightarrow> flags \<Rightarrow> 'k hook_state \<Rightarrow> (int \<times> stat_buf) \<times> 'k hook_state" where
  "hook_fstatat P dirfd path statbuf flags =
     (let orig = n_fstatat (pr_next P) dirfd (c_string path) statbuf flags
      in hook (or_orig (on_vfs P (\<lambda>rv. stat_at rv dirfd (path_arg path) statbuf)) orig) orig)"

definition hook_newfstatat ::
  "'k process \<Rightarrow> fd \<Rightarrow> string \<Rightarrow> stat_buf \<Rightarrow> flags \<Rightarrow> 'k hook_state \<Rightarrow> (int \<times> stat_buf) \<times> 'k hook_state" where
  "hook_newfstatat P dirfd path statbuf flags =
     (let orig = n_newfstatat (pr_next P) dirfd (c_string path) statbuf flags
      in hook (or_orig (on_vfs P (\<lambda>rv. stat_at rv dirfd (path_arg path) statbuf)) orig) orig)"

definition hook_close :: "'k process \<Rightarrow> fd \<Rightarrow> 'k hook_state \<Rightarrow> int \<times> 'k hook_state" where
  "hook_close P fd =
     (let orig = k_close (pr_kernel P) fd
      in hook (orig_then orig (\<lambda>result. result = 0) (\<lambda>_. forget_fd fd) P) orig)"

definition hook_dup :: "'k process \<Rightarrow> fd \<Rightarrow> 'k hook_state \<Rightarrow> fd \<times> 'k hook_state" where
  "hook_dup P fd =
     (let orig = n_dup (pr_next P) fd
      in hook (orig_then orig (\<lambda>result. 0 \<le> result) (\<lambda>result. clone_fd fd result) P) orig)"

definition hook_dup2 :: "'k process \<Rightarrow> fd \<Rightarrow> fd \<Rightarrow> 'k hook_state \<Rightarrow> fd \<times> 'k hook_state" where
  "hook_dup2 P oldfd newfd =
     (let orig = n_dup2 (pr_next P) oldfd newfd
      in hook (orig_then orig (\<lambda>result. 0 \<le> result) (\<lambda>result. clone_fd oldfd result) P) orig)"

definition hook_dup3 :: "'k process \<Rightarrow> fd \<Rightarrow> fd \<Rightarrow> flags \<Rightarrow> 'k hook_state \<Rightarrow> fd \<times> 'k hook_state" where
  "hook_dup3 P oldfd newfd flags =
     (let orig = n_dup3 (pr_next P) oldfd newfd flags
      in hook (orig_then orig (\<lambda>result. 0 \<le> result) (\<lambda>result. clone_fd oldfd result) P) orig)"

definition hook_mkdirat :: "'k process \<Rightarrow> fd \<Rightarrow> string \<Rightarrow> mode_t \<Rightarrow> 'k hook_state \<Rightarrow> int \<times> 'k hook_state" where
  "hook_mkdirat P dirfd pathname mode =
     hook (on_vfs P (\<lambda>rv. vfs_mkdirat rv (memory_opened_ops (pr_kernel P)) dirfd (path_arg pathname) mode))
       (n_mkdirat (pr_next P) dirfd (c_string pathname) mode)"

definition hook_unlinkat :: "'k process \<Rightarrow> fd \<Rightarrow> string \<Rightarrow> flags \<Rightarrow> 'k hook_state \<Rightarrow> int \<times> 'k hook_state" where
  "hook_unlinkat P dirfd pathname flags =
     hook (on_vfs P (\<lambda>rv. vfs_unlinkat rv dirfd (path_arg pathname) flags))
       (n_unlinkat (pr_next P) dirfd (c_string pathname) flags)"

definition hook_renameat :: "'k process \<Rightarrow> fd \<Rightarrow> string \<Rightarrow> fd \<Rightarrow> string \<Rightarrow> 'k hook_state \<Rightarrow> int \<times> 'k hook_state" where
  "hook_renameat P olddirfd oldpath newdirfd newpath =
     hook (on_vfs P (\<lambda>rv. vfs_renameat rv olddirfd (path_arg oldpath) newdirfd (path_arg newpath)))
       (n_renameat (pr_next P) olddirfd (c_string oldpath) newdirfd (c_string newpath))"

definition hook_renameat2 ::
  "'k process \<Rightarrow> fd \<Rightarrow> string \<Rightarrow> fd \<Rightarrow> string \<Rightarrow> 32 word \<Rightarrow> 'k hook_state \<Rightarrow> int \<times> 'k hook_state" where
  "hook_renameat2 P olddirfd oldpath newdirfd newpath flags =
     (let orig = n_renameat2 (pr_next P) olddirfd (c_string oldpath) newdirfd (c_string newpath) flags
      in hook (if flags = 0
               then on_vfs P (\<lambda>rv. vfs_renameat rv olddirfd (path_arg oldpath) newdirfd (path_arg newpath))
               else (\<lambda>st. let (r, st) = host orig st in (Done r, st))) orig)"

definition hook_getdents64 ::
  "'k process \<Rightarrow> fd \<Rightarrow> byte list option \<Rightarrow> int \<Rightarrow> 'k hook_state \<Rightarrow> (int \<times> byte list option) \<times> 'k hook_state" where
  "hook_getdents64 P fd dirp count =
     (let orig = n_getdents64 (pr_next P) fd dirp count
      in hook (or_orig (on_vfs P (\<lambda>rv. vfs_getdents64 (pr_hash P) rv (memory_opened_ops (pr_kernel P)) fd dirp count)) orig) orig)"

section \<open>Variadic functions\<close>

text \<open>
  These are plain \<open>extern "C"\<close> functions: a panic is not caught and aborts the process, which is
  the outcome \<open>Panic\<close>. \<open>va\<close> is the mode the caller passed, if any.
\<close>

definition open_mode :: "'k process \<Rightarrow> flags \<Rightarrow> mode_t option \<Rightarrow> mode_t" where
  "open_mode P oflag va =
     (if oflag AND (O_CREAT OR O_TMPFILE) = 0 then 0
      else (case va of Some mode \<Rightarrow> mode | None \<Rightarrow> pr_unpassed P))"

definition hook_open ::
  "'k process \<Rightarrow> string \<Rightarrow> flags \<Rightarrow> mode_t option \<Rightarrow> 'k hook_state \<Rightarrow> fd outcome \<times> 'k hook_state" where
  "hook_open P cpath oflag va = on_vfs P (\<lambda>rv. vfs_open rv (path_arg cpath) oflag (open_mode P oflag va))"

definition hook_open64 ::
  "'k process \<Rightarrow> string \<Rightarrow> flags \<Rightarrow> mode_t option \<Rightarrow> 'k hook_state \<Rightarrow> fd outcome \<times> 'k hook_state" where
  "hook_open64 P cpath oflag va = on_vfs P (\<lambda>rv. vfs_open rv (path_arg cpath) oflag (open_mode P oflag va))"

definition hook_openat ::
  "'k process \<Rightarrow> fd \<Rightarrow> string \<Rightarrow> flags \<Rightarrow> mode_t option \<Rightarrow> 'k hook_state \<Rightarrow> fd outcome \<times> 'k hook_state" where
  "hook_openat P dirfd cpath oflag va =
     on_vfs P (\<lambda>rv. vfs_openat rv (memory_opened_ops (pr_kernel P)) dirfd (path_arg cpath) oflag (open_mode P oflag va))"

text \<open>The commands of \<open>fcntl\<close> by the type of their argument; \<open>arg\<close> is the register it is read from.\<close>

definition fcntl_dup :: "int \<Rightarrow> bool" where
  "fcntl_dup cmd \<longleftrightarrow> cmd \<in> set [0, 1030]"

definition fcntl_no_arg :: "int \<Rightarrow> bool" where
  "fcntl_no_arg cmd \<longleftrightarrow> cmd \<in> set [1, 3, 9, 11, 1025, 1032, 1034]"

definition fcntl_ptr :: "int \<Rightarrow> bool" where
  "fcntl_ptr cmd \<longleftrightarrow> cmd \<in> set [5, 6, 7, 36, 37, 38, 16, 15, 17, 1035, 1036, 1037, 1038]"

definition hook_fcntl :: "'k process \<Rightarrow> fd \<Rightarrow> int \<Rightarrow> 64 word \<Rightarrow> 'k hook_state \<Rightarrow> int outcome \<times> 'k hook_state" where
  "hook_fcntl P fd cmd arg st =
     (let N = pr_next P; int_arg = sint (ucast arg :: 32 word)
      in if fcntl_dup cmd
         then orig_then (n_fcntl_int N fd cmd int_arg) (\<lambda>result. 0 \<le> result) (\<lambda>result. clone_fd fd result) P st
         else if fcntl_no_arg cmd then let (r, st) = host (n_fcntl_no_arg N fd cmd) st in (Done r, st)
         else if fcntl_ptr cmd then let (r, st) = host (n_fcntl_ptr N fd cmd arg) st in (Done r, st)
         else let (r, st) = host (n_fcntl_int N fd cmd int_arg) st in (Done r, st))"

section \<open>Directory streams\<close>

definition path_to_cstring :: "string \<Rightarrow> string outcome" where
  "path_to_cstring path = (if CHR 0x00 \<in> set path then Panic else Done path)"

text \<open>Creating one entry of the temporary directory, by the hidden definitions.\<close>

definition create_entry :: "'k kernel \<Rightarrow> vfs_entry_kind \<Rightarrow> string \<Rightarrow> 'k \<Rightarrow> int \<times> 'k" where
  "create_entry K kind c_entry_path k =
     (case kind of
        DirKind \<Rightarrow> k_mkdir K c_entry_path 0x1C0 k
      | FileKind \<Rightarrow>
          (let (fd, k) = k_open K c_entry_path (O_CREAT OR O_WRONLY OR O_TRUNC) 0x180 k
           in if fd < 0 then (-1, k) else k_close K fd k))"

text \<open>The loop of \<open>materialize_dir\<close>: whether all entries could be created, and those that were.\<close>

fun materialize_entries ::
  "'k kernel \<Rightarrow> string \<Rightarrow> vfs_dir_entry list \<Rightarrow> vfs_dir_entry list \<Rightarrow> 'k \<Rightarrow>
   (bool \<times> vfs_dir_entry list) outcome \<times> 'k" where
  "materialize_entries K path [] created k = (Done (True, created), k)"
| "materialize_entries K path (entry # entries) created k =
     (if de_name entry = ''.'' \<or> de_name entry = ''..'' then materialize_entries K path entries created k
      else (case path_to_cstring (join_bytes path (de_name entry)) of
              Panic \<Rightarrow> (Panic, k)
            | Done c_entry_path \<Rightarrow>
                (let (result, k) = create_entry K (de_kind entry) c_entry_path k
                 in if result \<noteq> 0 then (Done (False, created), k)
                    else materialize_entries K path entries (created @ [entry]) k)))"

text \<open>
  \<open>cleanup_materialized_dir\<close> calls \<open>libc::rmdir\<close> and \<open>libc::unlink\<close>. Which definitions these are is
  up to the linker, so they are its arguments \<open>rm\<close> and \<open>ul\<close>: the program itself defines the two
  symbols. The loop runs backwards and ignores their results.
\<close>

fun cleanup_entries ::
  "(string \<Rightarrow> 's \<Rightarrow> int \<times> 's) \<Rightarrow> (string \<Rightarrow> 's \<Rightarrow> int \<times> 's) \<Rightarrow> string \<Rightarrow> vfs_dir_entry list \<Rightarrow> 's \<Rightarrow> unit outcome \<times> 's" where
  "cleanup_entries rm ul path [] st = (Done (), st)"
| "cleanup_entries rm ul path (entry # entries) st =
     (case path_to_cstring (join_bytes path (de_name entry)) of
        Panic \<Rightarrow> (Panic, st)
      | Done c_entry_path \<Rightarrow>
          cleanup_entries rm ul path entries
            (snd (case de_kind entry of DirKind \<Rightarrow> rm c_entry_path st | FileKind \<Rightarrow> ul c_entry_path st)))"

definition cleanup_materialized_dir ::
  "(string \<Rightarrow> 's \<Rightarrow> int \<times> 's) \<Rightarrow> (string \<Rightarrow> 's \<Rightarrow> int \<times> 's) \<Rightarrow> materialized_dir \<Rightarrow> 's \<Rightarrow> unit outcome \<times> 's" where
  "cleanup_materialized_dir rm ul m st =
     (case cleanup_entries rm ul (md_path m) (rev (md_entries m)) st of
        (Panic, st) \<Rightarrow> (Panic, st)
      | (Done _, st) \<Rightarrow>
          (case path_to_cstring (md_path m) of
             Panic \<Rightarrow> (Panic, st)
           | Done c_path \<Rightarrow> (Done (), snd (rm c_path st))))"

definition materialize_dir ::
  "'k process \<Rightarrow> (string \<Rightarrow> 'k hook_state \<Rightarrow> int \<times> 'k hook_state) \<Rightarrow> (string \<Rightarrow> 'k hook_state \<Rightarrow> int \<times> 'k hook_state) \<Rightarrow>
   vfs_dir_entry list \<Rightarrow> 'k hook_state \<Rightarrow> materialized_dir option outcome \<times> 'k hook_state" where
  "materialize_dir P rm ul entries st =
     (let K = pr_kernel P;
          path = ''/tmp/sandbox-vfs-opendir-'' @ show_int (pr_pid P) @ ''-'' @ show_nat (unat (hk_next_dir st));
          st = st\<lparr>hk_next_dir := hk_next_dir st + 1\<rparr>
      in case path_to_cstring path of
           Panic \<Rightarrow> (Panic, st)
         | Done c_path \<Rightarrow>
             (let (r, st) = host (k_mkdir K c_path 0x1C0) st
              in if r \<noteq> 0 then (Done None, st)
                 else (case host (materialize_entries K path entries []) st of
                         (Panic, st) \<Rightarrow> (Panic, st)
                       | (Done (all_made, created), st) \<Rightarrow>
                           (let m = \<lparr>md_path = path, md_entries = created\<rparr>
                            in if all_made then (Done (Some m), st)
                               else (case cleanup_materialized_dir rm ul m st of
                                       (Panic, st) \<Rightarrow> (Panic, st)
                                     | (Done _, st) \<Rightarrow> (Done None, st))))))"

definition opendir_body ::
  "'k process \<Rightarrow> (string \<Rightarrow> 'k hook_state \<Rightarrow> int \<times> 'k hook_state) \<Rightarrow> (string \<Rightarrow> 'k hook_state \<Rightarrow> int \<times> 'k hook_state) \<Rightarrow>
   string \<Rightarrow> 'k hook_state \<Rightarrow> nat outcome \<times> 'k hook_state" where
  "opendir_body P rm ul name st =
     (let call_orig = (\<lambda>st. let (r, st) = host (n_opendir (pr_next P) (c_string name)) st in (Done r, st))
      in case on_vfs P (\<lambda>rv. vfs_read_dir rv (path_arg name)) st of
           (Panic, st) \<Rightarrow> (Panic, st)
         | (Done None, st) \<Rightarrow> call_orig st
         | (Done (Some entries), st) \<Rightarrow>
             (case materialize_dir P rm ul entries st of
                (Panic, st) \<Rightarrow> (Panic, st)
              | (Done None, st) \<Rightarrow> call_orig st
              | (Done (Some materialized), st) \<Rightarrow>
                  (case path_to_cstring (md_path materialized) of
                     Panic \<Rightarrow> (Panic, st)
                   | Done c_path \<Rightarrow>
                       (let (dirp, st) = host (n_opendir (pr_next P) c_path) st
                        in if dirp \<noteq> 0
                           then (Done dirp, st\<lparr>hk_dirs := (hk_dirs st)(dirp \<mapsto> materialized)\<rparr>)
                           else (case cleanup_materialized_dir rm ul materialized st of
                                   (Panic, st) \<Rightarrow> (Panic, st)
                                 | (Done _, st) \<Rightarrow> call_orig st)))))"

definition hook_opendir ::
  "'k process \<Rightarrow> (string \<Rightarrow> 'k hook_state \<Rightarrow> int \<times> 'k hook_state) \<Rightarrow> (string \<Rightarrow> 'k hook_state \<Rightarrow> int \<times> 'k hook_state) \<Rightarrow>
   string \<Rightarrow> 'k hook_state \<Rightarrow> nat \<times> 'k hook_state" where
  "hook_opendir P rm ul name = hook (opendir_body P rm ul name) (n_opendir (pr_next P) (c_string name))"

definition closedir_body ::
  "'k process \<Rightarrow> (string \<Rightarrow> 'k hook_state \<Rightarrow> int \<times> 'k hook_state) \<Rightarrow> (string \<Rightarrow> 'k hook_state \<Rightarrow> int \<times> 'k hook_state) \<Rightarrow>
   nat \<Rightarrow> 'k hook_state \<Rightarrow> int outcome \<times> 'k hook_state" where
  "closedir_body P rm ul dirp st =
     (let materialized = hk_dirs st dirp;
          st = st\<lparr>hk_dirs := (hk_dirs st)(dirp := None)\<rparr>;
          (result, st) = host (n_closedir (pr_next P) dirp) st
      in case materialized of
           None \<Rightarrow> (Done result, st)
         | Some m \<Rightarrow>
             (case cleanup_materialized_dir rm ul m st of
                (Panic, st) \<Rightarrow> (Panic, st)
              | (Done _, st) \<Rightarrow> (Done result, st)))"

definition hook_closedir ::
  "'k process \<Rightarrow> (string \<Rightarrow> 'k hook_state \<Rightarrow> int \<times> 'k hook_state) \<Rightarrow> (string \<Rightarrow> 'k hook_state \<Rightarrow> int \<times> 'k hook_state) \<Rightarrow>
   nat \<Rightarrow> 'k hook_state \<Rightarrow> int \<times> 'k hook_state" where
  "hook_closedir P rm ul dirp = hook (closedir_body P rm ul dirp) (n_closedir (pr_next P) dirp)"

end
