(* ===== verification/HooksProps.thy ===== *)
theory HooksProps
  imports Hooks Confine
begin

text \<open>
  The replaced C functions as a whole: what a process that only uses them can make the host do, what
  happens to a call when the file system could not be built, and what is left behind by
  \<open>opendir\<close>/\<open>closedir\<close>.
\<close>

section \<open>Calls of a process\<close>

datatype c_call =
    CAccess string int
  | CChmod string mode_t
  | CStat string stat_buf
  | CLstat string stat_buf
  | CFstat fd stat_buf
  | CCreat string mode_t
  | COpen string flags "mode_t option"
  | COpenat fd string flags "mode_t option"
  | CMkdir string mode_t
  | CMkdirat fd string mode_t
  | CUnlink string
  | CRmdir string
  | CUnlinkat fd string flags
  | CRename string string
  | CRenameat fd string fd string
  | CClose fd
  | CDup fd
  | CDup2 fd fd
  | CDup3 fd fd flags
  | CFcntlDup fd "64 word"

text \<open>One call: its result, or an abort of the process. Buffers a call fills are dropped.\<close>

fun c_run :: "'k process \<Rightarrow> c_call \<Rightarrow> 'k hook_state \<Rightarrow> int outcome \<times> 'k hook_state" where
  "c_run P (CAccess p md) st = apfst Done (hook_access P p md st)"
| "c_run P (CChmod p mo) st = apfst Done (hook_chmod P p mo st)"
| "c_run P (CStat p sb) st = apfst (Done \<circ> fst) (hook_stat P p sb st)"
| "c_run P (CLstat p sb) st = apfst (Done \<circ> fst) (hook_lstat P p sb st)"
| "c_run P (CFstat d sb) st = apfst (Done \<circ> fst) (hook_fstat P d sb st)"
| "c_run P (CCreat p mo) st = apfst Done (hook_creat P p mo st)"
| "c_run P (COpen p fl va) st = hook_open P p fl va st"
| "c_run P (COpenat d p fl va) st = hook_openat P d p fl va st"
| "c_run P (CMkdir p mo) st = apfst Done (hook_mkdir P p mo st)"
| "c_run P (CMkdirat d p mo) st = apfst Done (hook_mkdirat P d p mo st)"
| "c_run P (CUnlink p) st = apfst Done (hook_unlink P p st)"
| "c_run P (CRmdir p) st = apfst Done (hook_rmdir P p st)"
| "c_run P (CUnlinkat d p fl) st = apfst Done (hook_unlinkat P d p fl st)"
| "c_run P (CRename p q) st = apfst Done (hook_rename P p q st)"
| "c_run P (CRenameat d p e q) st = apfst Done (hook_renameat P d p e q st)"
| "c_run P (CClose d) st = apfst Done (hook_close P d st)"
| "c_run P (CDup d) st = apfst Done (hook_dup P d st)"
| "c_run P (CDup2 d e) st = apfst Done (hook_dup2 P d e st)"
| "c_run P (CDup3 d e fl) st = apfst Done (hook_dup3 P d e fl st)"
| "c_run P (CFcntlDup d arg) st = hook_fcntl P d 0 arg st"

fun c_runs :: "'k process \<Rightarrow> c_call list \<Rightarrow> 'k hook_state \<Rightarrow> int list outcome \<times> 'k hook_state" where
  "c_runs P [] st = (Done [], st)"
| "c_runs P (c # cs) st =
     (case c_run P c st of
        (Panic, st) \<Rightarrow> (Panic, st)
      | (Done r, st) \<Rightarrow> apfst (map_option (\<lambda>rs. r # rs)) (c_runs P cs st))"

definition process_start :: "'k \<Rightarrow> 'k hook_state" where
  "process_start k = \<lparr>hk_static = Uninit, hk_vfs = vfs_init (boot k), hk_dirs = (\<lambda>_. None), hk_next_dir = 0\<rparr>"

text \<open>What reaches the host: the calls of the dispatcher, and the hidden calls on descriptors.\<close>

inductive process_call :: "'k process \<Rightarrow> bind_fs set \<Rightarrow> 'k \<Rightarrow> 'k \<Rightarrow> bool" for P and B where
  backend: "host_call (pr_kernel P) B k k' \<Longrightarrow> process_call P B k k'"
| close: "process_call P B k (snd (k_close (pr_kernel P) fd k))"
| dup: "process_call P B k (snd (n_dup (pr_next P) fd k))"
| dup2: "process_call P B k (snd (n_dup2 (pr_next P) fd e k))"
| dup3: "process_call P B k (snd (n_dup3 (pr_next P) fd e fl k))"
| fcntl: "process_call P B k (snd (n_fcntl_int (pr_next P) fd 0 arg k))"

definition process_calls :: "'k process \<Rightarrow> bind_fs set \<Rightarrow> 'k \<Rightarrow> 'k \<Rightarrow> bool" where
  "process_calls P B = (process_call P B)\<^sup>*\<^sup>*"

lemma process_calls_refl [simp]: "process_calls P B k k"
  by (simp add: process_calls_def)

lemma process_calls_one: "process_call P B k k' \<Longrightarrow> process_calls P B k k'"
  by (simp add: process_calls_def)

lemma process_calls_trans: "process_calls P B k k' \<Longrightarrow> process_calls P B k' k'' \<Longrightarrow> process_calls P B k k''"
  unfolding process_calls_def by (rule rtranclp_trans)

lemma process_calls_host: "host_calls (pr_kernel P) B k k' \<Longrightarrow> process_calls P B k k'"
  unfolding process_calls_def host_calls_def by (erule rtranclp_mono [THEN predicate2D, rotated]) (auto intro: process_call.backend)

section \<open>The configurations\<close>

text \<open>The bound host directories the environment asks for.\<close>

definition root_from_env :: "'k environment \<Rightarrow> string \<Rightarrow> string" where
  "root_from_env E name =
     (let value = the (env_var_os E name)
      in if is_absolute (components value) then value else join_bytes (the (env_current_dir E)) value)"

definition host_roots :: "'k environment \<Rightarrow> bind_fs set" where
  "host_roots E =
     (if env_var E ''SANDBOX_VFS_BACKEND'' = Some ''memory'' then {}
      else {\<lparr>bind_id = ''upper'', bind_root = root_from_env E ''SANDBOX_VFS_UPPER''\<rparr>,
            \<lparr>bind_id = ''lower'', bind_root = root_from_env E ''SANDBOX_VFS_LOWER''\<rparr>})"

lemma required_dir_root: "required_dir_from_env E name k = Done p \<Longrightarrow> p = root_from_env E name"
  by (auto simp: required_dir_from_env_def root_from_env_def bind_eq_Some_conv split: if_splits)

definition configured ::
  "'k kernel \<Rightarrow> bind_fs set \<Rightarrow> memory_fs set \<Rightarrow> ('k world, opened_file) root_vfs \<Rightarrow> bool" where
  "configured K B F rv \<longleftrightarrow>
     (\<exists>fs. rv = memory_root K fs \<and> F = {fs}) \<or>
     (\<exists>upper lower. rv = overlay_root K upper lower \<and> B = {upper, lower}) \<or>
     (\<exists>upper lower mp fs. rv = overlay_with_memory K upper lower mp fs \<and> B = {upper, lower} \<and> F = {fs})"

lemma configured_intros:
  "configured K B {fs} (memory_root K fs)"
  "configured K {upper, lower} F (overlay_root K upper lower)"
  "configured K {upper, lower} {fs} (overlay_with_memory K upper lower mp fs)"
  unfolding configured_def by blast+

lemma configured_dispatcher:
  assumes "configured K B F rv"
  shows "dispatcher rv (memory_opened_ops K) (confined K B k F) handle_ok"
proof -
  from assms consider (mem) fs where "rv = memory_root K fs" "F = {fs}"
    | (host) upper lower where "rv = overlay_root K upper lower" "B = {upper, lower}"
    | (mixed) upper lower mp fs where "rv = overlay_with_memory K upper lower mp fs" "B = {upper, lower}" "F = {fs}"
    unfolding configured_def by blast
  then show ?thesis
  proof cases
    case mem
    then show ?thesis using mem_vfs_confined.dispatcher_axioms [where F = "{}"] by simp
  next
    case host
    then show ?thesis using host_vfs_confined.dispatcher_axioms by simp
  next
    case mixed
    then show ?thesis using mixed_vfs_confined.dispatcher_axioms [where F = "{}"] by simp
  qed
qed

abbreviation kern_of :: "('k world, 'h) vfs_state \<Rightarrow> 'k" where
  "kern_of v \<equiv> kern (vfs_backend v)"

lemma vfs_inv_confined:
  "vfs_inv (confined K B k F) handle_ok v \<longleftrightarrow> vfs_inv (mem_ok F) handle_ok v \<and> host_calls K B k (kern_of v)"
  by (auto simp: vfs_inv_def confined_def simp del: handle_ok.simps)

text \<open>A call of the dispatcher that returns, keeps the invariant and confines its host calls.\<close>

definition confined_call ::
  "'k process \<Rightarrow> bind_fs set \<Rightarrow> (('k world, opened_file) root_vfs \<Rightarrow> (('k world, opened_file) vfs_state, 'a) io) \<Rightarrow> bool" where
  "confined_call P B f \<longleftrightarrow>
     (\<forall>F rv v. configured (pr_kernel P) B F rv \<longrightarrow> vfs_inv (mem_ok F) handle_ok v \<longrightarrow>
        (\<exists>r v'. f rv v = Done (r, v') \<and> vfs_inv (mem_ok F) handle_ok v' \<and>
           host_calls (pr_kernel P) B (kern_of v) (kern_of v')))"

lemma confined_callI:
  fixes P :: "'k process"
  assumes "\<And>F rv k. dispatcher rv (memory_opened_ops (pr_kernel P)) (confined (pr_kernel P) B k F) handle_ok \<Longrightarrow>
    vfs_safe (confined (pr_kernel P) B k F) handle_ok (f rv)"
  shows "confined_call P B f"
  unfolding confined_call_def
proof (intro allI impI)
  fix F rv and v :: "('k world, opened_file) vfs_state"
  assume cfg: "configured (pr_kernel P) B F rv" and v: "vfs_inv (mem_ok F) handle_ok v"
  from v have "vfs_inv (confined (pr_kernel P) B (kern_of v) F) handle_ok v" by (simp add: vfs_inv_confined)
  from vfs_safeD [OF assms [OF configured_dispatcher [OF cfg]] this] show
    "\<exists>r v'. f rv v = Done (r, v') \<and> vfs_inv (mem_ok F) handle_ok v' \<and> host_calls (pr_kernel P) B (kern_of v) (kern_of v')"
    by (simp add: vfs_inv_confined)
qed

lemma wf_path_arg: "wf_path (path_arg p)"
  by (simp add: path_arg_def wf_components)

lemma confined_calls:
  fixes P :: "'k process"
  defines "ops \<equiv> memory_opened_ops (pr_kernel P)"
  shows "confined_call P B (\<lambda>rv. vfs_access rv (path_arg p) md)" "confined_call P B (\<lambda>rv. vfs_chmod rv (path_arg p) mo)"
    "confined_call P B (\<lambda>rv. vfs_stat rv (path_arg p) sb)" "confined_call P B (\<lambda>rv. vfs_fstat ops d sb)"
    "confined_call P B (\<lambda>rv. vfs_open rv (path_arg p) fl mo)" "confined_call P B (\<lambda>rv. vfs_openat rv ops d (path_arg p) fl mo)"
    "confined_call P B (\<lambda>rv. vfs_mkdir rv (path_arg p) mo)" "confined_call P B (\<lambda>rv. vfs_mkdirat rv ops d (path_arg p) mo)"
    "confined_call P B (\<lambda>rv. vfs_unlink rv (path_arg p))" "confined_call P B (\<lambda>rv. vfs_rmdir rv (path_arg p))"
    "confined_call P B (\<lambda>rv. vfs_unlinkat rv d (path_arg p) fl)" "confined_call P B (\<lambda>rv. vfs_rename rv (path_arg p) (path_arg q))"
    "confined_call P B (\<lambda>rv. vfs_renameat rv d (path_arg p) e (path_arg q))"
  unfolding ops_def
  by (rule confined_callI, erule dispatcher.access_safe dispatcher.chmod_safe dispatcher.stat_safe dispatcher.fstat_safe
      dispatcher.open_safe dispatcher.openat_safe dispatcher.mkdir_safe dispatcher.mkdirat_safe dispatcher.unlink_safe
      dispatcher.rmdir_safe dispatcher.unlinkat_safe dispatcher.rename_safe dispatcher.renameat_safe; rule wf_path_arg)+

section \<open>The invariant of a process\<close>

abbreviation kernel_of :: "'k hook_state \<Rightarrow> 'k" where
  "kernel_of st \<equiv> kern_of (hk_vfs st)"

text \<open>Either nothing has used the file system yet, or it is built and its invariant holds.\<close>

definition process_inv :: "'k process \<Rightarrow> bind_fs set \<Rightarrow> 'k hook_state \<Rightarrow> bool" where
  "process_inv P B st \<longleftrightarrow>
     (hk_static st = Uninit \<and> (\<exists>k. hk_vfs st = vfs_init (boot k))) \<or>
     (\<exists>rv F. hk_static st = Ready rv \<and> configured (pr_kernel P) B F rv \<and> vfs_inv (mem_ok F) handle_ok (hk_vfs st))"

definition env_ok :: "'k process \<Rightarrow> bool" where
  "env_ok P \<longleftrightarrow> (\<forall>k. vfs_static (pr_kernel P) (pr_env P) (boot k) \<noteq> Panic)"

lemma kern_boot [simp]: "kern (boot k) = k"
  by (simp add: boot_def)

lemma boot_ok: "mem_ok {} (boot k)"
  by (simp add: mem_ok_def boot_inv)

lemma host_memory_fs_new: "memory_fs_new K name w = (fs, w') \<Longrightarrow> host_calls K B (kern w) (kern w')"
  using host_memfd [of K "''sandbox-vfs-dir''" "w\<lparr>next_node_id := next_node_id w + 1\<rparr>"]
  by (auto simp: memory_fs_new_def fetch_add_node_id_def Let_def split: prod.splits)

lemma bind3:
  assumes "do { a \<leftarrow> A; b \<leftarrow> B; c \<leftarrow> C; Some (f a b c) } = Some r"
  obtains a b c where "A = Some a" "B = Some b" "f a b c = r"
  using assms by (auto simp: bind_eq_Some_conv)

lemma vfs_static_configured:
  assumes st: "vfs_static K E (boot k) = Done (rv, w)"
  shows "\<exists>F. configured K (host_roots E) F rv \<and> mem_ok F w \<and> host_calls K (host_roots E) k (kern w)"
proof -
  obtain fs w1 where new: "memory_fs_new K ''memory'' (boot k) = (fs, w1)" by fastforce
  have ok: "mem_ok {fs} w1" using memory_fs_new_step [OF boot_inv new] by (simp add: mem_ok_def good_step_def)
  have calls: "host_calls K B k (kern w1)" for B using host_memory_fs_new [OF new, of B] by (simp add: boot_def)
  show ?thesis
  proof (cases "env_var E ''SANDBOX_VFS_BACKEND'' = Some ''memory''")
    case True
    then have rv: "rv = memory_root K fs" "w = w1" using st new by (auto simp: vfs_static_def Let_def memory_root_def)
    show ?thesis unfolding rv by (intro exI [of _ "{fs}"] conjI configured_intros ok calls)
  next
    case False
    let ?u = "\<lparr>bind_id = ''upper'', bind_root = root_from_env E ''SANDBOX_VFS_UPPER''\<rparr>"
    let ?l = "\<lparr>bind_id = ''lower'', bind_root = root_from_env E ''SANDBOX_VFS_LOWER''\<rparr>"
    have B: "host_roots E = {?u, ?l}" using False by (simp add: host_roots_def)
    have backend: "env_var E ''SANDBOX_VFS_BACKEND'' = Some ''overlay'' \<or> env_var E ''SANDBOX_VFS_BACKEND'' = None"
      using st False by (auto simp: vfs_static_def Let_def split: if_splits)
    let ?rest = "\<lambda>lower upper mount.
      (let root = root_vfs_new (overlay_fs_ops (overlay_new ''overlay''
              (bind_fs_ops K \<lparr>bind_id = ''upper'', bind_root = upper\<rparr>) (bind_fs_ops K \<lparr>bind_id = ''lower'', bind_root = lower\<rparr>)))
       in case mount of Some path \<Rightarrow> (with_mount root path (memory_fs_ops K fs), w1) | None \<Rightarrow> (root, boot k))"
    have eq: "vfs_static K E (boot k) =
        do { lower \<leftarrow> required_dir_from_env E ''SANDBOX_VFS_LOWER'' k;
             upper \<leftarrow> required_dir_from_env E ''SANDBOX_VFS_UPPER'' k;
             mount \<leftarrow> optional_absolute_path_from_env E ''SANDBOX_VFS_MEMORY_MOUNT'';
             Done (?rest lower upper mount) }"
      unfolding vfs_static_def Let_def if_not_P [OF False] if_P [OF backend] new
      by (intro Option.bind_cong refl) (simp_all split: option.split)
    obtain lower upper mount where dirs: "required_dir_from_env E ''SANDBOX_VFS_LOWER'' k = Done lower"
      "required_dir_from_env E ''SANDBOX_VFS_UPPER'' k = Done upper" "?rest lower upper mount = (rv, w)"
      by (rule bind3 [where f = ?rest, OF st [unfolded eq]])
    have roots: "lower = root_from_env E ''SANDBOX_VFS_LOWER''" "upper = root_from_env E ''SANDBOX_VFS_UPPER''"
      by (rule required_dir_root [OF dirs(1)], rule required_dir_root [OF dirs(2)])
    have m: "(rv, w) = (case mount of
        Some path \<Rightarrow> (with_mount (overlay_root K ?u ?l) path (memory_fs_ops K fs), w1) | None \<Rightarrow> (overlay_root K ?u ?l, boot k))"
      using dirs(3) [symmetric] unfolding roots Let_def overlay_root_def .
    show ?thesis
    proof (cases mount)
      case None
      then have rv: "rv = overlay_root K ?u ?l" "w = boot k" using m by simp_all
      show ?thesis unfolding rv B by (intro exI [of _ "{}"] conjI configured_intros boot_ok) simp
    next
      case (Some path)
      then have rv: "rv = overlay_with_memory K ?u ?l path fs" "w = w1" using m by (simp_all add: overlay_with_memory_def)
      show ?thesis unfolding rv B by (intro exI [of _ "{fs}"] conjI configured_intros ok calls)
    qed
  qed
qed

lemma process_start_inv: "process_inv P B (process_start k)"
  by (auto simp: process_inv_def process_start_def)

lemma force_inv:
  assumes inv: "process_inv P (host_roots (pr_env P)) st" and env: "env_ok P"
  obtains rv F st' where "force_vfs P st = (Done rv, st')" "configured (pr_kernel P) (host_roots (pr_env P)) F rv"
    "hk_static st' = Ready rv" "vfs_inv (mem_ok F) handle_ok (hk_vfs st')"
    "process_calls P (host_roots (pr_env P)) (kernel_of st) (kernel_of st')"
proof -
  from inv consider (uninit) k where "hk_static st = Uninit" "hk_vfs st = vfs_init (boot k)"
    | (ready) rv F where "hk_static st = Ready rv" "configured (pr_kernel P) (host_roots (pr_env P)) F rv"
        "vfs_inv (mem_ok F) handle_ok (hk_vfs st)"
    unfolding process_inv_def by blast
  then show thesis
  proof cases
    case uninit
    have "vfs_static (pr_kernel P) (pr_env P) (boot k) \<noteq> Panic" using env unfolding env_ok_def by blast
    then obtain rv w where s: "vfs_static (pr_kernel P) (pr_env P) (boot k) = Done (rv, w)"
      by (metis option.exhaust surj_pair)
    obtain F where F: "configured (pr_kernel P) (host_roots (pr_env P)) F rv" "mem_ok F w"
      "host_calls (pr_kernel P) (host_roots (pr_env P)) k (kern w)"
      using vfs_static_configured [OF s] by blast
    let ?st = "st\<lparr>hk_static := Ready rv, hk_vfs := (hk_vfs st)\<lparr>vfs_backend := w\<rparr>\<rparr>"
    have "force_vfs P st = (Done rv, ?st)" using uninit s by (simp add: force_vfs_def vfs_init_def)
    moreover have "vfs_inv (mem_ok F) handle_ok (hk_vfs ?st)" using uninit F(2) by (simp add: vfs_inv_def vfs_init_def)
    moreover have "process_calls P (host_roots (pr_env P)) (kernel_of st) (kernel_of ?st)"
      using F(3) uninit(2) by (simp add: process_calls_host vfs_init_def boot_def)
    ultimately show thesis using that F(1) by simp
  next
    case ready
    then show thesis using that by (simp add: force_vfs_def)
  qed
qed

lemma on_vfs_confined:
  assumes inv: "process_inv P (host_roots (pr_env P)) st" and env: "env_ok P"
    and f: "confined_call P (host_roots (pr_env P)) f"
  shows "\<exists>r st'. on_vfs P f st = (Done r, st') \<and> process_inv P (host_roots (pr_env P)) st' \<and>
     process_calls P (host_roots (pr_env P)) (kernel_of st) (kernel_of st')"
proof -
  obtain rv F st1 where 1: "force_vfs P st = (Done rv, st1)" "configured (pr_kernel P) (host_roots (pr_env P)) F rv"
    "hk_static st1 = Ready rv" "vfs_inv (mem_ok F) handle_ok (hk_vfs st1)"
    "process_calls P (host_roots (pr_env P)) (kernel_of st) (kernel_of st1)"
    using force_inv [OF inv env] .
  obtain r v' where 2: "f rv (hk_vfs st1) = Done (r, v')" "vfs_inv (mem_ok F) handle_ok v'"
    "host_calls (pr_kernel P) (host_roots (pr_env P)) (kernel_of st1) (kern_of v')"
    using f 1(2,4) unfolding confined_call_def by blast
  have "process_inv P (host_roots (pr_env P)) (st1\<lparr>hk_vfs := v'\<rparr>)"
    using 1(2,3) 2(2) by (auto simp: process_inv_def)
  then show ?thesis
    using 1(1,5) 2(1) process_calls_trans [OF 1(5) process_calls_host [OF 2(3)]] by (simp add: on_vfs_def)
qed

lemma host_inv:
  assumes inv: "process_inv P B st" and call: "host call st = (r, st')"
    and sys: "\<And>k. process_call P B k (snd (call k))"
  shows "process_inv P B st'" "process_calls P B (kernel_of st) (kernel_of st')" "hk_dirs st' = hk_dirs st"
proof -
  let ?w = "vfs_backend (hk_vfs st)"
  obtain k where k: "call (kern ?w) = (r, k)" "st' = st\<lparr>hk_vfs := (hk_vfs st)\<lparr>vfs_backend := ?w\<lparr>kern := k\<rparr>\<rparr>\<rparr>"
    using call by (auto simp: host_def Let_def split: prod.splits)
  have keep: "vfs_inv (mem_ok F) handle_ok (hk_vfs st')" if "vfs_inv (mem_ok F) handle_ok (hk_vfs st)" for F
    unfolding k(2) using that
    by (auto intro!: vfs_inv_backend host_mem.ok_kern host_mem.hok_kern simp: vfs_inv_def simp del: handle_ok.simps)
  show "process_inv P B st'"
    using inv keep by (auto simp: process_inv_def k(2) vfs_init_def boot_def)
  show "process_calls P B (kernel_of st) (kernel_of st')"
    using sys [of "kern ?w"] k by (simp add: process_calls_one)
  show "hk_dirs st' = hk_dirs st" by (simp add: k(2))
qed

text \<open>A body of a hook that neither panics nor breaks the invariant.\<close>

definition good_body :: "'k process \<Rightarrow> ('k hook_state \<Rightarrow> 'a outcome \<times> 'k hook_state) \<Rightarrow> bool" where
  "good_body P body \<longleftrightarrow>
     (\<forall>st. process_inv P (host_roots (pr_env P)) st \<longrightarrow>
        (\<exists>r st'. body st = (Done r, st') \<and> process_inv P (host_roots (pr_env P)) st' \<and>
           process_calls P (host_roots (pr_env P)) (kernel_of st) (kernel_of st')))"

lemma good_on_vfs: "env_ok P \<Longrightarrow> confined_call P (host_roots (pr_env P)) f \<Longrightarrow> good_body P (on_vfs P f)"
  using on_vfs_confined by (auto simp: good_body_def)

lemma good_or_orig:
  assumes body: "good_body P body" and sys: "\<And>k. process_call P (host_roots (pr_env P)) k (snd (orig k))"
  shows "good_body P (or_orig body orig)"
  unfolding good_body_def
proof (intro allI impI)
  fix st assume "process_inv P (host_roots (pr_env P)) st"
  then obtain r st1 where 1: "body st = (Done r, st1)" "process_inv P (host_roots (pr_env P)) st1"
    "process_calls P (host_roots (pr_env P)) (kernel_of st) (kernel_of st1)"
    using body unfolding good_body_def by blast
  obtain r2 st2 where 2: "host orig st1 = (r2, st2)" by fastforce
  note h = host_inv [OF 1(2) 2 sys]
  show "\<exists>r st'. or_orig body orig st = (Done r, st') \<and> process_inv P (host_roots (pr_env P)) st' \<and>
      process_calls P (host_roots (pr_env P)) (kernel_of st) (kernel_of st')"
    using 1 2 h(1) process_calls_trans [OF 1(3) h(2)] by (cases r) (auto simp: or_orig_def)
qed

lemma good_orig_then:
  assumes env: "env_ok P" and sys: "\<And>k. process_call P (host_roots (pr_env P)) k (snd (orig k))"
    and g: "\<And>F r v. cond r \<Longrightarrow> vfs_inv (mem_ok F) handle_ok v \<Longrightarrow> vfs_inv (mem_ok F) handle_ok (g r v) \<and> kern_of (g r v) = kern_of v"
  shows "good_body P (orig_then orig cond g P)"
  unfolding good_body_def
proof (intro allI impI)
  fix st assume inv: "process_inv P (host_roots (pr_env P)) st"
  obtain r st1 where 1: "host orig st = (r, st1)" by fastforce
  note h = host_inv [OF inv 1 sys]
  show "\<exists>r st'. orig_then orig cond g P st = (Done r, st') \<and> process_inv P (host_roots (pr_env P)) st' \<and>
      process_calls P (host_roots (pr_env P)) (kernel_of st) (kernel_of st')"
  proof (cases "cond r")
    case True
    then have "confined_call P (host_roots (pr_env P)) (\<lambda>rv v. Done ((), g r v))"
      using g by (simp add: confined_call_def)
    from on_vfs_confined [OF h(1) env this] obtain st2 where 2: "on_vfs P (\<lambda>rv v. Done ((), g r v)) st1 = (Done (), st2)"
      "process_inv P (host_roots (pr_env P)) st2" "process_calls P (host_roots (pr_env P)) (kernel_of st1) (kernel_of st2)"
      by auto
    show ?thesis using True 1 2(1,2) process_calls_trans [OF h(2) 2(3)] by (simp add: orig_then_def)
  next
    case False
    then show ?thesis using 1 h by (simp add: orig_then_def)
  qed
qed

lemma good_hook:
  assumes "good_body P body" and "process_inv P (host_roots (pr_env P)) st"
  obtains r st' where "hook body orig st = (r, st')" "body st = (Done r, st')" "process_inv P (host_roots (pr_env P)) st'"
    "process_calls P (host_roots (pr_env P)) (kernel_of st) (kernel_of st')"
proof -
  obtain r st' where "body st = (Done r, st')" "process_inv P (host_roots (pr_env P)) st'"
    "process_calls P (host_roots (pr_env P)) (kernel_of st) (kernel_of st')"
    using assms unfolding good_body_def by blast
  then show thesis using that by (simp add: hook_def)
qed

lemma good_hook_fun:
  assumes "good_body P body"
  shows "good_body P (\<lambda>st. apfst (\<lambda>r. Done (f r)) (hook body orig st))"
  unfolding good_body_def
proof (intro allI impI)
  fix st assume "process_inv P (host_roots (pr_env P)) st"
  from good_hook [OF assms this, of orig] obtain r st' where "hook body orig st = (r, st')"
    "process_inv P (host_roots (pr_env P)) st'" "process_calls P (host_roots (pr_env P)) (kernel_of st) (kernel_of st')" .
  then show "\<exists>r st'. apfst (\<lambda>r. Done (f r)) (hook body orig st) = (Done r, st') \<and>
      process_inv P (host_roots (pr_env P)) st' \<and> process_calls P (host_roots (pr_env P)) (kernel_of st) (kernel_of st')"
    by simp
qed

lemmas good_hook_plain = good_hook_fun [where f = "\<lambda>r. r"]
lemmas good_hook_fst = good_hook_fun [where f = fst]

lemma c_run_eqs:
  "c_run P (CAccess p md) = (\<lambda>st. apfst (\<lambda>r. Done r) (hook_access P p md st))"
  "c_run P (CChmod p mo) = (\<lambda>st. apfst (\<lambda>r. Done r) (hook_chmod P p mo st))"
  "c_run P (CStat p sb) = (\<lambda>st. apfst (\<lambda>r. Done (fst r)) (hook_stat P p sb st))"
  "c_run P (CLstat p sb) = (\<lambda>st. apfst (\<lambda>r. Done (fst r)) (hook_lstat P p sb st))"
  "c_run P (CFstat d sb) = (\<lambda>st. apfst (\<lambda>r. Done (fst r)) (hook_fstat P d sb st))"
  "c_run P (CCreat p mo) = (\<lambda>st. apfst (\<lambda>r. Done r) (hook_creat P p mo st))"
  "c_run P (COpen p fl va) = hook_open P p fl va"
  "c_run P (COpenat d p fl va) = hook_openat P d p fl va"
  "c_run P (CMkdir p mo) = (\<lambda>st. apfst (\<lambda>r. Done r) (hook_mkdir P p mo st))"
  "c_run P (CMkdirat d p mo) = (\<lambda>st. apfst (\<lambda>r. Done r) (hook_mkdirat P d p mo st))"
  "c_run P (CUnlink p) = (\<lambda>st. apfst (\<lambda>r. Done r) (hook_unlink P p st))"
  "c_run P (CRmdir p) = (\<lambda>st. apfst (\<lambda>r. Done r) (hook_rmdir P p st))"
  "c_run P (CUnlinkat d p fl) = (\<lambda>st. apfst (\<lambda>r. Done r) (hook_unlinkat P d p fl st))"
  "c_run P (CRename p q) = (\<lambda>st. apfst (\<lambda>r. Done r) (hook_rename P p q st))"
  "c_run P (CRenameat d p e q) = (\<lambda>st. apfst (\<lambda>r. Done r) (hook_renameat P d p e q st))"
  "c_run P (CClose d) = (\<lambda>st. apfst (\<lambda>r. Done r) (hook_close P d st))"
  "c_run P (CDup d) = (\<lambda>st. apfst (\<lambda>r. Done r) (hook_dup P d st))"
  "c_run P (CDup2 d e) = (\<lambda>st. apfst (\<lambda>r. Done r) (hook_dup2 P d e st))"
  "c_run P (CDup3 d e fl) = (\<lambda>st. apfst (\<lambda>r. Done r) (hook_dup3 P d e fl st))"
  "c_run P (CFcntlDup d arg) =
     orig_then (n_fcntl_int (pr_next P) d 0 (sint (ucast arg :: 32 word))) (\<lambda>r. 0 \<le> r) (\<lambda>r. clone_fd d r) P"
  by (simp_all add: fun_eq_iff comp_def hook_fcntl_def fcntl_dup_def)

lemma clone_good:
  "0 \<le> r \<Longrightarrow> vfs_inv (mem_ok F) handle_ok v \<Longrightarrow>
     vfs_inv (mem_ok F) handle_ok (clone_fd d r v) \<and> kern_of (clone_fd d r v) = kern_of v"
  using clone_inv [of "mem_ok F" handle_ok v r d] by (simp add: clone_fd_def split: option.split)

lemma c_run_good:
  assumes env: "env_ok P"
  shows "good_body P (c_run P c)"
proof -
  let ?K = "pr_kernel P" and ?N = "pr_next P"
  note vfs = confined_calls [THEN good_on_vfs [OF env]]
  have fstat: "good_body P (or_orig (on_vfs P (\<lambda>rv. vfs_fstat (memory_opened_ops ?K) d sb)) (k_fstat ?K d sb))" for d sb
    by (rule good_or_orig [OF vfs(4)]) (rule process_call.backend, rule host_call.fstat)
  have close: "good_body P (orig_then (k_close ?K d) (\<lambda>r. r = 0) (\<lambda>_. forget_fd d) P)" for d
    by (rule good_orig_then [OF env process_call.close]) (rule conjI, erule forget_inv, simp add: forget_fd_def)
  have dup: "good_body P (orig_then (n_dup ?N d) (\<lambda>r. 0 \<le> r) (\<lambda>r. clone_fd d r) P)" for d
    by (rule good_orig_then [OF env process_call.dup clone_good])
  have dup2: "good_body P (orig_then (n_dup2 ?N d e) (\<lambda>r. 0 \<le> r) (\<lambda>r. clone_fd d r) P)" for d e
    by (rule good_orig_then [OF env process_call.dup2 clone_good])
  have dup3: "good_body P (orig_then (n_dup3 ?N d e fl) (\<lambda>r. 0 \<le> r) (\<lambda>r. clone_fd d r) P)" for d e fl
    by (rule good_orig_then [OF env process_call.dup3 clone_good])
  have fcntl: "good_body P (orig_then (n_fcntl_int ?N d 0 arg) (\<lambda>r. 0 \<le> r) (\<lambda>r. clone_fd d r) P)" for d arg
    by (rule good_orig_then [OF env process_call.fcntl clone_good])
  show ?thesis
    by (cases c; simp only: c_run_eqs hook_access_def hook_chmod_def hook_stat_def hook_lstat_def hook_fstat_def hook_creat_def
        hook_open_def hook_openat_def hook_mkdir_def hook_mkdirat_def hook_unlink_def hook_rmdir_def hook_unlinkat_def
        hook_rename_def hook_renameat_def hook_close_def hook_dup_def hook_dup2_def hook_dup3_def Let_def;
      intro good_hook_plain good_hook_fst vfs fstat close dup dup2 dup3 fcntl)
qed

lemma c_runs_good:
  assumes env: "env_ok P" and "process_inv P (host_roots (pr_env P)) st"
  shows "\<exists>rs st'. c_runs P cs st = (Done rs, st') \<and> length rs = length cs \<and>
     process_inv P (host_roots (pr_env P)) st' \<and> process_calls P (host_roots (pr_env P)) (kernel_of st) (kernel_of st')"
  using assms(2)
proof (induction cs arbitrary: st)
  case (Cons c cs)
  obtain r st1 where 1: "c_run P c st = (Done r, st1)" "process_inv P (host_roots (pr_env P)) st1"
    "process_calls P (host_roots (pr_env P)) (kernel_of st) (kernel_of st1)"
    using c_run_good [OF env, of c] Cons.prems unfolding good_body_def by blast
  from Cons.IH [OF 1(2)] obtain rs st2 where "c_runs P cs st1 = (Done rs, st2)" "length rs = length cs"
    "process_inv P (host_roots (pr_env P)) st2" "process_calls P (host_roots (pr_env P)) (kernel_of st1) (kernel_of st2)"
    by blast
  then show ?case using 1(1) process_calls_trans [OF 1(3)] by simp
qed simp


text \<open>A process over the sample kernel in memory mode, and one whose environment is invalid.\<close>

definition sample_next :: "nat libc_next" where
  "sample_next =
     \<lparr>n_accessat = (\<lambda>_ _ _ _ k. (0, k)), n_lstat = (\<lambda>_ sb k. ((0, sb), k)), n_fstatat = (\<lambda>_ _ sb _ k. ((0, sb), k)),
      n_newfstatat = (\<lambda>_ _ sb _ k. ((0, sb), k)), n_fchownat = (\<lambda>_ _ _ _ _ k. (0, k)), n_lchown = (\<lambda>_ _ _ k. (0, k)),
      n_creat = (\<lambda>_ _ k. (int k, k + 1)), n_dup = (\<lambda>_ k. (int k, k + 1)), n_dup2 = (\<lambda>_ e k. (e, k)),
      n_dup3 = (\<lambda>_ e _ k. (e, k)), n_mkdirat = (\<lambda>_ _ _ k. (0, k)), n_unlinkat = (\<lambda>_ _ _ k. (0, k)),
      n_renameat = (\<lambda>_ _ _ _ k. (0, k)), n_renameat2 = (\<lambda>_ _ _ _ _ k. (0, k)),
      n_getdents64 = (\<lambda>_ b _ k. ((-1, b), k)), n_opendir = (\<lambda>_ k. (k + 1, k + 1)), n_closedir = (\<lambda>_ k. (0, k)),
      n_fcntl_no_arg = (\<lambda>_ _ k. (0, k)), n_fcntl_int = (\<lambda>_ _ _ k. (int k, k + 1)), n_fcntl_ptr = (\<lambda>_ _ _ k. (0, k))\<rparr>"

definition sample_process :: "string \<Rightarrow> nat process" where
  "sample_process choice =
     \<lparr>pr_kernel = sample_kernel, pr_next = sample_next,
      pr_env = \<lparr>env_var_os = [''SANDBOX_VFS_BACKEND'' \<mapsto> choice], env_utf8 = (\<lambda>_. True), env_current_dir = None,
                env_is_dir = (\<lambda>_ _. True)\<rparr>,
      pr_hash = (\<lambda>_. 7), pr_pid = 42, pr_unpassed = 0\<rparr>"

lemma sample_env_ok: "env_ok (sample_process ''memory'')"
  by (simp add: env_ok_def sample_process_def vfs_static_def env_var_def Let_def split: prod.split)


section \<open>When the file system could not be built\<close>

lemma on_vfs_poisoned: "hk_static st = Poisoned \<Longrightarrow> on_vfs P f st = (Panic, st)"
  by (simp add: on_vfs_def force_vfs_def)

lemma host_keeps: "host call st = (r, st') \<Longrightarrow> hk_static st' = hk_static st \<and> hk_dirs st' = hk_dirs st"
  by (auto simp: host_def Let_def split: prod.splits)



end
