(* ===== verification/Opendir.thy ===== *)
theory Opendir
  imports HooksProps
begin

text \<open>
  The temporary directory that \<open>opendir\<close> builds for the C library to read: what the host directory
  tree holds while the stream is open and after it was closed. The host's directory calls are
  described by \<open>dir_laws\<close> over an abstraction \<open>T\<close> of the kernel's state, the kinds of its paths.
\<close>

section \<open>Names\<close>

lemma show_nat_digits: "c \<in> set (show_nat n) \<Longrightarrow> \<exists>d < 10. c = char_of (48 + d :: nat)"
proof (induction n rule: show_nat.induct)
  case (1 n)
  then show ?case
    by (subst (asm) show_nat.simps) (auto split: if_splits intro: exI [of _ "n mod 10"])
qed

lemma show_nat_nonempty: "show_nat n \<noteq> []"
  by (subst show_nat.simps) simp

lemma digit_char: "d < 10 \<Longrightarrow> char_of (48 + d :: nat) \<noteq> CHR 0x00 \<and> char_of (48 + d :: nat) \<noteq> CHR ''/''"
proof -
  assume "d < 10"
  then have "d \<in> {0, 1, 2, 3, 4, 5, 6, 7, 8, 9}" by auto
  then show ?thesis by (auto simp: char_of_def)
qed

lemma show_nat_chars: "CHR 0x00 \<notin> set (show_nat n)" "CHR ''/'' \<notin> set (show_nat n)"
proof -
  have "c \<noteq> CHR 0x00 \<and> c \<noteq> CHR ''/''" if "c \<in> set (show_nat n)" for c
    using show_nat_digits [OF that] digit_char by auto
  then show "CHR 0x00 \<notin> set (show_nat n)" "CHR ''/'' \<notin> set (show_nat n)" by blast+
qed

lemma show_int_chars: "CHR 0x00 \<notin> set (show_int i)"
  using show_nat_chars by (auto simp: show_int_def)

definition temp_path :: "'k process \<Rightarrow> 'k hook_state \<Rightarrow> string" where
  "temp_path P st = ''/tmp/sandbox-vfs-opendir-'' @ show_int (pr_pid P) @ ''-'' @ show_nat (unat (hk_next_dir st))"

lemma temp_path_chars:
  "CHR 0x00 \<notin> set (temp_path P st)" "temp_path P st \<noteq> []" "last (temp_path P st) \<noteq> CHR ''/''"
proof -
  let ?n = "show_nat (unat (hk_next_dir st))"
  show "CHR 0x00 \<notin> set (temp_path P st)"
    using show_nat_chars show_int_chars by (simp add: temp_path_def)
  show "temp_path P st \<noteq> []" by (simp add: temp_path_def)
  have "last ?n \<in> set ?n" using show_nat_nonempty by (rule last_in_set)
  then have "last ?n \<noteq> CHR ''/''" using show_nat_chars(2) by metis
  then show "last (temp_path P st) \<noteq> CHR ''/''" using show_nat_nonempty by (simp add: temp_path_def)
qed

text \<open>An entry the dispatcher can list: a file name, no NUL.\<close>

definition plain_entry :: "vfs_dir_entry \<Rightarrow> bool" where
  "plain_entry e \<longleftrightarrow> valid_name (de_name e) \<and> CHR 0x00 \<notin> set (de_name e)"

definition entry_at :: "string \<Rightarrow> vfs_dir_entry \<Rightarrow> string" where
  "entry_at p e = p @ ''/'' @ de_name e"

lemma join_entry:
  assumes "plain_entry e" and "p \<noteq> []" "last p \<noteq> CHR ''/''"
  shows "join_bytes p (de_name e) = entry_at p e"
proof -
  have "\<not> (de_name e \<noteq> [] \<and> hd (de_name e) = CHR ''/'')"
    using assms(1) by (cases "de_name e") (auto simp: plain_entry_def valid_name_def)
  then show ?thesis using assms(2,3) by (simp add: join_bytes_def entry_at_def)
qed

lemma entry_at_cstring: "plain_entry e \<Longrightarrow> CHR 0x00 \<notin> set p \<Longrightarrow> path_to_cstring (entry_at p e) = Done (entry_at p e)"
  by (simp add: path_to_cstring_def entry_at_def plain_entry_def)

section \<open>The host's directories\<close>

definition dir_laws :: "'k kernel \<Rightarrow> ('k \<Rightarrow> string \<Rightarrow> vfs_entry_kind option) \<Rightarrow> bool" where
  "dir_laws K T \<longleftrightarrow>
     (\<forall>k c m. fst (k_mkdir K c m k) = 0 \<longrightarrow> (\<forall>d. T k (c @ ''/'' @ d) = None)) \<and>
     (\<forall>k c m. T (snd (k_mkdir K c m k)) =
        (if fst (k_mkdir K c m k) = 0 then (T k)(c \<mapsto> DirKind) else T k)) \<and>
     (\<forall>k c m. fst (k_mkdir K c m k) = 0 \<longrightarrow> T k c = None) \<and>
     (\<forall>k c m. T (snd (k_open K c (O_CREAT OR O_WRONLY OR O_TRUNC) m k)) =
        (if fst (k_open K c (O_CREAT OR O_WRONLY OR O_TRUNC) m k) < 0 then T k else (T k)(c \<mapsto> FileKind))) \<and>
     (\<forall>k c m. case k_open K c (O_CREAT OR O_WRONLY OR O_TRUNC) m k of
        (fd, k') \<Rightarrow> 0 \<le> fd \<longrightarrow> fst (k_close K fd k') = 0) \<and>
     (\<forall>k fd. T (snd (k_close K fd k)) = T k) \<and>
     (\<forall>k c. T k c = Some FileKind \<longrightarrow> T (snd (k_unlink K c k)) = (T k)(c := None)) \<and>
     (\<forall>k c. T k c = Some DirKind \<longrightarrow> (\<forall>d. T k (c @ ''/'' @ d) = None) \<longrightarrow>
        T (snd (k_rmdir K c k)) = (T k)(c := None))"

lemma dir_lawsD:
  assumes "dir_laws K T"
  shows "k_mkdir K c m k = (0, k') \<Longrightarrow> T k (c @ ''/'' @ d) = None"
    "k_mkdir K c m k = (r, k') \<Longrightarrow> T k' = (if r = 0 then (T k)(c \<mapsto> DirKind) else T k)"
    "k_mkdir K c m k = (0, k') \<Longrightarrow> T k c = None"
    "k_open K c (O_CREAT OR O_WRONLY OR O_TRUNC) m k = (fd, k') \<Longrightarrow> T k' = (if fd < 0 then T k else (T k)(c \<mapsto> FileKind))"
    "k_open K c (O_CREAT OR O_WRONLY OR O_TRUNC) m k = (fd, k') \<Longrightarrow> 0 \<le> fd \<Longrightarrow> fst (k_close K fd k') = 0"
    "T (snd (k_close K fd k)) = T k"
    "T k c = Some FileKind \<Longrightarrow> T (snd (k_unlink K c k)) = (T k)(c := None)"
    "T k c = Some DirKind \<Longrightarrow> (\<And>d. T k (c @ ''/'' @ d) = None) \<Longrightarrow> T (snd (k_rmdir K c k)) = (T k)(c := None)"
proof -
  have l:
    "\<forall>k c m. fst (k_mkdir K c m k) = 0 \<longrightarrow> (\<forall>d. T k (c @ ''/'' @ d) = None)"
    "\<forall>k c m. T (snd (k_mkdir K c m k)) = (if fst (k_mkdir K c m k) = 0 then (T k)(c \<mapsto> DirKind) else T k)"
    "\<forall>k c m. fst (k_mkdir K c m k) = 0 \<longrightarrow> T k c = None"
    "\<forall>k c m. T (snd (k_open K c (O_CREAT OR O_WRONLY OR O_TRUNC) m k)) =
      (if fst (k_open K c (O_CREAT OR O_WRONLY OR O_TRUNC) m k) < 0 then T k else (T k)(c \<mapsto> FileKind))"
    "\<forall>k c m. case k_open K c (O_CREAT OR O_WRONLY OR O_TRUNC) m k of (fd, k') \<Rightarrow> 0 \<le> fd \<longrightarrow> fst (k_close K fd k') = 0"
    "\<forall>k fd. T (snd (k_close K fd k)) = T k"
    "\<forall>k c. T k c = Some FileKind \<longrightarrow> T (snd (k_unlink K c k)) = (T k)(c := None)"
    "\<forall>k c. T k c = Some DirKind \<longrightarrow> (\<forall>d. T k (c @ ''/'' @ d) = None) \<longrightarrow> T (snd (k_rmdir K c k)) = (T k)(c := None)"
    using assms unfolding dir_laws_def by simp_all
  show "k_mkdir K c m k = (0, k') \<Longrightarrow> T k (c @ ''/'' @ d) = None"
    using spec [OF spec [OF spec [OF l(1), of k], of c], of m] by simp
  show "k_mkdir K c m k = (r, k') \<Longrightarrow> T k' = (if r = 0 then (T k)(c \<mapsto> DirKind) else T k)"
    using spec [OF spec [OF spec [OF l(2), of k], of c], of m] by (auto split: if_splits)
  show "k_mkdir K c m k = (0, k') \<Longrightarrow> T k c = None"
    using spec [OF spec [OF spec [OF l(3), of k], of c], of m] by (auto split: if_splits)
  show "k_open K c (O_CREAT OR O_WRONLY OR O_TRUNC) m k = (fd, k') \<Longrightarrow> T k' = (if fd < 0 then T k else (T k)(c \<mapsto> FileKind))"
    using spec [OF spec [OF spec [OF l(4), of k], of c], of m] by (auto split: if_splits)
  show "k_open K c (O_CREAT OR O_WRONLY OR O_TRUNC) m k = (fd, k') \<Longrightarrow> 0 \<le> fd \<Longrightarrow> fst (k_close K fd k') = 0"
    using spec [OF spec [OF spec [OF l(5), of k], of c], of m] by (auto split: if_splits)
  show "T (snd (k_close K fd k)) = T k"
    using l(6) by simp
  show "T k c = Some FileKind \<Longrightarrow> T (snd (k_unlink K c k)) = (T k)(c := None)"
    using l(7) by simp
  show "T k c = Some DirKind \<Longrightarrow> (\<And>d. T k (c @ ''/'' @ d) = None) \<Longrightarrow> T (snd (k_rmdir K c k)) = (T k)(c := None)"
    using l(8) [rule_format, of k c] by blast
qed

text \<open>A tree with entries added below a directory.\<close>

definition with_entries :: "string \<Rightarrow> vfs_dir_entry list \<Rightarrow> (string \<Rightarrow> vfs_entry_kind option) \<Rightarrow> string \<Rightarrow> vfs_entry_kind option" where
  "with_entries p es t = foldl (\<lambda>t e. t(entry_at p e \<mapsto> de_kind e)) t es"

lemma with_entries_simps [simp]:
  "with_entries p [] t = t"
  "with_entries p (es @ [e]) t = (with_entries p es t)(entry_at p e \<mapsto> de_kind e)"
  by (simp_all add: with_entries_def)

lemma with_entries_other: "c \<notin> entry_at p ` set es \<Longrightarrow> with_entries p es t c = t c"
  by (induction es rule: rev_induct) auto

lemma entry_at_inj: "entry_at p e = entry_at p e' \<longleftrightarrow> de_name e = de_name e'"
  by (simp add: entry_at_def)

lemma below_entry: "plain_entry e' \<Longrightarrow> entry_at p e @ ''/'' @ d \<noteq> entry_at p e'"
proof
  assume "plain_entry e'" and "entry_at p e @ ''/'' @ d = entry_at p e'"
  then have "CHR ''/'' \<notin> set (de_name e')" and "de_name e' = de_name e @ CHR ''/'' # d"
    by (simp_all add: entry_at_def plain_entry_def valid_name_def)
  then show False by simp
qed

lemma create_entry_effect:
  assumes "dir_laws K T" and "create_entry K kind c k = (r, k')"
  shows "T k' = (if r = 0 then (T k)(c \<mapsto> kind) else T k)"
proof (cases kind)
  case DirKind
  then show ?thesis using assms dir_lawsD(2) [OF assms(1)] by (simp add: create_entry_def)
next
  case FileKind
  obtain fd k1 where o: "k_open K c (O_CREAT OR O_WRONLY OR O_TRUNC) 0x180 k = (fd, k1)" by fastforce
  show ?thesis
  proof (cases "fd < 0")
    case True
    then show ?thesis using assms(2) FileKind o dir_lawsD(4) [OF assms(1) o] by (auto simp: create_entry_def)
  next
    case False
    then have "(r, k') = k_close K fd k1" using assms(2) FileKind o by (simp add: create_entry_def)
    then have "r = 0" "T k' = T k1"
      using dir_lawsD(5) [OF assms(1) o] dir_lawsD(6) [OF assms(1), of fd k1] False by (metis fst_conv not_less, metis snd_conv)
    then show ?thesis using dir_lawsD(4) [OF assms(1) o] False FileKind by simp
  qed
qed

section \<open>Creating and removing the entries\<close>

lemma materialize_effect:
  assumes laws: "dir_laws K T" and p: "p \<noteq> []" "last p \<noteq> CHR ''/''" "CHR 0x00 \<notin> set p"
    and es: "\<forall>e \<in> set es. plain_entry e" and t: "T k = with_entries p created t"
  obtains ok n k' where "materialize_entries K p es created k = (Done (ok, created @ take n es), k')"
    "T k' = with_entries p (created @ take n es) t" "ok \<longrightarrow> take n es = es"
  using es t
proof (induction es arbitrary: created k thesis)
  case Nil
  show ?case by (rule Nil(1) [of True 0 k]) (use Nil in simp_all)
next
  case (Cons e es)
  have e: "plain_entry e" using Cons.prems(2) by simp
  have names: "de_name e \<noteq> ''.''" "de_name e \<noteq> ''..''" using e by (auto simp: plain_entry_def valid_name_def)
  have path: "path_to_cstring (join_bytes p (de_name e)) = Done (entry_at p e)"
    using join_entry [OF e p(1,2)] entry_at_cstring [OF e p(3)] by simp
  obtain r k1 where c: "create_entry K (de_kind e) (entry_at p e) k = (r, k1)" by fastforce
  note eff = create_entry_effect [OF laws c]
  show ?case
  proof (cases "r = 0")
    case False
    show ?thesis
      by (rule Cons.prems(1) [of False 0 k1]) (use False names path c eff Cons.prems(3) in simp_all)
  next
    case True
    have "T k1 = with_entries p (created @ [e]) t" using eff True Cons.prems(3) by simp
    moreover have "\<forall>e \<in> set es. plain_entry e" using Cons.prems(2) by simp
    ultimately obtain ok n k' where IH: "materialize_entries K p es (created @ [e]) k1 = (Done (ok, (created @ [e]) @ take n es), k')"
      "T k' = with_entries p ((created @ [e]) @ take n es) t" "ok \<longrightarrow> take n es = es"
      using Cons.IH by blast
    show ?thesis
      by (rule Cons.prems(1) [of ok "Suc n" k']) (use IH True names path c in simp_all)
  qed
qed

text \<open>The hidden definitions of \<open>rmdir\<close> and \<open>unlink\<close>.\<close>

definition hidden_rmdir :: "'k process \<Rightarrow> string \<Rightarrow> 'k hook_state \<Rightarrow> int \<times> 'k hook_state" where
  "hidden_rmdir P c = host (k_rmdir (pr_kernel P) c)"

definition hidden_unlink :: "'k process \<Rightarrow> string \<Rightarrow> 'k hook_state \<Rightarrow> int \<times> 'k hook_state" where
  "hidden_unlink P c = host (k_unlink (pr_kernel P) c)"

lemma kernel_of_host: "kernel_of (snd (host call st)) = snd (call (kernel_of st))"
  by (simp add: host_def Let_def split: prod.split)

text \<open>Nothing is at or below an entry of a directory that was just made.\<close>

definition fresh_below :: "string \<Rightarrow> (string \<Rightarrow> vfs_entry_kind option) \<Rightarrow> bool" where
  "fresh_below p t \<longleftrightarrow> (\<forall>d. t (p @ ''/'' @ d) = None)"

lemma fresh_entry:
  assumes "fresh_below p t" and "\<forall>e' \<in> set es. plain_entry e'"
  shows "with_entries p es t (entry_at p e @ ''/'' @ d) = None"
    "de_name e \<notin> de_name ` set es \<Longrightarrow> with_entries p es t (entry_at p e) = None"
proof -
  have t: "t (entry_at p e @ x) = None" for x
    using assms(1) unfolding fresh_below_def entry_at_def by (metis append.assoc)
  have "entry_at p e @ ''/'' @ d \<notin> entry_at p ` set es" using assms(2) below_entry by blast
  then show "with_entries p es t (entry_at p e @ ''/'' @ d) = None" using with_entries_other t by metis
  assume "de_name e \<notin> de_name ` set es"
  then have "entry_at p e \<notin> entry_at p ` set es" by (auto simp: entry_at_inj)
  then show "with_entries p es t (entry_at p e) = None" using with_entries_other t [of "[]"] by simp
qed

lemma cleanup_effect:
  assumes laws: "dir_laws (pr_kernel P) T" and p: "p \<noteq> []" "last p \<noteq> CHR ''/''" "CHR 0x00 \<notin> set p"
    and es: "\<forall>e \<in> set es. plain_entry e" "distinct (map de_name es)" and t: "fresh_below p t" "T (kernel_of st) = with_entries p es t"
  obtains st' where "cleanup_entries (hidden_rmdir P) (hidden_unlink P) p (rev es) st = (Done (), st')" "T (kernel_of st') = t"
  using es t(2)
proof (induction es arbitrary: st thesis rule: rev_induct)
  case Nil
  then show ?case by simp
next
  case (snoc e es)
  have e: "plain_entry e" using snoc.prems(2) by simp
  have path: "path_to_cstring (join_bytes p (de_name e)) = Done (entry_at p e)"
    using join_entry [OF e p(1,2)] entry_at_cstring [OF e p(3)] by simp
  have es: "\<forall>e \<in> set es. plain_entry e" "distinct (map de_name es)" "de_name e \<notin> de_name ` set es"
    using snoc.prems(2,3) by auto
  note none = fresh_entry [OF t(1) es(1), of e]
  let ?k = "kernel_of st" and ?c = "entry_at p e"
  let ?st = "snd (case de_kind e of DirKind \<Rightarrow> hidden_rmdir P ?c st | FileKind \<Rightarrow> hidden_unlink P ?c st)"
  have here: "T ?k ?c = Some (de_kind e)" using snoc.prems(4) by simp
  have "?c @ ''/'' @ d \<noteq> ?c" for d by simp
  then have sub: "T ?k (?c @ ''/'' @ d) = None" for d using none(1) [of d] snoc.prems(4) by simp
  have "T (kernel_of ?st) = (T ?k)(?c := None)"
  proof (cases "de_kind e")
    case FileKind
    then show ?thesis using here dir_lawsD(7) [OF laws, of ?k ?c] by (simp add: hidden_unlink_def kernel_of_host)
  next
    case DirKind
    then show ?thesis using here dir_lawsD(8) [OF laws, of ?k ?c] sub by (simp add: hidden_rmdir_def kernel_of_host)
  qed
  also have "\<dots> = with_entries p es t" using none(2) [OF es(3)] snoc.prems(4) by (auto simp: fun_eq_iff)
  finally have "T (kernel_of ?st) = with_entries p es t" .
  with snoc.IH [OF _ es(1,2), of ?st] obtain st' where
    "cleanup_entries (hidden_rmdir P) (hidden_unlink P) p (rev es) ?st = (Done (), st')" "T (kernel_of st') = t" by blast
  then show ?case by (intro snoc.prems(1)) (simp_all add: path)
qed

lemma cleanup_dir_effect:
  assumes laws: "dir_laws (pr_kernel P) T" and p: "p \<noteq> []" "last p \<noteq> CHR ''/''" "CHR 0x00 \<notin> set p"
    and es: "\<forall>e \<in> set es. plain_entry e" "distinct (map de_name es)"
    and t: "fresh_below p t" "t p = None" "T (kernel_of st) = with_entries p es (t(p \<mapsto> DirKind))"
  obtains st' where "cleanup_materialized_dir (hidden_rmdir P) (hidden_unlink P) \<lparr>md_path = p, md_entries = es\<rparr> st = (Done (), st')"
    "T (kernel_of st') = t"
proof -
  have fresh: "fresh_below p (t(p \<mapsto> DirKind))" using t(1) by (simp add: fresh_below_def)
  obtain st1 where 1: "cleanup_entries (hidden_rmdir P) (hidden_unlink P) p (rev es) st = (Done (), st1)"
    "T (kernel_of st1) = t(p \<mapsto> DirKind)"
    using cleanup_effect [OF laws p es fresh t(3)] by blast
  have "T (kernel_of (snd (hidden_rmdir P p st1))) = t"
    using dir_lawsD(8) [OF laws, of "kernel_of st1" p] 1(2) fresh t(2)
    by (simp add: hidden_rmdir_def kernel_of_host fresh_below_def fun_upd_idem)
  then show thesis using that 1(1) p(3) by (simp add: cleanup_materialized_dir_def path_to_cstring_def)
qed

text \<open>\<open>materialize_dir\<close> in terms of its two calls on the host.\<close>

lemma materialize_dir_eq:
  assumes "host (k_mkdir (pr_kernel P) (temp_path P st) 0x1C0) (st\<lparr>hk_next_dir := hk_next_dir st + 1\<rparr>) = (r1, s1)"
    and "host (materialize_entries (pr_kernel P) (temp_path P st) entries []) s1 = (res, s2)"
  shows "materialize_dir P rm ul entries st =
     (if r1 \<noteq> 0 then (Done None, s1)
      else case res of
        Panic \<Rightarrow> (Panic, s2)
      | Done (all_made, created) \<Rightarrow>
          if all_made then (Done (Some \<lparr>md_path = temp_path P st, md_entries = created\<rparr>), s2)
          else (case cleanup_materialized_dir rm ul \<lparr>md_path = temp_path P st, md_entries = created\<rparr> s2 of
                  (Panic, st) \<Rightarrow> (Panic, st)
                | (Done _, st) \<Rightarrow> (Done None, st)))"
proof -
  have c: "path_to_cstring (temp_path P st) = Done (temp_path P st)"
    using temp_path_chars(1) [of P st] by (simp add: path_to_cstring_def)
  show ?thesis
    unfolding materialize_dir_def temp_path_def [symmetric] Let_def c by (simp add: assms split: option.split)
qed

section \<open>Properties\<close>

text \<open>Once the directory is made: some entries are, and the clean-up of these takes all of it back.\<close>

lemma made_and_cleaned:
  fixes P :: "'k process" and st s1 :: "'k hook_state"
  assumes laws: "dir_laws (pr_kernel P) T" and es: "\<forall>e \<in> set entries. plain_entry e" "distinct (map de_name entries)"
    and mk: "k_mkdir (pr_kernel P) (temp_path P st) 0x1C0 (kernel_of st) = (0, kernel_of s1)"
    and me: "host (materialize_entries (pr_kernel P) (temp_path P st) entries []) s1 = (res, s2)"
  obtains ok n s3 where "res = Done (ok, take n entries)" "ok \<longrightarrow> take n entries = entries"
    "T (kernel_of st) (temp_path P st) = None"
    "T (kernel_of s2) = with_entries (temp_path P st) (take n entries) ((T (kernel_of st))(temp_path P st \<mapsto> DirKind))"
    "cleanup_materialized_dir (hidden_rmdir P) (hidden_unlink P)
       \<lparr>md_path = temp_path P st, md_entries = take n entries\<rparr> s2 = (Done (), s3)" "T (kernel_of s3) = T (kernel_of st)"
proof -
  let ?K = "pr_kernel P" and ?p = "temp_path P st" and ?t = "T (kernel_of st)"
  note p = temp_path_chars(2,3,1) [of P st]
  have below: "fresh_below ?p ?t" using dir_lawsD(1) [OF laws] mk by (auto simp: fresh_below_def)
  have free: "?t ?p = None" using dir_lawsD(3) [OF laws] mk by blast
  have "T (kernel_of s1) = with_entries ?p [] (?t(?p \<mapsto> DirKind))" using dir_lawsD(2) [OF laws mk] by simp
  from materialize_effect [OF laws p es(1) this] obtain ok n k' where
    m: "materialize_entries ?K ?p entries [] (kernel_of s1) = (Done (ok, [] @ take n entries), k')"
    "T k' = with_entries ?p ([] @ take n entries) (?t(?p \<mapsto> DirKind))" "ok \<longrightarrow> take n entries = entries" .
  have h: "res = Done (ok, take n entries)" "kernel_of s2 = k'" using m(1) me by (auto simp: host_def)
  have made: "T (kernel_of s2) = with_entries ?p (take n entries) (?t(?p \<mapsto> DirKind))" using m(2) h(2) by simp
  have tk: "\<forall>e \<in> set (take n entries). plain_entry e" "distinct (map de_name (take n entries))"
    using es by (auto dest: in_set_takeD simp flip: take_map)
  obtain s3 where cl: "cleanup_materialized_dir (hidden_rmdir P) (hidden_unlink P)
      \<lparr>md_path = ?p, md_entries = take n entries\<rparr> s2 = (Done (), s3)" "T (kernel_of s3) = ?t"
    using cleanup_dir_effect [OF laws p tk below free made] .
  show thesis by (rule that [OF h(1) m(3) free made cl])
qed


text \<open>A host of directories: the state is the list of its paths with their kinds.\<close>

definition dir_kernel :: "(string \<times> vfs_entry_kind) list kernel" where
  "dir_kernel =
     \<lparr>k_memfd_create = (\<lambda>_ k. (3, k)), k_sys_openat = (\<lambda>_ _ _ _ k. (3, k)), k_fstat = (\<lambda>_ sb k. ((0, sb), k)),
      k_fchmod = (\<lambda>_ _ k. (0, k)), k_access = (\<lambda>c _ k. (if map_of k c = None then -1 else 0, k)),
      k_open = (\<lambda>c _ _ k. if map_of k c = Some DirKind then (-1, k) else (3, (c, FileKind) # k)),
      k_mkdir = (\<lambda>c _ k. if map_of k c = None \<and> list_all (\<lambda>(q, _). \<not> prefix (c @ ''/'') q) k
                          then (0, (c, DirKind) # k) else (-1, k)),
      k_unlink = (\<lambda>c k. (0, filter (\<lambda>x. fst x \<noteq> c) k)), k_rmdir = (\<lambda>c k. (0, filter (\<lambda>x. fst x \<noteq> c) k)),
      k_rename = (\<lambda>_ _ k. (0, k)), k_chmod = (\<lambda>_ _ k. (0, k)), k_stat = (\<lambda>_ sb k. ((0, sb), k)), k_close = (\<lambda>_ k. (0, k))\<rparr>"

lemma map_of_remove: "map_of (filter (\<lambda>x. fst x \<noteq> c) k) = (map_of k)(c := None)"
  by (induction k) (auto simp: fun_eq_iff)

lemma none_below: "list_all (\<lambda>(q, _). \<not> prefix (c @ ''/'') q) k \<Longrightarrow> map_of k (c @ ''/'' @ d) = None"
  by (induction k) (auto simp: prefix_def)

lemma dir_kernel_laws: "dir_laws dir_kernel map_of"
proof -
  have "map_of k (c @ CHR ''/'' # d) = None" if "list_all (\<lambda>(q, _). \<not> prefix (c @ ''/'') q) k"
    for k :: "(string \<times> vfs_entry_kind) list" and c d
    using none_below [OF that] by simp
  then show ?thesis by (auto simp: dir_laws_def dir_kernel_def map_of_remove)
qed

definition dir_process :: "(string \<times> vfs_entry_kind) list process" where
  "dir_process =
     \<lparr>pr_kernel = dir_kernel,
      pr_next =
        \<lparr>n_accessat = (\<lambda>_ _ _ _ k. (0, k)), n_lstat = (\<lambda>_ sb k. ((0, sb), k)), n_fstatat = (\<lambda>_ _ sb _ k. ((0, sb), k)),
         n_newfstatat = (\<lambda>_ _ sb _ k. ((0, sb), k)), n_fchownat = (\<lambda>_ _ _ _ _ k. (0, k)), n_lchown = (\<lambda>_ _ _ k. (0, k)),
         n_creat = (\<lambda>_ _ k. (3, k)), n_dup = (\<lambda>_ k. (4, k)), n_dup2 = (\<lambda>_ e k. (e, k)), n_dup3 = (\<lambda>_ e _ k. (e, k)),
         n_mkdirat = (\<lambda>_ _ _ k. (0, k)), n_unlinkat = (\<lambda>_ _ _ k. (0, k)), n_renameat = (\<lambda>_ _ _ _ k. (0, k)),
         n_renameat2 = (\<lambda>_ _ _ _ _ k. (0, k)), n_getdents64 = (\<lambda>_ b _ k. ((-1, b), k)), n_opendir = (\<lambda>_ k. (1, k)),
         n_closedir = (\<lambda>_ k. (0, k)), n_fcntl_no_arg = (\<lambda>_ _ k. (0, k)), n_fcntl_int = (\<lambda>_ _ _ k. (4, k)),
         n_fcntl_ptr = (\<lambda>_ _ _ k. (0, k))\<rparr>,
      pr_env = \<lparr>env_var_os = [''SANDBOX_VFS_BACKEND'' \<mapsto> ''memory''], env_utf8 = (\<lambda>_. True), env_current_dir = None,
                env_is_dir = (\<lambda>_ _. True)\<rparr>,
      pr_hash = (\<lambda>_. 7), pr_pid = 42, pr_unpassed = 0\<rparr>"

definition two_entries :: "vfs_dir_entry list" where
  "two_entries = [\<lparr>de_name = ''f'', de_kind = FileKind, de_ino = Some 2\<rparr>, \<lparr>de_name = ''s'', de_kind = DirKind, de_ino = Some 3\<rparr>]"


end
