(* ===== verification/MemoryMode.thy ===== *)
theory MemoryMode
  imports HooksProps MemoryProps
begin

text \<open>
  A process whose environment asks for the in-memory file system (\<open>SANDBOX_VFS_BACKEND=memory\<close>): what
  the hooks do on the single \<open>MemoryFS\<close> behind the dispatcher.
\<close>

section \<open>A process in memory mode\<close>

definition memory_mode :: "'k process \<Rightarrow> bool" where
  "memory_mode P \<longleftrightarrow> env_var (pr_env P) ''SANDBOX_VFS_BACKEND'' = Some ''memory''"

lemma memory_mode_roots: "memory_mode P \<Longrightarrow> host_roots (pr_env P) = {}"
  by (simp add: memory_mode_def host_roots_def)

lemma memory_mode_env: "memory_mode P \<Longrightarrow> env_ok P"
  by (simp add: memory_mode_def env_ok_def vfs_static_def Let_def split: prod.split)

lemma configured_memory: "configured K {} F rv \<Longrightarrow> \<exists>fs. rv = memory_root K fs \<and> F = {fs}"
  by (auto simp: configured_def)

lemma memory_force:
  assumes "memory_mode P" and "process_inv P (host_roots (pr_env P)) st"
  obtains fs st' where "force_vfs P st = (Done (memory_root (pr_kernel P) fs), st')"
    "hk_static st' = Ready (memory_root (pr_kernel P) fs)" "vfs_inv (mem_ok {fs}) handle_ok (hk_vfs st')"
  using force_inv [OF assms(2) memory_mode_env [OF assms(1)]] configured_memory memory_mode_roots [OF assms(1)] by metis

lemma memory_open:
  assumes "vfs_cwd v = names_path base"
  shows "vfs_open (memory_root K fs) p fl mo v =
     do { (z, v) \<leftarrow> on_backend (mem_open_with_handle K fs (names_path (names_from base p)) fl mo) v;
          Done (track_open z (names_path (names_from base p)) v) }"
  by (simp add: vfs_open_def open_and_track_def resolve_path_names [OF assms] to_fs_names dispatch_memory_root memory_fs_ops_def)

lemma memory_unlink:
  assumes "vfs_cwd v = names_path base"
  shows "vfs_unlink (memory_root K fs) p v = on_backend (mem_unlink fs (names_path (names_from base p))) v"
  by (simp add: vfs_unlink_def path_to_fs_dispatch [OF assms] dispatch_memory_root memory_fs_ops_def)

lemma memory_on_vfs:
  assumes "force_vfs P st = (Done (memory_root (pr_kernel P) fs), st')"
  shows "on_vfs P f st = (Done r, st'') \<longleftrightarrow>
     (\<exists>v. f (memory_root (pr_kernel P) fs) (hk_vfs st') = Done (r, v) \<and> st'' = st'\<lparr>hk_vfs := v\<rparr>)"
  using assms by (auto simp: on_vfs_def split: option.split)

text \<open>The file system is built, and its invariant holds.\<close>

definition memory_ready :: "'k process \<Rightarrow> memory_fs \<Rightarrow> 'k hook_state \<Rightarrow> bool" where
  "memory_ready P fs st \<longleftrightarrow> hk_static st = Ready (memory_root (pr_kernel P) fs) \<and> vfs_inv (mem_ok {fs}) handle_ok (hk_vfs st)"

lemma memory_ready_force: "memory_ready P fs st \<Longrightarrow> force_vfs P st = (Done (memory_root (pr_kernel P) fs), st)"
  by (simp add: memory_ready_def force_vfs_def)

lemma memory_ready_run:
  assumes "memory_mode P" and "c_runs P cs (process_start k) = (Done rs, st)" and "hk_static st \<noteq> Uninit"
  obtains fs where "memory_ready P fs st"
proof -
  have "process_inv P (host_roots (pr_env P)) st"
    using c_runs_good [OF memory_mode_env [OF assms(1)] process_start_inv, of cs k] assms(2) by auto
  then obtain rv F where "hk_static st = Ready rv" "configured (pr_kernel P) {} F rv" "vfs_inv (mem_ok F) handle_ok (hk_vfs st)"
    using assms(3) memory_mode_roots [OF assms(1)] by (auto simp: process_inv_def)
  with configured_memory obtain fs where "rv = memory_root (pr_kernel P) fs" "F = {fs}" by blast
  then show thesis using that \<open>hk_static st = Ready rv\<close> \<open>vfs_inv (mem_ok F) handle_ok (hk_vfs st)\<close>
    by (simp add: memory_ready_def)
qed

text \<open>The hooks that remove a path ask nothing of the host.\<close>

lemma memory_removal_call:
  fixes st :: "'k hook_state"
  assumes ready: "memory_ready P fs st" and base: "vfs_cwd (hk_vfs st) = names_path base"
    and f: "f (memory_root (pr_kernel P) fs) (hk_vfs st) =
        on_backend (remove_node_at (names_path (names_from base p)) (mem_nodes fs) (mem_root fs) kind) (hk_vfs st)"
  shows "\<exists>r st'. hook (on_vfs P f) orig st = (r, st') \<and> memory_ready P fs st' \<and> kernel_of st' = kernel_of st \<and> hk_dirs st' = hk_dirs st"
proof -
  let ?v = "hk_vfs st"
  have v: "vfs_inv (mem_ok {fs}) handle_ok ?v" using ready by (simp add: memory_ready_def)
  then have w: "mem_ok {fs} (vfs_backend ?v)" "world_inv (vfs_backend ?v)" "live (vfs_backend ?v) fs"
    by (simp_all add: vfs_inv_def mem_ok_def)
  obtain r w' where run: "remove_node_at (names_path (names_from base p)) (mem_nodes fs) (mem_root fs) kind (vfs_backend ?v) = Done (r, w')"
    "good_step (vfs_backend ?v) w'"
    using remove_step [OF w(2,3) names_path_absolute] by blast
  have "vfs_inv (mem_ok {fs}) handle_ok (?v\<lparr>vfs_backend := w'\<rparr>)"
    by (rule vfs_inv_backend [OF v mem_ok_step [OF w(1) run(2)]])
       (use run(2) evolves_handle in \<open>auto simp: good_step_def simp del: handle_ok.simps\<close>)
  then have "memory_ready P fs (st\<lparr>hk_vfs := ?v\<lparr>vfs_backend := w'\<rparr>\<rparr>)" using ready by (simp add: memory_ready_def)
  then show ?thesis
    using run(1) host_remove [OF run(1)]
    by (simp add: hook_def on_vfs_def memory_ready_force [OF ready] f on_backend_def)
qed

lemma memory_removal:
  assumes "memory_ready P fs st"
  shows "\<exists>r st'. hook_rmdir P c st = (r, st') \<and> memory_ready P fs st' \<and> kernel_of st' = kernel_of st \<and> hk_dirs st' = hk_dirs st"
    "\<exists>r st'. hook_unlink P c st = (r, st') \<and> memory_ready P fs st' \<and> kernel_of st' = kernel_of st \<and> hk_dirs st' = hk_dirs st"
proof -
  have "normal_path (vfs_cwd (hk_vfs st))" using assms by (simp add: memory_ready_def vfs_inv_def)
  then obtain base where base: "vfs_cwd (hk_vfs st) = names_path base" by (auto simp: normal_path_iff)
  show "\<exists>r st'. hook_rmdir P c st = (r, st') \<and> memory_ready P fs st' \<and> kernel_of st' = kernel_of st \<and> hk_dirs st' = hk_dirs st"
    unfolding hook_rmdir_def
    by (rule memory_removal_call [OF assms base, where p = "path_arg c" and kind = DirKind])
       (simp add: vfs_rmdir_def path_to_fs_dispatch [OF base] dispatch_memory_root memory_fs_ops_def mem_rmdir_def on_backend_def)
  show "\<exists>r st'. hook_unlink P c st = (r, st') \<and> memory_ready P fs st' \<and> kernel_of st' = kernel_of st \<and> hk_dirs st' = hk_dirs st"
    unfolding hook_unlink_def
    by (rule memory_removal_call [OF assms base, where p = "path_arg c" and kind = FileKind])
       (simp add: memory_unlink [OF base] mem_unlink_def on_backend_def)
qed

end
