(* ===== verification/NodeDrop.thy ===== *)
theory NodeDrop
  imports MemoryMode
begin

text \<open>
  \<open>impl Drop for Node\<close> of \<open>src/src/impls/memory.rs\<close>, where it meets the lock of the descriptor table
  in \<open>src/src/root_vfs.rs\<close>. The table's entries hold references (\<open>Arc\<close>) to nodes. The statements
  that take an entry out of the table (in \<open>forget_fd\<close>, \<open>clone_fd\<close> and \<open>track_open\<close>) drop it while the
  guard of \<open>fds.write()\<close> is still held: the guard is a temporary or a local that was created before
  the removed value. If the entry held the last reference, the node's destructor calls
  \<open>libc::close\<close>. In a build with the feature \<open>hooks\<close> that symbol is the hook, which calls \<open>forget_fd\<close>
  again, and so waits for a lock that its own thread holds. The calls here are those of the models
  of \<open>RootVFS\<close> and the hooks with this added; \<open>Blocked\<close> is a call that never returns.
\<close>

datatype 'a blocking = Returns 'a | Blocked

text \<open>Some reference to the node is left: in the node map of a file system, or in an opened file.\<close>

definition referenced :: "('k world, opened_file) vfs_state \<Rightarrow> node_id \<Rightarrow> bool" where
  "referenced v n \<longleftrightarrow>
     (\<exists>m. n \<in> node_maps (vfs_backend v) m) \<or>
     (\<exists>d info m. vfs_fds v d = Some info \<and> fi_opened info = Some (MemoryOpenedFile n m))"

text \<open>
  The call of \<open>libc::close\<close> in the destructor, by a thread that holds the lock: the hook, whose
  \<open>forget_fd\<close> needs the lock if the descriptor could be closed.
\<close>

definition close_interposed :: "'k process \<Rightarrow> fd \<Rightarrow> 'k hook_state \<Rightarrow> 'k hook_state blocking" where
  "close_interposed P fd st =
     (let (result, st) = host (k_close (pr_kernel P) fd) st in if result = 0 then Blocked else Returns st)"

text \<open>Dropping an entry that was taken out of the table.\<close>

definition drop_info ::
  "(fd \<Rightarrow> 'k hook_state \<Rightarrow> 'k hook_state blocking) \<Rightarrow> opened_file fd_info option \<Rightarrow> 'k hook_state \<Rightarrow>
   'k hook_state blocking" where
  "drop_info close info st =
     (case Option.bind info fi_opened of
        None \<Rightarrow> Returns st
      | Some (MemoryOpenedFile n m) \<Rightarrow>
          if referenced (hk_vfs st) n then Returns st
          else close (node_backing_fd (heap (vfs_backend (hk_vfs st)) n)) st)"

definition forget_fd_drop ::
  "(fd \<Rightarrow> 'k hook_state \<Rightarrow> 'k hook_state blocking) \<Rightarrow> fd \<Rightarrow> 'k hook_state \<Rightarrow> 'k hook_state blocking" where
  "forget_fd_drop close fd st =
     drop_info close (vfs_fds (hk_vfs st) fd) (st\<lparr>hk_vfs := forget_fd fd (hk_vfs st)\<rparr>)"

definition clone_fd_drop ::
  "(fd \<Rightarrow> 'k hook_state \<Rightarrow> 'k hook_state blocking) \<Rightarrow> fd \<Rightarrow> fd \<Rightarrow> 'k hook_state \<Rightarrow> 'k hook_state blocking" where
  "clone_fd_drop close oldfd newfd st =
     drop_info close (vfs_fds (hk_vfs st) newfd) (st\<lparr>hk_vfs := clone_fd oldfd newfd (hk_vfs st)\<rparr>)"

text \<open>The hooks \<open>close\<close> and \<open>dup2\<close>, once the file system is built.\<close>

definition hook_close_drop :: "'k process \<Rightarrow> fd \<Rightarrow> 'k hook_state \<Rightarrow> (int \<times> 'k hook_state) blocking" where
  "hook_close_drop P fd st =
     (let (result, st) = host (k_close (pr_kernel P) fd) st
      in if result = 0
         then (case forget_fd_drop (close_interposed P) fd st of
                 Blocked \<Rightarrow> Blocked | Returns st \<Rightarrow> Returns (result, st))
         else Returns (result, st))"

definition hook_dup2_drop :: "'k process \<Rightarrow> fd \<Rightarrow> fd \<Rightarrow> 'k hook_state \<Rightarrow> (fd \<times> 'k hook_state) blocking" where
  "hook_dup2_drop P oldfd newfd st =
     (let (result, st) = host (n_dup2 (pr_next P) oldfd newfd) st
      in if 0 \<le> result
         then (case clone_fd_drop (close_interposed P) oldfd result st of
                 Blocked \<Rightarrow> Blocked | Returns st \<Rightarrow> Returns (result, st))
         else Returns (result, st))"

section \<open>When a drop blocks\<close>

text \<open>The entry holds the last reference to its node.\<close>

definition last_reference :: "('k world, opened_file) vfs_state \<Rightarrow> opened_file fd_info option \<Rightarrow> node_id option" where
  "last_reference v info =
     (case Option.bind info fi_opened of
        None \<Rightarrow> None
      | Some (MemoryOpenedFile n m) \<Rightarrow> if referenced v n then None else Some n)"

lemma drop_info_last:
  "drop_info close info st =
     (case last_reference (hk_vfs st) info of
        None \<Rightarrow> Returns st
      | Some n \<Rightarrow> close (node_backing_fd (heap (vfs_backend (hk_vfs st)) n)) st)"
  by (simp add: drop_info_def last_reference_def split: option.split opened_file.split)

lemma host_state:
  "host call st = (fst (call (kernel_of st)),
     st\<lparr>hk_vfs := (hk_vfs st)\<lparr>vfs_backend := (vfs_backend (hk_vfs st))\<lparr>kern := snd (call (kernel_of st))\<rparr>\<rparr>\<rparr>)"
  by (simp add: host_def Let_def split: prod.split)

lemma referenced_kern [simp]:
  "referenced (v\<lparr>vfs_backend := w\<lparr>kern := k\<rparr>\<rparr>) n = referenced (v\<lparr>vfs_backend := w\<rparr>) n"
  by (simp add: referenced_def)

lemma last_reference_kern [simp]:
  "last_reference (v\<lparr>vfs_backend := w\<lparr>kern := k\<rparr>\<rparr>) info = last_reference (v\<lparr>vfs_backend := w\<rparr>) info"
  by (simp add: last_reference_def split: option.split opened_file.split)

lemma forget_fd_backend [simp]:
  "vfs_backend (forget_fd d v) = vfs_backend v"
  "forget_fd d (v\<lparr>vfs_backend := w\<rparr>) = (forget_fd d v)\<lparr>vfs_backend := w\<rparr>"
  "(forget_fd d v)\<lparr>vfs_backend := vfs_backend v\<rparr> = forget_fd d v"
  by (simp_all add: forget_fd_def)

lemma close_interposed_eq:
  "close_interposed P fd st =
     (if fst (k_close (pr_kernel P) fd (kernel_of st)) = 0 then Blocked
      else Returns (snd (host (k_close (pr_kernel P) fd) st)))"
  by (simp add: close_interposed_def host_state)

lemma hook_close_ready:
  assumes "hk_static st = Ready rv"
  shows "hook_close P d st =
     (case host (k_close (pr_kernel P) d) st of
        (r, st) \<Rightarrow> (r, if r = 0 then st\<lparr>hk_vfs := forget_fd d (hk_vfs st)\<rparr> else st))"
  using assms by (simp add: hook_close_def hook_def orig_then_def on_vfs_def force_vfs_def host_state Let_def)

lemma hook_dup2_ready:
  assumes "hk_static st = Ready rv"
  shows "hook_dup2 P d e st =
     (case host (n_dup2 (pr_next P) d e) st of
        (r, st) \<Rightarrow> (r, if 0 \<le> r then st\<lparr>hk_vfs := clone_fd d r (hk_vfs st)\<rparr> else st))"
  using assms by (simp add: hook_dup2_def hook_def orig_then_def on_vfs_def force_vfs_def host_state Let_def)

lemma clone_fd_backend [simp]:
  "vfs_backend (clone_fd d e v) = vfs_backend v"
  "clone_fd d e (v\<lparr>vfs_backend := w\<rparr>) = (clone_fd d e v)\<lparr>vfs_backend := w\<rparr>"
  "(clone_fd d e v)\<lparr>vfs_backend := vfs_backend v\<rparr> = clone_fd d e v"
  by (simp_all add: clone_fd_def split: option.split)

lemma last_reference_eq:
  "last_reference v info = Some n \<longleftrightarrow>
     (\<exists>i m. info = Some i \<and> fi_opened i = Some (MemoryOpenedFile n m) \<and> \<not> referenced v n)"
  by (cases info) (auto simp: last_reference_def split: option.splits opened_file.splits)

text \<open>What \<open>drop_info\<close> with the interposed \<open>close\<close> does in the state after a call on the kernel.\<close>

lemma drop_interposed:
  "drop_info (close_interposed P) info st = Blocked \<longleftrightarrow>
     (\<exists>n. last_reference (hk_vfs st) info = Some n \<and>
        fst (k_close (pr_kernel P) (node_backing_fd (heap (vfs_backend (hk_vfs st)) n)) (kernel_of st)) = 0)"
  "last_reference (hk_vfs st) info = None \<Longrightarrow> drop_info close info st = Returns st"
  by (auto simp: drop_info_last close_interposed_eq split: option.split)

section \<open>Temporary files\<close>

text \<open>The entry of a descriptor for a file that the call itself created is the only one for its node.\<close>

lemma exclusive_open:
  fixes v :: "('k world, opened_file) vfs_state"
  assumes v: "vfs_inv (mem_ok {fs}) handle_ok v" and cwd: "vfs_cwd v = names_path base"
    and fl: "fl AND (O_CREAT OR O_EXCL) = (O_CREAT OR O_EXCL)"
    and run: "vfs_open (memory_root K fs) p fl mo v = Done (d, v1)" "0 \<le> d"
  obtains n q where "vfs_fds v1 = (vfs_fds v)(d \<mapsto> \<lparr>fi_path = q, dir_offset = 0, fi_opened = Some (MemoryOpenedFile n (mem_nodes fs))\<rparr>)"
    "vfs_cwd v1 = vfs_cwd v" "view (vfs_backend v1) fs (names_from base p) = Some n"
    "\<And>e i m. vfs_fds v e = Some i \<Longrightarrow> fi_opened i \<noteq> Some (MemoryOpenedFile n m)"
proof -
  let ?w = "vfs_backend v" and ?ns = "names_from base p"
  have w: "world_inv ?w" "live ?w fs" using v by (simp_all add: vfs_inv_def mem_ok_def)
  obtain z w' where z: "mem_open_with_handle K fs (names_path ?ns) fl mo ?w = Done (z, w')"
    using run(1) by (auto simp: memory_open [OF cwd] on_backend_def bind_eq_Some_conv)
  have dv: "track_open z (names_path ?ns) (v\<lparr>vfs_backend := w'\<rparr>) = (d, v1)"
    using run(1) z by (simp add: memory_open [OF cwd] on_backend_def)
  then have d: "or_fd z = d" by (simp add: track_open_def)
  have none: "abs_fs ?w fs ?ns = None"
  proof (rule ccontr)
    assume "abs_fs ?w fs ?ns \<noteq> None"
    then obtain i kind where "abs_fs ?w fs ?ns = Some (i, kind)" by auto
    from open_existing [OF w this, of K fl mo] z fl d run(2) show False by (simp add: from_fd_def)
  qed
  let ?n = "next_node_id ?w"
  from open_missing [OF w none, of K fl mo] z d run(2) obtain t where
    t: "spec_create (abs_fs ?w fs) ?ns ?n FileKind = Some t" "abs_fs w' fs = t" "or_opened z = Some (MemoryOpenedFile ?n (mem_nodes fs))"
    by (auto simp: from_fd_def split: option.splits if_splits)
  have "t ?ns = Some (?n, FileKind)" using t(1) by (auto simp: spec_create_def split: if_splits)
  then have "abs_fs w' fs ?ns = Some (?n, FileKind)" using t(2) by simp
  then have view: "view w' fs ?ns = Some ?n" by (auto simp: abs_fs_def)
  have fresh: "fi_opened i \<noteq> Some (MemoryOpenedFile ?n m)" if "vfs_fds v e = Some i" for e i m
  proof
    assume "fi_opened i = Some (MemoryOpenedFile ?n m)"
    then have "handle_ok ?w (MemoryOpenedFile ?n m)" using v that unfolding vfs_inv_def by blast
    then show False by simp
  qed
  have v1: "vfs_fds v1 = (vfs_fds v)(d \<mapsto> \<lparr>fi_path = names_path ?ns, dir_offset = 0, fi_opened = Some (MemoryOpenedFile ?n (mem_nodes fs))\<rparr>)"
    "vfs_cwd v1 = vfs_cwd v" "vfs_backend v1 = w'"
    using dv d run(2) t(3) by (auto simp: track_open_def)
  show thesis by (rule that [OF v1(1,2) _ fresh]) (simp_all add: v1(3) view)
qed

lemma unlinked_reference:
  fixes v :: "('k world, opened_file) vfs_state"
  assumes v: "vfs_inv (mem_ok {fs}) handle_ok v" and cwd: "vfs_cwd v = names_path base"
    and at: "view (vfs_backend v) fs (names_from base p) = Some n"
    and run: "vfs_unlink (memory_root K fs) p v = Done (0, v1)"
  shows "vfs_fds v1 = vfs_fds v" "n \<notin> node_maps (vfs_backend v1) m"
proof -
  let ?w = "vfs_backend v"
  have w: "world_inv ?w" "live ?w fs" using v by (simp_all add: vfs_inv_def mem_ok_def)
  obtain w1 where "mem_unlink fs (names_path (names_from base p)) ?w = Done (0, w1)" and v1: "v1 = v\<lparr>vfs_backend := w1\<rparr>"
    using run by (auto simp: memory_unlink [OF cwd] on_backend_def bind_eq_Some_conv)
  then have "remove_node_at (names_path (names_from base p)) (mem_nodes fs) (mem_root fs) FileKind ?w = Done (0, w1)"
    by (simp add: mem_unlink_def)
  from removed_effect(1) [OF w at this] show "n \<notin> node_maps (vfs_backend v1) m" using v1 by simp
  show "vfs_fds v1 = vfs_fds v" using v1 by simp
qed

section \<open>Properties\<close>

text \<open>The sample process in memory mode after an exclusive creation and the removal of its path.\<close>

definition temp_calls :: "c_call list" where
  "temp_calls = [CMkdir ''/a'' 0x1ED]"

definition temp_opened :: "nat hook_state" where
  "temp_opened = snd (hook_open (sample_process ''memory'') ''/a/t'' (O_CREAT OR O_EXCL OR O_RDWR) (Some 0x180)
     (snd (c_runs (sample_process ''memory'') temp_calls (process_start 3))))"

definition temp_unlinked :: "nat hook_state" where
  "temp_unlinked = snd (hook_unlink (sample_process ''memory'') ''/a/t'' temp_opened)"

lemma temp_run:
  "c_runs (sample_process ''memory'') temp_calls (process_start 3) =
     (Done [0], snd (c_runs (sample_process ''memory'') temp_calls (process_start 3)))"
  "hook_open (sample_process ''memory'') ''/a/t'' (O_CREAT OR O_EXCL OR O_RDWR) (Some 0x180)
     (snd (c_runs (sample_process ''memory'') temp_calls (process_start 3))) = (Done 6, temp_opened)"
  "hook_unlink (sample_process ''memory'') ''/a/t'' temp_opened = (0, temp_unlinked)"
proof -
  show "c_runs (sample_process ''memory'') temp_calls (process_start 3) =
     (Done [0], snd (c_runs (sample_process ''memory'') temp_calls (process_start 3)))"
    by (rule prod_eqI) (code_simp, simp)
  show "hook_open (sample_process ''memory'') ''/a/t'' (O_CREAT OR O_EXCL OR O_RDWR) (Some 0x180)
     (snd (c_runs (sample_process ''memory'') temp_calls (process_start 3))) = (Done 6, temp_opened)"
    by (rule prod_eqI) (code_simp, simp add: temp_opened_def)
  show "hook_unlink (sample_process ''memory'') ''/a/t'' temp_opened = (0, temp_unlinked)"
    by (rule prod_eqI) (code_simp, simp add: temp_unlinked_def)
qed



text \<open>C34: The idiom of a temporary file never ends in memory mode: after any calls (that returned), a process that
  opens a new file with \<open>O_CREAT\<close> and \<open>O_EXCL\<close> and unlinks its path hangs when it closes the descriptor, on every
  host whose \<open>close\<close> succeeds.\<close>

theorem temporary_file_close_blocks:
  assumes mode: "memory_mode P" and before: "c_runs P cs (process_start k) = (Done rs, st)"
    and opened: "hook_open P p fl va st = (Done d, st1)" "0 \<le> d"
    and excl: "fl AND (O_CREAT OR O_EXCL) = (O_CREAT OR O_EXCL)"
    and unlink: "hook_unlink P p st1 = (0, st2)"
    and closes: "\<forall>k fd. fst (k_close (pr_kernel P) fd k) = 0"
  shows "hook_close_drop P d st2 = Blocked"
proof -
  let ?K = "pr_kernel P"
  have "process_inv P (host_roots (pr_env P)) st"
    using c_runs_good [OF memory_mode_env [OF mode] process_start_inv, of cs k] before by auto
  then obtain fs st0 where 0: "force_vfs P st = (Done (memory_root ?K fs), st0)" "hk_static st0 = Ready (memory_root ?K fs)"
    "vfs_inv (mem_ok {fs}) handle_ok (hk_vfs st0)"
    using memory_force [OF mode] by metis
  then obtain base where base: "vfs_cwd (hk_vfs st0) = names_path base"
    by (auto simp: vfs_inv_def normal_path_iff)
  obtain v1 where 1: "vfs_open (memory_root ?K fs) (path_arg p) fl (open_mode P fl va) (hk_vfs st0) = Done (d, v1)"
    "st1 = st0\<lparr>hk_vfs := v1\<rparr>"
    using opened(1) by (auto simp: hook_open_def memory_on_vfs [OF 0(1)])
  obtain n q where v1: "vfs_fds v1 = (vfs_fds (hk_vfs st0))(d \<mapsto>
        \<lparr>fi_path = q, dir_offset = 0, fi_opened = Some (MemoryOpenedFile n (mem_nodes fs))\<rparr>)"
    "vfs_cwd v1 = names_path base" "view (vfs_backend v1) fs (names_from base (path_arg p)) = Some n"
    and fresh: "\<And>e i m. vfs_fds (hk_vfs st0) e = Some i \<Longrightarrow> fi_opened i \<noteq> Some (MemoryOpenedFile n m)"
    using exclusive_open [OF 0(3) base excl 1(1) opened(2)] base by metis
  obtain r v where "vfs_open (memory_root ?K fs) (path_arg p) fl (open_mode P fl va) (hk_vfs st0) = Done (r, v)"
    "vfs_inv (mem_ok {fs}) handle_ok v"
    using vfs_safeD [OF mem_vfs.open_safe [OF wf_path_arg] 0(3)] by blast
  then have inv1: "vfs_inv (mem_ok {fs}) handle_ok v1" using 1(1) by simp
  have 2: "force_vfs P st1 = (Done (memory_root ?K fs), st1)" using 0(2) 1(2) by (simp add: force_vfs_def)
  obtain r v2 where run2: "vfs_unlink (memory_root ?K fs) (path_arg p) v1 = Done (r, v2)"
    using vfs_safeD [OF mem_vfs.unlink_safe [OF wf_path_arg] inv1] by blast
  then have v2: "vfs_unlink (memory_root ?K fs) (path_arg p) v1 = Done (0, v2)" "st2 = st1\<lparr>hk_vfs := v2\<rparr>"
    using unlink 1(2) 2 by (auto simp: hook_unlink_def hook_def on_vfs_def)
  have rel: "vfs_fds v2 = vfs_fds v1" "\<And>m. n \<notin> node_maps (vfs_backend v2) m"
    using unlinked_reference [OF inv1 v1(2,3) v2(1)] by auto
  have "\<not> referenced (forget_fd d v2) n"
    using rel(2) fresh by (auto simp: referenced_def forget_fd_def rel(1) v1(1) split: if_splits)
  then have last: "last_reference (forget_fd d v2) (vfs_fds v2 d) = Some n"
    by (simp add: last_reference_eq rel(1) v1(1))
  show ?thesis
    using last closes v2(2)
    by (simp add: hook_close_drop_def forget_fd_drop_def host_state drop_info_last close_interposed_eq)
qed

theorem temporary_file_close_blocks_witness:
  "hook_close_drop (sample_process ''memory'') 6 temp_unlinked = Blocked"
proof -
  have "memory_mode (sample_process ''memory'')" by (simp add: memory_mode_def sample_process_def env_var_def)
  moreover have "(O_CREAT OR O_EXCL OR O_RDWR) AND (O_CREAT OR O_EXCL) = O_CREAT OR O_EXCL" by code_simp
  moreover have "\<forall>k fd. fst (k_close (pr_kernel (sample_process ''memory'')) fd k) = 0"
    by (simp add: sample_process_def sample_kernel_def)
  ultimately show ?thesis using temporary_file_close_blocks [OF _ temp_run(1,2) _ _ temp_run(3)] by simp
qed

end
