(* ===== verification/OpendirLeak.thy ===== *)
theory OpendirLeak
  imports Opendir MemoryMode
begin

text \<open>
  What the pair \<open>opendir\<close>/\<open>closedir\<close> leaves on the host when the clean-up's \<open>libc::rmdir\<close> and
  \<open>libc::unlink\<close> are the program's own hooks, as they are in a library that is loaded with
  \<open>LD_PRELOAD\<close>: the hooks look the temporary paths up in the virtual file system, which does not
  have them.
\<close>

text \<open>A path of the host stays, whatever is created.\<close>

lemma create_entry_keeps:
  assumes laws: "dir_laws K T" and "T k p \<noteq> None" and "create_entry K kind c k = (r, k')"
  shows "T k' p \<noteq> None"
proof (cases kind)
  case FileKind
  obtain fd k1 where 1: "k_open K c (O_CREAT OR O_WRONLY OR O_TRUNC) 0x180 k = (fd, k1)" by fastforce
  have "T k' = T k1"
    using assms(3) FileKind 1 dir_lawsD(6) [OF laws, of fd k1]
    by (auto simp: create_entry_def split: if_splits prod.splits)
  then show ?thesis using dir_lawsD(4) [OF laws 1] assms(2) by (auto split: if_splits)
next
  case DirKind
  then have "k_mkdir K c 0x1C0 k = (r, k')" using assms(3) by (simp add: create_entry_def)
  from dir_lawsD(2) [OF laws this] show ?thesis using assms(2) by auto
qed

lemma materialize_entries_keeps:
  assumes laws: "dir_laws K T" and "T k p \<noteq> None" and "materialize_entries K path entries created k = (r, k')"
  shows "T k' p \<noteq> None"
  using assms(2,3)
proof (induction entries arbitrary: created k)
  case (Cons e es)
  show ?case
  proof (cases "de_name e = ''.'' \<or> de_name e = ''..''")
    case True
    then show ?thesis using Cons by auto
  next
    case False
    show ?thesis
    proof (cases "path_to_cstring (join_bytes path (de_name e))")
      case None
      then show ?thesis using Cons.prems False by simp
    next
      case (Some c)
      obtain res k1 where 1: "create_entry K (de_kind e) c k = (res, k1)" by fastforce
      have keep: "T k1 p \<noteq> None" by (rule create_entry_keeps [OF laws Cons.prems(1) 1])
      show ?thesis
        using Cons.prems(2) Cons.IH [OF keep] keep False Some 1 by (auto split: if_splits)
    qed
  qed
qed simp

text \<open>The clean-up with the hooks, in memory mode.\<close>

lemma memory_cleanup_entries:
  assumes "memory_ready P fs st"
  shows "\<exists>r st'. cleanup_entries (hook_rmdir P) (hook_unlink P) path es st = (r, st') \<and> memory_ready P fs st' \<and>
     kernel_of st' = kernel_of st \<and> hk_dirs st' = hk_dirs st"
  using assms
proof (induction es arbitrary: st)
  case (Cons e es)
  show ?case
  proof (cases "path_to_cstring (join_bytes path (de_name e))")
    case None
    then show ?thesis using Cons.prems by simp
  next
    case (Some c)
    let ?st = "snd (case de_kind e of DirKind \<Rightarrow> hook_rmdir P c st | FileKind \<Rightarrow> hook_unlink P c st)"
    have st: "memory_ready P fs ?st \<and> kernel_of ?st = kernel_of st \<and> hk_dirs ?st = hk_dirs st"
      using memory_removal [OF Cons.prems, of c] by (auto split: vfs_entry_kind.split)
    then have "memory_ready P fs ?st" by blast
    from Cons.IH [OF this] show ?thesis using st Some by auto
  qed
qed simp

lemma memory_cleanup:
  assumes "memory_ready P fs st"
  shows "\<exists>r st'. cleanup_materialized_dir (hook_rmdir P) (hook_unlink P) m st = (r, st') \<and> memory_ready P fs st' \<and>
     kernel_of st' = kernel_of st \<and> hk_dirs st' = hk_dirs st"
proof -
  obtain r st1 where 1: "cleanup_entries (hook_rmdir P) (hook_unlink P) (md_path m) (rev (md_entries m)) st = (r, st1)"
    "memory_ready P fs st1" "kernel_of st1 = kernel_of st" "hk_dirs st1 = hk_dirs st"
    using memory_cleanup_entries [OF assms] by blast
  show ?thesis
    using 1 memory_removal(1) [OF 1(2), of "md_path m"]
    by (auto simp: cleanup_materialized_dir_def path_to_cstring_def split: option.split)
qed

section \<open>The hooks in memory mode\<close>

lemma memory_ready_next [simp]:
  "memory_ready P fs (st\<lparr>hk_next_dir := x\<rparr>) = memory_ready P fs st"
  "memory_ready P fs (st\<lparr>hk_dirs := d\<rparr>) = memory_ready P fs st"
  by (simp_all add: memory_ready_def)

lemma memory_ready_host:
  assumes "memory_ready P fs st" and "host call st = (r, st')"
  shows "memory_ready P fs st'" "hk_dirs st' = hk_dirs st" "kernel_of st' = snd (call (kernel_of st))"
proof -
  let ?w = "vfs_backend (hk_vfs st)"
  obtain k where k: "call (kern ?w) = (r, k)" "st' = st\<lparr>hk_vfs := (hk_vfs st)\<lparr>vfs_backend := ?w\<lparr>kern := k\<rparr>\<rparr>\<rparr>"
    using assms(2) by (auto simp: host_def Let_def split: prod.splits)
  have "vfs_inv (mem_ok {fs}) handle_ok (hk_vfs st')"
    unfolding k(2) using assms(1)
    by (auto intro!: vfs_inv_backend host_mem.ok_kern host_mem.hok_kern simp: memory_ready_def vfs_inv_def simp del: handle_ok.simps)
  then show "memory_ready P fs st'" using assms(1) by (simp add: memory_ready_def k(2))
  show "hk_dirs st' = hk_dirs st" "kernel_of st' = snd (call (kernel_of st))" using k by simp_all
qed

lemma memory_read_dir:
  assumes "memory_ready P fs st"
  obtains r where "on_vfs P (\<lambda>rv. vfs_read_dir rv (path_arg name)) st = (Done r, st)"
proof -
  have v: "vfs_inv (mem_ok {fs}) handle_ok (hk_vfs st)" using assms by (simp add: memory_ready_def)
  then obtain base where base: "vfs_cwd (hk_vfs st) = names_path base" by (auto simp: vfs_inv_def normal_path_iff)
  have w: "world_inv (vfs_backend (hk_vfs st))" "live (vfs_backend (hk_vfs st)) fs"
    using v by (simp_all add: vfs_inv_def mem_ok_def)
  obtain r where "mem_read_dir fs (names_path (names_from base (path_arg name))) (vfs_backend (hk_vfs st)) = Done (r, vfs_backend (hk_vfs st))"
    by (simp add: mem_read_dir_def resolve_view [OF w])
  then have "vfs_read_dir (memory_root (pr_kernel P) fs) (path_arg name) (hk_vfs st) = Done (r, hk_vfs st)"
    by (simp add: vfs_read_dir_def path_to_fs_dispatch [OF base] dispatch_memory_root memory_fs_ops_def on_backend_def)
  then show thesis by (intro that) (simp add: on_vfs_def memory_ready_force [OF assms])
qed

lemma memory_materialize:
  assumes laws: "dir_laws (pr_kernel P) T" and ready: "memory_ready P fs st"
    and run: "materialize_dir P (hook_rmdir P) (hook_unlink P) entries st = (r, st1)"
  shows "memory_ready P fs st1" "hk_dirs st1 = hk_dirs st"
    "r = Done (Some m) \<Longrightarrow> T (kernel_of st) (md_path m) = None \<and> T (kernel_of st1) (md_path m) \<noteq> None"
proof -
  let ?K = "pr_kernel P" and ?p = "temp_path P st" and ?st = "st\<lparr>hk_next_dir := hk_next_dir st + 1\<rparr>"
  obtain r1 s1 where mk: "host (k_mkdir ?K ?p 0x1C0) ?st = (r1, s1)" by fastforce
  obtain res s2 where me: "host (materialize_entries ?K ?p entries []) s1 = (res, s2)" by fastforce
  have "memory_ready P fs ?st" using ready by simp
  note h1 = memory_ready_host [OF this mk] and h2 = memory_ready_host [OF _ me]
  note run' = run [unfolded materialize_dir_eq [OF mk me]]
  have "memory_ready P fs st1 \<and> hk_dirs st1 = hk_dirs st \<and>
      (r = Done (Some m) \<longrightarrow> T (kernel_of st) (md_path m) = None \<and> T (kernel_of st1) (md_path m) \<noteq> None)"
  proof (cases "r1 = 0")
    case False
    then show ?thesis using run' h1 by auto
  next
    case r1: True
    show ?thesis
    proof (cases res)
      case None
      then show ?thesis using run' r1 h1 h2 by auto
    next
      case (Some x)
      then obtain ok created where res: "res = Done (ok, created)" by (cases x) auto
      let ?m = "\<lparr>md_path = ?p, md_entries = created\<rparr>"
      have mk': "k_mkdir ?K ?p 0x1C0 (kernel_of st) = (0, kernel_of s1)"
        using mk r1 h1(3) by (auto simp: host_def Let_def split: prod.splits)
      have before: "T (kernel_of st) ?p = None" using dir_lawsD(3) [OF laws mk'] .
      have "T (kernel_of s1) ?p \<noteq> None" using dir_lawsD(2) [OF laws mk'] by simp
      moreover have "materialize_entries ?K ?p entries [] (kernel_of s1) = (res, kernel_of s2)"
        using me h2(3) h1(1) by (auto simp: host_def Let_def split: prod.splits)
      ultimately have after: "T (kernel_of s2) ?p \<noteq> None" using materialize_entries_keeps [OF laws] by blast
      obtain r3 s3 where "cleanup_materialized_dir (hook_rmdir P) (hook_unlink P) ?m s2 = (r3, s3)"
        "memory_ready P fs s3" "hk_dirs s3 = hk_dirs s2"
        using memory_cleanup [OF h2(1) [OF h1(1)], of ?m] by blast
      then show ?thesis
        using run' r1 res h1 h2 before after by (auto split: if_splits option.splits)
    qed
  qed
  then show "memory_ready P fs st1" "hk_dirs st1 = hk_dirs st"
    "r = Done (Some m) \<Longrightarrow> T (kernel_of st) (md_path m) = None \<and> T (kernel_of st1) (md_path m) \<noteq> None" by blast+
qed

lemma memory_opendir_body:
  assumes laws: "dir_laws (pr_kernel P) T" and streams: "\<And>c k. T (snd (n_opendir (pr_next P) c k)) = T k"
    and ready: "memory_ready P fs st"
    and run: "opendir_body P (hook_rmdir P) (hook_unlink P) name st = (r, st1)"
  shows "memory_ready P fs st1 \<and>
    (hk_dirs st1 = hk_dirs st \<or>
     (\<exists>d m. r = Done d \<and> hk_dirs st1 = (hk_dirs st)(d \<mapsto> m) \<and> T (kernel_of st) (md_path m) = None \<and>
        T (kernel_of st1) (md_path m) \<noteq> None))"
proof -
  let ?orig = "n_opendir (pr_next P) (c_string name)"
  have orig: "memory_ready P fs (snd (host ?orig s)) \<and> hk_dirs (snd (host ?orig s)) = hk_dirs st"
    if "memory_ready P fs s" "hk_dirs s = hk_dirs st" for s
    using memory_ready_host [OF that(1) surjective_pairing] that(2) by auto
  obtain rd where rd: "on_vfs P (\<lambda>rv. vfs_read_dir rv (path_arg name)) st = (Done rd, st)"
    using memory_read_dir [OF ready] .
  note run' = run [unfolded opendir_body_def rd Let_def, simplified]
  show ?thesis
  proof (cases rd)
    case None
    then show ?thesis using run' orig [OF ready refl] by (auto split: prod.splits)
  next
    case (Some entries)
    obtain res s2 where md: "materialize_dir P (hook_rmdir P) (hook_unlink P) entries st = (res, s2)" by fastforce
    note mm = memory_materialize [OF laws ready md]
    consider (panic) "res = Panic" | (failed) "res = Done None" | (made) m where "res = Done (Some m)"
      by (cases res rule: option.exhaust) (metis option.exhaust)+
    then show ?thesis
    proof cases
      case panic
      then show ?thesis using run' Some md mm by simp
    next
      case failed
      then show ?thesis using run' Some md orig [OF mm(1,2)] by (auto split: prod.splits)
    next
      case (made m)
      show ?thesis
      proof (cases "path_to_cstring (md_path m)")
        case None
        then show ?thesis using run' Some md made mm by simp
      next
        case (Some c)
        obtain d s3 where h: "host (n_opendir (pr_next P) c) s2 = (d, s3)" by fastforce
        note h3 = memory_ready_host [OF mm(1) h]
        obtain r4 s4 where cl: "cleanup_materialized_dir (hook_rmdir P) (hook_unlink P) m s3 = (r4, s4)"
          "memory_ready P fs s4" "hk_dirs s4 = hk_dirs s3"
          using memory_cleanup [OF h3(1), of m] by blast
        have "hk_dirs s4 = hk_dirs st" using cl(3) h3(2) mm(2) by simp
        note o4 = orig [OF cl(2) this]
        show ?thesis
        proof (cases "d = 0")
          case True
          then show ?thesis
            using run' \<open>rd = Some entries\<close> Some md made h h3(2) mm(2) cl o4 by (auto split: option.splits prod.splits)
        next
          case False
          then have "r = Done d" "st1 = s3\<lparr>hk_dirs := (hk_dirs s3)(d \<mapsto> m)\<rparr>"
            using run' \<open>rd = Some entries\<close> Some md made h by simp_all
          then show ?thesis using h3 mm(2) mm(3) [OF made] streams [of c "kernel_of s2"] by auto
        qed
      qed
    qed
  qed
qed

lemma memory_opendir:
  assumes laws: "dir_laws (pr_kernel P) T" and streams: "\<And>c k. T (snd (n_opendir (pr_next P) c k)) = T k"
    and ready: "memory_ready P fs st"
    and run: "hook_opendir P (hook_rmdir P) (hook_unlink P) name st = (dirp, st1)"
    and new: "hk_dirs st dirp = None" "hk_dirs st1 dirp = Some m"
  shows "memory_ready P fs st1 \<and> T (kernel_of st) (md_path m) = None \<and> T (kernel_of st1) (md_path m) \<noteq> None"
proof -
  obtain r s1 where body: "opendir_body P (hook_rmdir P) (hook_unlink P) name st = (r, s1)" by fastforce
  note b = memory_opendir_body [OF laws streams ready body]
  show ?thesis
  proof (cases r)
    case None
    then have "host (n_opendir (pr_next P) (c_string name)) s1 = (dirp, st1)" using run body by (simp add: hook_opendir_def hook_def)
    then have "hk_dirs st1 = hk_dirs s1" by (rule memory_ready_host(2) [OF conjunct1 [OF b]])
    then show ?thesis using b None new by auto
  next
    case (Some d)
    then have "d = dirp" "s1 = st1" using run body by (simp_all add: hook_opendir_def hook_def)
    then show ?thesis using b Some new by auto
  qed
qed

lemma memory_closedir:
  assumes streams: "\<And>d k. T (snd (n_closedir (pr_next P) d k)) = T k"
    and ready: "memory_ready P fs st" and run: "hook_closedir P (hook_rmdir P) (hook_unlink P) dirp st = (r, st1)"
  shows "T (kernel_of st1) = T (kernel_of st) \<and> hk_dirs st1 = (hk_dirs st)(dirp := None)"
proof -
  let ?st = "st\<lparr>hk_dirs := (hk_dirs st)(dirp := None)\<rparr>" and ?orig = "n_closedir (pr_next P) dirp"
  obtain r1 s1 where h: "host ?orig ?st = (r1, s1)" by fastforce
  have "memory_ready P fs ?st" using ready by simp
  note h1 = memory_ready_host [OF this h]
  show ?thesis
  proof (cases "hk_dirs st dirp")
    case None
    then show ?thesis using run h h1 streams by (auto simp: hook_closedir_def hook_def closedir_body_def)
  next
    case (Some m)
    obtain r2 s2 where cl: "cleanup_materialized_dir (hook_rmdir P) (hook_unlink P) m s1 = (r2, s2)"
      "memory_ready P fs s2" "kernel_of s2 = kernel_of s1" "hk_dirs s2 = hk_dirs s1"
      using memory_cleanup [OF h1(1), of m] by blast
    obtain r3 s3 where h': "host ?orig s2 = (r3, s3)" by fastforce
    note h3 = memory_ready_host [OF cl(2) h']
    show ?thesis
      using run Some h h1 cl h' h3 streams
      by (auto simp: hook_closedir_def hook_def closedir_body_def split: option.splits)
  qed
qed

text \<open>C35: When the clean-up calls the hooks, nothing is cleaned up in memory mode: after a directory was opened
  and closed again, the temporary directory that \<open>opendir\<close> made is still on the host, and the
  process no longer knows of it.\<close>

theorem closedir_leaks:
  assumes mode: "memory_mode P" and before: "c_runs P cs (process_start k) = (Done rs, st)" "hk_static st \<noteq> Uninit"
    and laws: "dir_laws (pr_kernel P) T" "\<And>c k. T (snd (n_opendir (pr_next P) c k)) = T k"
      "\<And>d k. T (snd (n_closedir (pr_next P) d k)) = T k"
    and opened: "hook_opendir P (hook_rmdir P) (hook_unlink P) name st = (dirp, st1)"
      "hk_dirs st dirp = None" "hk_dirs st1 dirp = Some m"
    and closed: "hook_closedir P (hook_rmdir P) (hook_unlink P) dirp st1 = (r, st2)"
  shows "T (kern (vfs_backend (hk_vfs st))) (md_path m) = None \<and> T (kern (vfs_backend (hk_vfs st2))) (md_path m) \<noteq> None \<and>
     hk_dirs st2 dirp = None"
proof -
  obtain fs where "memory_ready P fs st" using memory_ready_run [OF mode before] .
  note o = memory_opendir [OF laws(1,2) this opened]
  show ?thesis using memory_closedir [OF laws(3) conjunct1 [OF o] closed] o by simp
qed

text \<open>The process of \<open>dir_kernel\<close> opens and closes its root, which has the directory \<open>/d\<close>.\<close>

definition listed :: "(string \<times> vfs_entry_kind) list hook_state" where
  "listed = snd (c_runs dir_process [CMkdir ''/d'' 0x1ED] (process_start [(''/tmp'', DirKind)]))"

definition opened_dir :: "(string \<times> vfs_entry_kind) list hook_state" where
  "opened_dir = snd (hook_opendir dir_process (hook_rmdir dir_process) (hook_unlink dir_process) ''/'' listed)"

definition closed_dir :: "(string \<times> vfs_entry_kind) list hook_state" where
  "closed_dir = snd (hook_closedir dir_process (hook_rmdir dir_process) (hook_unlink dir_process) 1 opened_dir)"

theorem closedir_leaks_witness:
  "kern (vfs_backend (hk_vfs listed)) = [(''/tmp'', DirKind)] \<and>
   map_of (kern (vfs_backend (hk_vfs closed_dir))) ''/tmp/sandbox-vfs-opendir-42-0'' \<noteq> None \<and> hk_dirs closed_dir 1 = None"
proof -
  have run: "c_runs dir_process [CMkdir ''/d'' 0x1ED] (process_start [(''/tmp'', DirKind)]) = (Done [0], listed)"
    "hook_opendir dir_process (hook_rmdir dir_process) (hook_unlink dir_process) ''/'' listed = (1, opened_dir)"
    "hook_closedir dir_process (hook_rmdir dir_process) (hook_unlink dir_process) 1 opened_dir = (0, closed_dir)"
    by (rule prod_eqI, code_simp, simp add: listed_def opened_dir_def closed_dir_def)+
  have start: "kern (vfs_backend (hk_vfs listed)) = [(''/tmp'', DirKind)]" "hk_dirs listed 1 = None"
    "(case hk_static listed of Uninit \<Rightarrow> False | _ \<Rightarrow> True)" by code_simp+
  have "map_option md_path (hk_dirs opened_dir 1) = Some ''/tmp/sandbox-vfs-opendir-42-0''" by code_simp
  then obtain m where m: "hk_dirs opened_dir 1 = Some m" "md_path m = ''/tmp/sandbox-vfs-opendir-42-0''" by auto
  have mode: "memory_mode dir_process" by (simp add: memory_mode_def dir_process_def env_var_def)
  have ready: "hk_static listed \<noteq> Uninit" using start(3) by auto
  have laws: "dir_laws (pr_kernel dir_process) map_of" using dir_kernel_laws by (simp add: dir_process_def)
  have "map_of (snd (n_opendir (pr_next dir_process) c k)) = map_of k" "map_of (snd (n_closedir (pr_next dir_process) d k)) = map_of k"
    for c d k by (simp_all add: dir_process_def)
  from closedir_leaks [OF mode run(1) ready laws this run(2) start(2) m(1) run(3)] show ?thesis
    using m(2) start(1) by simp
qed

end
