(* ===== verification/Backing.thy ===== *)
theory Backing
  imports Confine
begin

text \<open>
  The kernel's descriptors behind the nodes of the in-memory file systems, with the destructor
  \<open>impl Drop for Node\<close> of \<open>src/src/impls/memory.rs\<close>, which closes the backing descriptor of a node
  when the last reference (\<open>Arc\<close>) to it goes. References are held by the node maps and by the opened
  files; a call that ends with fewer of them drops the nodes that lost the last. The destructor's
  \<open>libc::close\<close> is the kernel's here, as in a build without the hooks; \<open>NodeDrop\<close> has the other case.
  The kernel is any whose calls keep track of an abstract set of open descriptors (\<open>fd_laws\<close>).
\<close>

section \<open>Calls and references\<close>

datatype mem_call =
    MAccess memory_fs path int
  | MOpen memory_fs path flags mode_t
  | MOpenHandle memory_fs path flags mode_t
  | MMkdir memory_fs path mode_t
  | MUnlink memory_fs path
  | MRmdir memory_fs path
  | MRename memory_fs path path
  | MChmod memory_fs path mode_t
  | MStat memory_fs path stat_buf
  | HStat opened_file stat_buf
  | HOpen opened_file path flags mode_t
  | HMkdir opened_file path mode_t

text \<open>One call: the descriptor it gives to the caller (or -1) and the opened file.\<close>

fun mem_run :: "'k kernel \<Rightarrow> mem_call \<Rightarrow> ('k world, fd \<times> opened_file option) io" where
  "mem_run K (MAccess fs p md) w = do { (_, w) \<leftarrow> mem_access fs p md w; Done ((-1, None), w) }"
| "mem_run K (MOpen fs p fl mo) w = do { (fd, w) \<leftarrow> mem_open K fs p fl mo w; Done ((fd, None), w) }"
| "mem_run K (MOpenHandle fs p fl mo) w =
     do { (z, w) \<leftarrow> mem_open_with_handle K fs p fl mo w; Done ((or_fd z, or_opened z), w) }"
| "mem_run K (MMkdir fs p mo) w = do { (_, w) \<leftarrow> mem_mkdir K fs p mo w; Done ((-1, None), w) }"
| "mem_run K (MUnlink fs p) w = do { (_, w) \<leftarrow> mem_unlink fs p w; Done ((-1, None), w) }"
| "mem_run K (MRmdir fs p) w = do { (_, w) \<leftarrow> mem_rmdir fs p w; Done ((-1, None), w) }"
| "mem_run K (MRename fs p q) w = do { (_, w) \<leftarrow> mem_rename fs p q w; Done ((-1, None), w) }"
| "mem_run K (MChmod fs p mo) w = do { (_, w) \<leftarrow> mem_chmod K fs p mo w; Done ((-1, None), w) }"
| "mem_run K (MStat fs p sb) w = do { (_, w) \<leftarrow> mem_stat K fs p sb w; Done ((-1, None), w) }"
| "mem_run K (HStat h sb) w = Done ((-1, None), snd (opened_stat K h sb w))"
| "mem_run K (HOpen h p fl mo) w =
     do { (r, w) \<leftarrow> opened_open_child K h p fl mo w;
          Done (case r of None \<Rightarrow> (-1, None) | Some z \<Rightarrow> (or_fd z, or_opened z), w) }"
| "mem_run K (HMkdir h p mo) w = Done ((-1, None), snd (opened_mkdir_child K h p mo w))"

fun call_allowed :: "memory_fs set \<Rightarrow> opened_file set \<Rightarrow> mem_call \<Rightarrow> bool" where
  "call_allowed F H (MAccess fs p md) \<longleftrightarrow> fs \<in> F \<and> is_absolute p"
| "call_allowed F H (MOpen fs p fl mo) \<longleftrightarrow> fs \<in> F \<and> is_absolute p"
| "call_allowed F H (MOpenHandle fs p fl mo) \<longleftrightarrow> fs \<in> F \<and> is_absolute p"
| "call_allowed F H (MMkdir fs p mo) \<longleftrightarrow> fs \<in> F \<and> is_absolute p"
| "call_allowed F H (MUnlink fs p) \<longleftrightarrow> fs \<in> F \<and> is_absolute p"
| "call_allowed F H (MRmdir fs p) \<longleftrightarrow> fs \<in> F \<and> is_absolute p"
| "call_allowed F H (MRename fs p q) \<longleftrightarrow> fs \<in> F \<and> is_absolute p \<and> is_absolute q"
| "call_allowed F H (MChmod fs p mo) \<longleftrightarrow> fs \<in> F \<and> is_absolute p"
| "call_allowed F H (MStat fs p sb) \<longleftrightarrow> fs \<in> F \<and> is_absolute p"
| "call_allowed F H (HStat h sb) \<longleftrightarrow> h \<in> H"
| "call_allowed F H (HOpen h p fl mo) \<longleftrightarrow> h \<in> H"
| "call_allowed F H (HMkdir h p mo) \<longleftrightarrow> h \<in> H"

fun handle_node :: "opened_file \<Rightarrow> node_id" where
  "handle_node (MemoryOpenedFile n m) = n"

text \<open>Some \<open>Arc\<close> of the node is left.\<close>

definition node_referenced :: "'k world \<Rightarrow> opened_file list \<Rightarrow> node_id \<Rightarrow> bool" where
  "node_referenced w H n \<longleftrightarrow> (\<exists>m \<in> set [0..<next_node_id w]. n \<in> node_maps w m) \<or> n \<in> set (map handle_node H)"

text \<open>The destructor of a node, and of all nodes that lost their last reference.\<close>

definition drop_node :: "'k kernel \<Rightarrow> node_id \<Rightarrow> 'k world \<Rightarrow> 'k world" where
  "drop_node K n w = w\<lparr>kern := snd (k_close K (node_backing_fd (heap w n)) (kern w))\<rparr>"

definition released :: "'k world \<Rightarrow> opened_file list \<Rightarrow> 'k world \<Rightarrow> opened_file list \<Rightarrow> node_id list" where
  "released w H w' H' = filter (\<lambda>n. node_referenced w H n \<and> \<not> node_referenced w' H' n) [0..<next_node_id w']"

definition drop_released :: "'k kernel \<Rightarrow> 'k world \<Rightarrow> opened_file list \<Rightarrow> 'k world \<Rightarrow> opened_file list \<Rightarrow> 'k world" where
  "drop_released K w H w' H' = fold (drop_node K) (released w H w' H') w'"

section \<open>A process over the file systems\<close>

text \<open>The opened files it holds, with multiplicity, and its own descriptors.\<close>

record 'k fd_state =
  ds_world :: "'k world"
  ds_fs :: "memory_fs list"
  ds_handles :: "opened_file list"
  ds_fds :: "fd set"

datatype event = New string | Call mem_call | DropHandle opened_file | CloseFd fd

fun run_event :: "'k kernel \<Rightarrow> event \<Rightarrow> 'k fd_state \<Rightarrow> 'k fd_state outcome" where
  "run_event K (New name) s =
     (let (fs, w) = memory_fs_new K name (ds_world s) in Done (s\<lparr>ds_world := w, ds_fs := fs # ds_fs s\<rparr>))"
| "run_event K (Call c) s =
     (if call_allowed (set (ds_fs s)) (set (ds_handles s)) c
      then do { ((fd, h), w) \<leftarrow> mem_run K c (ds_world s);
                let H = (case h of None \<Rightarrow> ds_handles s | Some h \<Rightarrow> h # ds_handles s);
                Done (s\<lparr>ds_world := drop_released K (ds_world s) (ds_handles s) w H, ds_handles := H,
                        ds_fds := (if 0 \<le> fd then insert fd (ds_fds s) else ds_fds s)\<rparr>) }
      else Panic)"
| "run_event K (DropHandle h) s =
     (if h \<in> set (ds_handles s)
      then (let H = remove1 h (ds_handles s)
            in Done (s\<lparr>ds_world := drop_released K (ds_world s) (ds_handles s) (ds_world s) H, ds_handles := H\<rparr>))
      else Panic)"
| "run_event K (CloseFd fd) s =
     (if fd \<in> ds_fds s
      then Done (s\<lparr>ds_world := (ds_world s)\<lparr>kern := snd (k_close K fd (kern (ds_world s)))\<rparr>, ds_fds := ds_fds s - {fd}\<rparr>)
      else Panic)"

fun run_events :: "'k kernel \<Rightarrow> event list \<Rightarrow> 'k fd_state \<Rightarrow> 'k fd_state outcome" where
  "run_events K [] s = Done s"
| "run_events K (e # es) s = do { s \<leftarrow> run_event K e s; run_events K es s }"

definition fd_start :: "'k \<Rightarrow> fd set \<Rightarrow> 'k fd_state" where
  "fd_start k P = \<lparr>ds_world = boot k, ds_fs = [], ds_handles = [], ds_fds = P\<rparr>"

section \<open>The kernel's descriptors\<close>

definition opens :: "('k \<Rightarrow> fd set) \<Rightarrow> 'k \<Rightarrow> fd \<Rightarrow> 'k \<Rightarrow> bool" where
  "opens Op k fd k' \<longleftrightarrow> (if 0 \<le> fd then fd \<notin> Op k \<and> Op k' = insert fd (Op k) else Op k' = Op k)"

definition fd_laws :: "'k kernel \<Rightarrow> ('k \<Rightarrow> fd set) \<Rightarrow> bool" where
  "fd_laws K Op \<longleftrightarrow>
     (\<forall>k name. opens Op k (fst (k_memfd_create K name k)) (snd (k_memfd_create K name k))) \<and>
     (\<forall>k d p fl mo. opens Op k (fst (k_sys_openat K d p fl mo k)) (snd (k_sys_openat K d p fl mo k))) \<and>
     (\<forall>k fd sb. Op (snd (k_fstat K fd sb k)) = Op k) \<and>
     (\<forall>k fd mo. Op (snd (k_fchmod K fd mo k)) = Op k) \<and>
     (\<forall>k fd. Op (snd (k_close K fd k)) = Op k - {fd})"

lemma fd_lawsD:
  assumes "fd_laws K Op"
  shows "opens Op k (fst (k_memfd_create K name k)) (snd (k_memfd_create K name k))"
    "opens Op k (fst (k_sys_openat K d p fl mo k)) (snd (k_sys_openat K d p fl mo k))"
    "Op (snd (k_fstat K fd sb k)) = Op k" "Op (snd (k_fchmod K fd mo' k)) = Op k"
    "Op (snd (k_close K fd k)) = Op k - {fd}"
  using assms unfolding fd_laws_def by simp_all

text \<open>A call that gives the caller \<open>fd\<close>: at most one node is new, and it is in a node map.\<close>

definition fd_step :: "('k \<Rightarrow> fd set) \<Rightarrow> 'k world \<Rightarrow> fd \<Rightarrow> 'k world \<Rightarrow> bool" where
  "fd_step Op w fd w' \<longleftrightarrow>
     (\<exists>N. N \<subseteq> {next_node_id w} \<and> (\<forall>n \<in> N. \<exists>r. n \<in> node_maps w' r) \<and> (\<forall>r. node_maps w' r \<subseteq> node_maps w r \<union> N) \<and>
        (\<forall>n \<in> N. 0 \<le> node_backing_fd (heap w' n) \<and> node_backing_fd (heap w' n) \<notin> Op (kern w)) \<and>
        (0 \<le> fd \<longrightarrow> fd \<notin> Op (kern w) \<union> (\<lambda>n. node_backing_fd (heap w' n)) ` N) \<and>
        Op (kern w') = Op (kern w) \<union> (\<lambda>n. node_backing_fd (heap w' n)) ` N \<union> (if 0 \<le> fd then {fd} else {}))"

lemma fd_step_plain:
  "(\<And>r. node_maps w' r \<subseteq> node_maps w r) \<Longrightarrow> Op (kern w') = Op (kern w) \<Longrightarrow> fd_step Op w (-1) w'"
  unfolding fd_step_def by (rule exI [of _ "{}"]) simp

lemma fd_step_create:
  assumes laws: "fd_laws K Op" and p: "p < next_node_id w"
    and run: "create_node_in_dir K p m x kind mode w = (r, w')"
  shows "fd_step Op w (-1) w'"
proof (cases "is_directory (heap w p) \<and> child w p x = None")
  case False
  then have "w' = w" using run create_node_in_dir_file create_node_in_dir_exists by fastforce
  then show ?thesis by (simp add: fd_step_plain)
next
  case True
  let ?fd = "fst (k_memfd_create K (memfd_name kind) (kern w))" and ?k = "snd (k_memfd_create K (memfd_name kind) (kern w))"
  have o: "opens Op (kern w) ?fd ?k" by (rule fd_lawsD(1) [OF laws])
  show ?thesis
  proof (cases "memfd_ok K kind w")
    case False
    then have "w' = w\<lparr>next_node_id := next_node_id w + 1, kern := ?k\<rparr>"
      using run True create_node_in_dir_fail [of w p x K kind m mode] by simp
    then show ?thesis using o False by (intro fd_step_plain) (simp_all add: opens_def memfd_ok_def)
  next
    case ok: True
    then have w': "w' = add_node K p m x kind mode w"
      using run True p create_node_in_dir_ok [of w p x K kind m mode] by simp
    have "node_backing_fd (heap w' (next_node_id w)) = ?fd" using p by (simp add: w' add_node_def mem_simps)
    then show ?thesis
      unfolding fd_step_def using o ok
      by (intro exI [of _ "{next_node_id w}"])
         (auto simp: w' add_node_def mem_simps opens_def memfd_ok_def split: if_splits)
  qed
qed

lemma fd_step_open:
  assumes laws: "fd_laws K Op" and step: "fd_step Op w (-1) w1" and run: "open_backing K b fl w1 = (fd, w')"
  shows "fd_step Op w fd w'"
proof -
  have o: "opens Op (kern w1) fd (kern w')" "node_maps w' = node_maps w1" "heap w' = heap w1"
    using run fd_lawsD(2) [OF laws, of "kern w1" AT_FDCWD "''/proc/self/fd/'' @ show_int b"
        "fl AND NOT (O_CREAT OR O_EXCL OR O_NOFOLLOW OR O_DIRECTORY)" 0]
    by (auto simp: open_backing_def Let_def split: prod.splits)
  obtain N where N: "N \<subseteq> {next_node_id w}" "\<forall>n \<in> N. \<exists>r. n \<in> node_maps w1 r" "\<forall>r. node_maps w1 r \<subseteq> node_maps w r \<union> N"
    "\<forall>n \<in> N. 0 \<le> node_backing_fd (heap w1 n) \<and> node_backing_fd (heap w1 n) \<notin> Op (kern w)"
    "Op (kern w1) = Op (kern w) \<union> (\<lambda>n. node_backing_fd (heap w1 n)) ` N"
    using step unfolding fd_step_def by auto
  then show ?thesis
    unfolding fd_step_def using o by (intro exI [of _ N]) (auto simp: opens_def split: if_splits)
qed

text \<open>A node that is opened existed before or is in a node map.\<close>

lemma fd_step_resolved:
  assumes laws: "fd_laws K Op"
    and create: "\<And>r w1. create w = Done (r, w1) \<Longrightarrow> fd_step Op w (-1) w1 \<and> (\<forall>i. r = Some i \<longrightarrow> i \<in> node_maps w1 m)"
    and run: "open_resolved_node K existing create fl w = Done ((fd, n), w')"
  shows "fd_step Op w fd w' \<and> (\<forall>a. n = Some a \<longrightarrow> existing = Some a \<or> a \<in> node_maps w' m)"
proof (cases "existing \<noteq> None \<and> fl AND (O_CREAT OR O_EXCL) = (O_CREAT OR O_EXCL)")
  case True
  then show ?thesis using run by (auto simp: open_resolved_node_def fd_step_plain)
next
  case False
  obtain node w1 where node: "(case existing of Some node \<Rightarrow> Done (Some node, w)
        | None \<Rightarrow> if fl AND O_CREAT \<noteq> 0 then create w else Done (None, w)) = Done (node, w1)"
    and fin: "((fd, n), w') = (case node of None \<Rightarrow> ((-1, None), w1) | Some node \<Rightarrow>
        if fl AND O_DIRECTORY \<noteq> 0 \<and> \<not> is_directory (heap w1 node) then ((-1, None), w1)
        else (let (fd, w) = open_backing K (node_backing_fd (heap w1 node)) fl w1
              in if fd < 0 then ((fd, None), w) else ((fd, Some node), w)))"
    using run unfolding open_resolved_node_def if_not_P [OF False] by (auto simp: bind_eq_Some_conv)
  have 1: "fd_step Op w (-1) w1" "\<forall>a. node = Some a \<longrightarrow> existing = Some a \<or> a \<in> node_maps w1 m"
    using node create by (auto simp: fd_step_plain split: option.splits if_splits)
  show ?thesis
  proof (cases "node = None \<or> (fl AND O_DIRECTORY \<noteq> 0 \<and> \<not> is_directory (heap w1 (the node)))")
    case True
    then have "fd = -1" "n = None" "w' = w1" using fin by (auto split: option.splits)
    then show ?thesis using 1 by simp
  next
    case False
    then obtain a where a: "node = Some a" by auto
    obtain fd' w2 where o: "open_backing K (node_backing_fd (heap w1 a)) fl w1 = (fd', w2)" by fastforce
    then have "fd = fd'" "w' = w2" "n = None \<or> n = node" using fin False a by (auto split: if_splits)
    then show ?thesis
      using fd_step_open [OF laws 1(1) o] 1(2) same_tree_maps [OF open_backing_same [OF o]] by auto
  qed
qed

lemma evolves_maps:
  assumes "world_inv w" "world_inv w'" "evolves w w'" "next_node_id w' = next_node_id w"
  shows "node_maps w' r \<subseteq> node_maps w r"
proof
  fix a assume a: "a \<in> node_maps w' r"
  then have "a < next_node_id w'" using world_inv_in [OF assms(2)] by (auto simp: node_ok_def)
  then show "a \<in> node_maps w r" using a assms(3,4) unfolding evolves_def by auto
qed

lemma removed_next: "remove_node_at p m root kind w = Done (r, w') \<Longrightarrow> next_node_id w' = next_node_id w"
proof -
  have "case remove_node_at p m root kind w of None \<Rightarrow> True | Some x \<Rightarrow> next_node_id (snd x) = next_node_id w"
    by (simp add: remove_node_at_def Let_def mem_simps split: bind_split option.split node_kind.split)
  then show "remove_node_at p m root kind w = Done (r, w') \<Longrightarrow> next_node_id w' = next_node_id w" by simp
qed

lemma renamed_next: "rename_node_at p q m root w = Done (r, w') \<Longrightarrow> next_node_id w' = next_node_id w"
proof -
  have a: "next_node_id (snd (rename_in_dir p q d es x y m w)) = next_node_id w" for d es x y
    by (simp add: rename_in_dir_def Let_def mem_simps split: option.split)
  have b: "next_node_id (snd (rename_between p q d es x d' es' y m w)) = next_node_id w" for d es x d' es' y
    by (simp add: rename_between_def Let_def mem_simps split: option.split)
  have "case rename_node_at p q m root w of None \<Rightarrow> True | Some x \<Rightarrow> next_node_id (snd x) = next_node_id w"
    using a b by (auto simp: rename_node_at_def split: bind_split option.split node_kind.split) (metis snd_conv)+
  then show "rename_node_at p q m root w = Done (r, w') \<Longrightarrow> next_node_id w' = next_node_id w" by simp
qed

lemma fd_step_create_node:
  assumes laws: "fd_laws K Op" and w: "world_inv w" "live w fs" "is_absolute p"
    and run: "create_node K fs p kind mode w = Done (r, w')"
  shows "fd_step Op w (-1) w' \<and> (\<forall>i. r = Some i \<longrightarrow> i \<in> node_maps w' (mem_nodes fs))"
proof -
  have "fd_step Op w (-1) w'"
  proof (cases "\<exists>x d. file_name p = Some x \<and> view w fs (names_of (butlast p)) = Some d")
    case False
    then have "create_node K fs p kind mode w = Done (None, w)"
      by (auto simp: create_node_names [OF w] split: option.splits)
    then show ?thesis using run by (simp add: fd_step_plain)
  next
    case True
    then obtain x d where xd: "file_name p = Some x" "view w fs (names_of (butlast p)) = Some d" by blast
    then have "create_node_in_dir K d (mem_nodes fs) x kind mode w = (r, w')" using run by (simp add: create_node_names [OF w])
    moreover have "d < next_node_id w"
      using world_inv_in [OF w(1) view_in [OF w(1,2) xd(2)]] by (simp add: node_ok_def)
    ultimately show ?thesis using fd_step_create [OF laws] by blast
  qed
  then show ?thesis using create_node_step [OF w, of K kind mode] run by auto
qed

lemma fd_step_create_relative:
  assumes laws: "fd_laws K Op" and w: "world_inv w" "handle_ok w (MemoryOpenedFile n m)"
    and run: "create_relative_node K n m p kind mode w = (r, w')"
  shows "fd_step Op w (-1) w' \<and> (\<forall>i. r = Some i \<longrightarrow> i \<in> node_maps w' m)"
proof -
  have "fd_step Op w (-1) w'"
  proof (cases "can_resolve_relative_to_opened_node p \<and>
      (\<exists>pp x d. parent_path p = Some pp \<and> file_name p = Some x \<and> resolve_relative n m pp w = Some d)")
    case False
    then have "create_relative_node K n m p kind mode w = (None, w)"
      by (auto simp: create_relative_node_def split: option.splits bind_splits)
    then show ?thesis using run by (simp add: fd_step_plain)
  next
    case True
    then obtain pp x d where d: "can_resolve_relative_to_opened_node p" "parent_path p = Some pp" "file_name p = Some x"
      "resolve_relative n m pp w = Some d" by blast
    then have "create_node_in_dir K d m x kind mode w = (r, w')" using run by (simp add: create_relative_node_def)
    moreover have "d < next_node_id w" using resolve_relative_handle [OF w d(4)] by simp
    ultimately show ?thesis using fd_step_create [OF laws] by blast
  qed
  then show ?thesis using create_relative_step [OF w, of K p kind mode] run by auto
qed

lemma walk_relative_in: "walk_relative w m cs n = Some a \<Longrightarrow> a = n \<or> a \<in> node_maps w m"
proof (induction w m cs n rule: walk_relative.induct)
  case (3 w m name cs n)
  then show ?case by (force simp: bind_eq_Some_conv node_from_map_def split: node_kind.splits if_splits)
next
  case (4 w m cs n)
  then show ?case by (force simp: bind_eq_Some_conv node_from_map_def split: if_splits)
qed auto

lemma fd_step_open_node:
  assumes laws: "fd_laws K Op" and w: "world_inv w" "live w fs" "is_absolute p"
    and run: "open_node K fs p fl mode w = Done ((fd, n), w')"
  shows "fd_step Op w fd w' \<and> (\<forall>a. n = Some a \<longrightarrow> (\<exists>r. a \<in> node_maps w r \<or> a \<in> node_maps w' r))"
proof -
  have "open_resolved_node K (view w fs (names_of p)) (create_node K fs p FileKind mode) fl w = Done ((fd, n), w')"
    using run w(3) by (simp add: open_node_def resolve_view [OF w])
  from fd_step_resolved [OF laws _ this, of "mem_nodes fs"] fd_step_create_node [OF laws w] have
    "fd_step Op w fd w' \<and> (\<forall>a. n = Some a \<longrightarrow> view w fs (names_of p) = Some a \<or> a \<in> node_maps w' (mem_nodes fs))" by blast
  then show ?thesis using view_in [OF w(1,2)] by blast
qed

lemma mem_run_step:
  assumes ok: "call_allowed F H c" and run: "mem_run K c w = Done ((fd, h), w')"
  shows "mem_step K (w, F, H) (w', F, H \<union> set_option h)"
proof (cases c)
  case (HStat g sb)
  then show ?thesis
    using ok run mem_step.handle_stat [of g H K sb w "fst (opened_stat K g sb w)" w' F] by (auto simp: prod_eq_iff)
next
  case (HOpen g p fl mo)
  then obtain z where z: "opened_open_child K g p fl mo w = Done (z, w')" "h = (case z of None \<Rightarrow> None | Some z \<Rightarrow> or_opened z)"
    using run by (cases "opened_open_child K g p fl mo w") (auto split: option.splits)
  then have "h = Option.bind z or_opened" by (cases z) simp_all
  with z(1) show ?thesis using ok HOpen mem_step.handle_open by auto
next
  case (HMkdir g p mo)
  then show ?thesis
    using ok run mem_step.handle_mkdir [of g H K p mo w "fst (opened_mkdir_child K g p mo w)" w' F]
    by (auto simp: prod_eq_iff)
qed (use ok run in \<open>auto simp: bind_eq_Some_conv intro: mem_step.intros\<close>)

lemma stat_node_fds:
  assumes laws: "fd_laws K Op" and run: "stat_node K a m sb w = (r, w')"
  shows "fd_step Op w (-1) w'"
proof (rule fd_step_plain)
  show "node_maps w' r \<subseteq> node_maps w r" for r using same_tree_maps [OF conjunct1 [OF stat_node_world [OF run]]] by simp
  show "Op (kern w') = Op (kern w)"
    using run fd_lawsD(3) [OF laws, of _ _ "kern w"]
    by (auto simp: stat_node_def Let_def split: prod.splits node_kind.splits) (metis snd_conv)+
qed

lemma fd_step_chmod:
  assumes laws: "fd_laws K Op" and w: "world_inv w" "live w fs" "is_absolute p" and run: "mem_chmod K fs p mo w = Done (r, w')"
  shows "fd_step Op w (-1) w'"
proof (rule fd_step_plain)
  show "node_maps w' m \<subseteq> node_maps w m" for m using chmod_step [OF w, of K mo] run same_tree_maps by fastforce
  have "case mem_chmod K fs p mo w of None \<Rightarrow> True | Some x \<Rightarrow> Op (kern (snd x)) = Op (kern w)"
    by (simp add: mem_chmod_def Let_def fd_lawsD(4) [OF laws] mem_simps split: bind_split option.split node_kind.split)
  then show "Op (kern w') = Op (kern w)" using run by simp
qed

lemma fd_step_open_child:
  assumes laws: "fd_laws K Op" and w: "world_inv w" and h: "handle_ok w (MemoryOpenedFile n m)"
    and run: "opened_open_child K (MemoryOpenedFile n m) p fl mo w = Done (z, w')"
  shows "fd_step Op w (case z of None \<Rightarrow> -1 | Some y \<Rightarrow> or_fd y) w' \<and>
     (\<forall>y g. z = Some y \<longrightarrow> or_opened y = Some g \<longrightarrow>
        handle_node g = n \<or> handle_node g \<in> node_maps w m \<or> handle_node g \<in> node_maps w' m)"
proof (cases "can_resolve_relative_to_opened_node p")
  case False
  then have "z = None" "w' = w" using run by (auto simp: open_node_relative_def)
  then show ?thesis by (simp add: fd_step_plain)
next
  case True
  then obtain fd a where o: "open_resolved_node K (resolve_relative n m p w)
      (\<lambda>w. Done (create_relative_node K n m p FileKind mo w)) fl w = Done ((fd, a), w')"
    "z = Some \<lparr>or_fd = fd, or_opened = map_option (\<lambda>n. MemoryOpenedFile n m) a\<rparr>"
    using run by (auto simp: open_node_relative_def bind_eq_Some_conv)
  have "fd_step Op w fd w' \<and> (\<forall>i. a = Some i \<longrightarrow> resolve_relative n m p w = Some i \<or> i \<in> node_maps w' m)"
    by (rule fd_step_resolved [OF laws _ o(1)]) (use fd_step_create_relative [OF laws w h] in simp)
  moreover have "i = n \<or> i \<in> node_maps w m" if "resolve_relative n m p w = Some i" for i
    using that True walk_relative_in [of w m p n i] by (auto simp: resolve_relative_def)
  ultimately show ?thesis using o(2) by auto
qed

lemma fd_step_mkdir_child:
  assumes laws: "fd_laws K Op" and w: "world_inv w" and h: "handle_ok w (MemoryOpenedFile n m)"
  shows "fd_step Op w (-1) (snd (opened_mkdir_child K (MemoryOpenedFile n m) p mo w))"
proof (cases "can_resolve_relative_to_opened_node p")
  case True
  obtain r w' where run: "create_relative_node K n m p DirKind mo w = (r, w')" by fastforce
  from fd_step_create_relative [OF laws w h this] show ?thesis using True run by simp
qed (simp add: fd_step_plain)

text \<open>What every call does to the descriptors: first the calls that return no descriptor.\<close>

lemma mem_run_removal_fds:
  assumes ok: "all_ok w F (set H)" and c: "call_allowed F (set H) c" and run: "mem_run K c w = Done ((fd, h), w')"
    and kind: "c = MUnlink fs p \<or> c = MRmdir fs p \<or> c = MRename fs p q"
  shows "fd_step Op w (-1) w' \<and> fd = -1 \<and> h = None"
proof -
  have w: "world_inv w" "world_inv w'" "evolves w w'" using mem_step_ok [OF mem_run_step [OF c run] ok] ok by (auto simp: all_ok_def)
  have "next_node_id w' = next_node_id w \<and> kern w' = kern w \<and> fd = -1 \<and> h = None"
    using kind run by (auto simp: mem_unlink_def mem_rmdir_def mem_rename_def bind_eq_Some_conv
        dest: removed_next renamed_next host_remove host_rename)
  then show ?thesis using fd_step_plain [OF evolves_maps [OF w]] by simp
qed

lemma mem_run_stat_fds:
  assumes laws: "fd_laws K Op" and ok: "all_ok w F (set H)" and c: "call_allowed F (set H) c"
    and run: "mem_run K c w = Done ((fd, h), w')" and kind: "c = MAccess fs p md \<or> c = MStat fs p sb \<or> c = HStat g sb"
  shows "fd_step Op w (-1) w' \<and> fd = -1 \<and> h = None"
proof -
  have w: "world_inv w" using ok by (simp add: all_ok_def)
  have lv: "live w fs" if "fs \<in> F" for fs using ok that by (simp add: all_ok_def)
  have "(w' = w \<or> (\<exists>a m r. stat_node K a m sb w = (r, w'))) \<and> fd = -1 \<and> h = None"
  proof (cases "c = HStat g sb")
    case True
    then show ?thesis using run by (cases g) (auto simp: prod_eq_iff)
  next
    case False
    then show ?thesis using kind c run resolve_view [OF w lv]
      by (auto simp: mem_access_def mem_stat_def bind_eq_Some_conv split: option.splits prod.splits)
  qed
  then show ?thesis using stat_node_fds [OF laws] fd_step_plain [of w w] by blast
qed

lemma mem_run_create_fds:
  assumes laws: "fd_laws K Op" and ok: "all_ok w F (set H)" and c: "call_allowed F (set H) c"
    and run: "mem_run K c w = Done ((fd, h), w')" and kind: "c = MMkdir fs p mo \<or> c = MChmod fs p mo \<or> c = HMkdir g p mo"
  shows "fd_step Op w (-1) w' \<and> fd = -1 \<and> h = None"
proof -
  have w: "world_inv w" using ok by (simp add: all_ok_def)
  have lv: "live w fs" if "fs \<in> F" for fs using ok that by (simp add: all_ok_def)
  have hok: "handle_ok w g" if "g \<in> set H" for g using ok that by (simp add: all_ok_def)
  from kind consider "c = MMkdir fs p mo" | "c = MChmod fs p mo" | n m where "c = HMkdir (MemoryOpenedFile n m) p mo" "g = MemoryOpenedFile n m"
    by (metis opened_file.exhaust)
  then show ?thesis
  proof cases
    case 1
    then obtain r where "create_node K fs p DirKind mo w = Done (r, w')" "fd = -1" "h = None"
      using run by (auto simp: mem_mkdir_def bind_eq_Some_conv)
    then show ?thesis using fd_step_create_node [OF laws w lv] c 1 by auto
  next
    case 2
    then obtain r where "mem_chmod K fs p mo w = Done (r, w')" "fd = -1" "h = None" using run by (auto simp: bind_eq_Some_conv)
    then show ?thesis using fd_step_chmod [OF laws w lv] c 2 by auto
  next
    case 3
    then have "fd = -1" "h = None" "w' = snd (opened_mkdir_child K (MemoryOpenedFile n m) p mo w)"
      using run by (simp_all del: opened_mkdir_child.simps)
    then show ?thesis using fd_step_mkdir_child [OF laws w, of n m p mo] hok [of g] c 3 by simp
  qed
qed

text \<open>Then the opens.\<close>

lemma mem_run_open_fds:
  assumes laws: "fd_laws K Op" and ok: "all_ok w F (set H)" and c: "call_allowed F (set H) c"
    and run: "mem_run K c w = Done ((fd, h), w')" and kind: "c = MOpen fs p fl mo \<or> c = MOpenHandle fs p fl mo"
  shows "fd_step Op w fd w' \<and> (\<forall>g. h = Some g \<longrightarrow> (\<exists>r. handle_node g \<in> node_maps w r \<or> handle_node g \<in> node_maps w' r))"
proof -
  have w: "world_inv w" using ok by (simp add: all_ok_def)
  have lv: "live w fs" if "fs \<in> F" for fs using ok that by (simp add: all_ok_def)
  obtain n where "open_node K fs p fl mo w = Done ((fd, n), w')" "h = None \<or> h = map_option (\<lambda>n. MemoryOpenedFile n (mem_nodes fs)) n"
    using run kind by (auto simp: mem_open_def mem_open_with_handle_def bind_eq_Some_conv)
  then show ?thesis using fd_step_open_node [OF laws w lv] c kind by auto
qed

lemma mem_run_open_child_fds:
  assumes laws: "fd_laws K Op" and ok: "all_ok w F (set H)" and c: "call_allowed F (set H) (HOpen g p fl mo)"
    and run: "mem_run K (HOpen g p fl mo) w = Done ((fd, h), w')"
  shows "fd_step Op w fd w' \<and>
     (\<forall>g'. h = Some g' \<longrightarrow> (\<exists>r. handle_node g' \<in> node_maps w r \<or> handle_node g' \<in> node_maps w' r) \<or> handle_node g' = handle_node g)"
proof -
  obtain n m where g: "g = MemoryOpenedFile n m" by (cases g) simp
  have w: "world_inv w" and hok: "handle_ok w (MemoryOpenedFile n m)" using ok c unfolding g all_ok_def by auto
  obtain z where z: "opened_open_child K (MemoryOpenedFile n m) p fl mo w = Done (z, w')"
    "fd = (case z of None \<Rightarrow> -1 | Some y \<Rightarrow> or_fd y)" "h = (case z of None \<Rightarrow> None | Some y \<Rightarrow> or_opened y)"
    using run unfolding g
    by (cases "opened_open_child K (MemoryOpenedFile n m) p fl mo w") (auto simp del: opened_open_child.simps split: option.splits)
  from fd_step_open_child [OF laws w hok z(1)] show ?thesis
    unfolding z(2,3) g by (cases z) (simp, fastforce)
qed

lemma mem_run_fd:
  assumes laws: "fd_laws K Op" and ok: "all_ok w F (set H)" and c: "call_allowed F (set H) c"
    and run: "mem_run K c w = Done ((fd, h), w')"
  shows "fd_step Op w fd w' \<and>
     (\<forall>g. h = Some g \<longrightarrow> (\<exists>r. handle_node g \<in> node_maps w r \<or> handle_node g \<in> node_maps w' r) \<or> handle_node g \<in> handle_node ` set H)"
proof (cases c)
  case (HOpen g p fl mo)
  then have "g \<in> set H" using c by simp
  then show ?thesis using mem_run_open_child_fds [OF laws ok, of g p fl mo fd h w'] c run HOpen by auto
qed (use mem_run_removal_fds [OF ok c run] mem_run_stat_fds [OF laws ok c run] mem_run_create_fds [OF laws ok c run]
      mem_run_open_fds [OF laws ok c run] in auto)

section \<open>The account\<close>

abbreviation backing :: "'k world \<Rightarrow> node_id \<Rightarrow> fd" where
  "backing w n \<equiv> node_backing_fd (heap w n)"

text \<open>The open descriptors are those behind the nodes in \<open>R\<close>, each behind one, and those in \<open>P\<close>.\<close>

definition balanced :: "('k \<Rightarrow> fd set) \<Rightarrow> 'k world \<Rightarrow> node_id set \<Rightarrow> fd set \<Rightarrow> bool" where
  "balanced Op w R P \<longleftrightarrow>
     inj_on (backing w) {n \<in> R. 0 \<le> backing w n} \<and> backing w ` {n \<in> R. 0 \<le> backing w n} \<inter> P = {} \<and>
     Op (kern w) = backing w ` {n \<in> R. 0 \<le> backing w n} \<union> P \<and> (\<forall>fd \<in> P. 0 \<le> fd)"

lemma referenced_iff:
  assumes "world_inv w"
  shows "node_referenced w H n \<longleftrightarrow> (\<exists>m. n \<in> node_maps w m) \<or> n \<in> handle_node ` set H"
proof -
  have "m < next_node_id w" if "n \<in> node_maps w m" for m
  proof -
    have "mem_inv w m" using world_inv_in [OF assms that] ..
    then have "m \<in> node_maps w m" by (rule mem_root_in)
    then show ?thesis using world_inv_in [OF assms] by (auto simp: node_ok_def)
  qed
  then show ?thesis by (auto simp: node_referenced_def)
qed

lemma referenced_old:
  assumes "all_ok w F (set H)" and "node_referenced w H n"
  shows "n < next_node_id w"
proof -
  have w: "world_inv w" using assms(1) by (simp add: all_ok_def)
  from assms(2) [unfolded referenced_iff [OF w]] show ?thesis
  proof
    assume "\<exists>m. n \<in> node_maps w m"
    then show ?thesis using world_inv_in [OF w] by (auto simp: node_ok_def)
  next
    assume "n \<in> handle_node ` set H"
    then obtain g where g: "g \<in> set H" "handle_node g = n" by blast
    then have "handle_ok w g" using assms(1) by (simp add: all_ok_def)
    then show ?thesis using g(2) by (cases g) simp
  qed
qed

lemma drop_node_simps [simp]:
  "heap (drop_node K n w) = heap w" "node_maps (drop_node K n w) = node_maps w" "next_node_id (drop_node K n w) = next_node_id w"
  by (simp_all add: drop_node_def)

lemma drops_simps:
  "heap (fold (drop_node K) ns w) = heap w \<and> node_maps (fold (drop_node K) ns w) = node_maps w \<and>
     next_node_id (fold (drop_node K) ns w) = next_node_id w"
  by (induction ns arbitrary: w) simp_all

lemma drops_kern:
  assumes "fd_laws K Op"
  shows "Op (kern (fold (drop_node K) ns w)) = Op (kern w) - backing w ` set ns"
  by (induction ns arbitrary: w) (auto simp: drop_node_def fd_lawsD(5) [OF assms])

lemma drops_same_tree: "same_tree w (fold (drop_node K) ns w)"
  using drops_simps [of K ns w] by (intro same_treeI) simp_all

lemma drops_referenced: "node_referenced (fold (drop_node K) ns w) H n = node_referenced w H n"
  using drops_simps [of K ns w] by (simp add: node_referenced_def)

text \<open>Dropping nodes settles the account for the others.\<close>

lemma balanced_drop:
  assumes laws: "fd_laws K Op" and bal: "balanced Op w R P" and ns: "set ns \<subseteq> R"
  shows "balanced Op (fold (drop_node K) ns w) (R - set ns) P"
proof -
  let ?w = "fold (drop_node K) ns w" and ?b = "backing w"
  have h: "heap ?w = heap w" using drops_simps by blast
  have inj: "inj_on ?b {n \<in> R. 0 \<le> ?b n}" and P: "?b ` {n \<in> R. 0 \<le> ?b n} \<inter> P = {}" "\<forall>fd \<in> P. 0 \<le> fd"
    and Op: "Op (kern w) = ?b ` {n \<in> R. 0 \<le> ?b n} \<union> P"
    using bal by (simp_all add: balanced_def)
  have "?b ` {n \<in> R. 0 \<le> ?b n} - ?b ` set ns = ?b ` {n \<in> R - set ns. 0 \<le> ?b n}"
    using inj ns unfolding inj_on_def by (auto simp: image_iff) (metis subsetD)
  moreover have "P - ?b ` set ns = P" using P ns by fastforce
  ultimately have "Op (kern ?w) = ?b ` {n \<in> R - set ns. 0 \<le> ?b n} \<union> P"
    unfolding drops_kern [OF laws] Op by blast
  moreover have "inj_on ?b {n \<in> R - set ns. 0 \<le> ?b n}" by (rule inj_on_subset [OF inj]) blast
  moreover have "?b ` {n \<in> R - set ns. 0 \<le> ?b n} \<inter> P = {}" using P(1) by blast
  ultimately show ?thesis using P(2) by (simp add: balanced_def h)
qed

lemma disjoint_image: "(\<And>n. n \<in> N \<Longrightarrow> f n \<notin> A) \<Longrightarrow> A \<inter> f ` N = {}"
  by auto

text \<open>A call opens the account of at most one node and gives the caller at most one descriptor.\<close>

lemma balanced_call:
  assumes bal: "balanced Op w R P" and step: "fd_step Op w fd w'"
    and keep: "\<And>n. n \<in> R \<Longrightarrow> n < next_node_id w \<and> backing w' n = backing w n"
  obtains N where "N \<subseteq> {next_node_id w}" "\<forall>n \<in> N. \<exists>r. n \<in> node_maps w' r" "\<forall>r. node_maps w' r \<subseteq> node_maps w r \<union> N"
    "balanced Op w' (R \<union> N) (if 0 \<le> fd then insert fd P else P)"
proof -
  obtain N where N: "N \<subseteq> {next_node_id w}" "\<forall>n \<in> N. \<exists>r. n \<in> node_maps w' r" "\<forall>r. node_maps w' r \<subseteq> node_maps w r \<union> N"
    "\<forall>n \<in> N. 0 \<le> backing w' n \<and> backing w' n \<notin> Op (kern w)"
    "0 \<le> fd \<longrightarrow> fd \<notin> Op (kern w) \<union> backing w' ` N"
    "Op (kern w') = Op (kern w) \<union> backing w' ` N \<union> (if 0 \<le> fd then {fd} else {})"
    using step unfolding fd_step_def by blast
  let ?R = "{n \<in> R. 0 \<le> backing w n}"
  have R: "{n \<in> R \<union> N. 0 \<le> backing w' n} = ?R \<union> N" using keep N(4) by auto
  have b: "backing w' ` ?R = backing w ` ?R" using keep by (intro image_cong) auto
  have Op: "Op (kern w) = backing w ` ?R \<union> P" and inj: "inj_on (backing w) ?R" and P: "backing w ` ?R \<inter> P = {}" "\<forall>fd \<in> P. 0 \<le> fd"
    using bal by (simp_all add: balanced_def)
  have "inj_on (backing w') ?R" using inj keep by (auto simp: inj_on_def)
  moreover have "inj_on (backing w') N" using N(1) by (auto simp: inj_on_def)
  moreover have "backing w' ` ?R \<inter> backing w' ` N = {}"
    by (rule disjoint_image) (use N(4) in \<open>simp add: b Op\<close>)
  ultimately have "inj_on (backing w') (?R \<union> N)" unfolding inj_on_Un by blast
  moreover have "backing w' ` (?R \<union> N) \<inter> (if 0 \<le> fd then insert fd P else P) = {}"
    using N(4,5) P(1) unfolding image_Un b Op by auto
  moreover have "Op (kern w') = backing w' ` (?R \<union> N) \<union> (if 0 \<le> fd then insert fd P else P)"
    using N(6) unfolding image_Un b Op by auto
  ultimately have "balanced Op w' (R \<union> N) (if 0 \<le> fd then insert fd P else P)"
    using P(2) unfolding balanced_def R by simp
  with N(1-3) show thesis by (rule that)
qed

definition refs :: "'k world \<Rightarrow> opened_file list \<Rightarrow> node_id set" where
  "refs w H = {n. node_referenced w H n}"

definition fd_account :: "('k \<Rightarrow> fd set) \<Rightarrow> 'k fd_state \<Rightarrow> bool" where
  "fd_account Op s \<longleftrightarrow>
     all_ok (ds_world s) (set (ds_fs s)) (set (ds_handles s)) \<and>
     balanced Op (ds_world s) (refs (ds_world s) (ds_handles s)) (ds_fds s)"

lemma all_ok_subset: "all_ok w F H \<Longrightarrow> H' \<subseteq> H \<Longrightarrow> all_ok w F H'"
  by (auto simp: all_ok_def)

lemma all_ok_same: "all_ok w F H \<Longrightarrow> same_tree w w' \<Longrightarrow> all_ok w' F H"
  using all_ok_step' [of w F H w'] good_step_same [of w w'] by (simp add: all_ok_def)

text \<open>The nodes that lose their last reference are dropped, and the account is settled.\<close>

lemma settle:
  assumes laws: "fd_laws K Op" and ok: "all_ok w F (set H)" "all_ok w' F (set H')" "next_node_id w \<le> next_node_id w'"
    and bal: "balanced Op w' (refs w H \<union> N) P" and N: "N \<subseteq> refs w' H'" and sub: "refs w' H' \<subseteq> refs w H \<union> N"
  shows "all_ok (drop_released K w H w' H') F (set H') \<and>
     balanced Op (drop_released K w H w' H') (refs (drop_released K w H w' H') H') P"
proof -
  let ?w = "drop_released K w H w' H'" and ?ns = "released w H w' H'"
  have same: "same_tree w' ?w" unfolding drop_released_def by (rule drops_same_tree)
  have "n < next_node_id w'" if "n \<in> refs w H" for n
    using referenced_old [OF ok(1), of n] that ok(3) by (simp add: refs_def)
  then have ns: "set ?ns = refs w H - refs w' H'" by (auto simp: released_def refs_def)
  then have "(refs w H \<union> N) - set ?ns = refs w' H'" using N sub by blast
  then have "balanced Op ?w (refs w' H') P"
    using balanced_drop [OF laws bal, of ?ns] ns by (simp add: drop_released_def le_supI1)
  moreover have "refs ?w H' = refs w' H'" by (simp add: refs_def drop_released_def drops_referenced)
  ultimately show ?thesis using all_ok_same [OF ok(2) same] by simp
qed

lemma account_call:
  assumes laws: "fd_laws K Op" and acc: "fd_account Op s" and run: "run_event K (Call c) s = Done s'"
  shows "fd_account Op s'"
proof -
  let ?w = "ds_world s" and ?H = "ds_handles s" and ?F = "set (ds_fs s)"
  have ok: "all_ok ?w ?F (set ?H)" and bal: "balanced Op ?w (refs ?w ?H) (ds_fds s)" using acc by (simp_all add: fd_account_def)
  have c: "call_allowed ?F (set ?H) c" using run by (auto split: if_splits)
  obtain fd h w' where r: "mem_run K c ?w = Done ((fd, h), w')"
    using run c by (auto simp: bind_eq_Some_conv)
  let ?H' = "case h of None \<Rightarrow> ?H | Some h \<Rightarrow> h # ?H"
  have s': "s' = s\<lparr>ds_world := drop_released K ?w ?H w' ?H', ds_handles := ?H',
      ds_fds := (if 0 \<le> fd then insert fd (ds_fds s) else ds_fds s)\<rparr>"
    using run c r by (simp add: Let_def)
  have H': "set ?H' = set ?H \<union> set_option h" by (cases h) auto
  have step: "all_ok w' ?F (set ?H')" "evolves ?w w'"
    using mem_step_ok [OF mem_run_step [OF c r] ok] H' by simp_all
  note fd = mem_run_fd [OF laws ok c r]
  have keep: "n < next_node_id ?w \<and> backing w' n = backing ?w n" if "n \<in> refs ?w ?H" for n
    using referenced_old [OF ok, of n] that step(2) by (auto simp: refs_def evolves_def)
  obtain N where N: "N \<subseteq> {next_node_id ?w}" "\<forall>n \<in> N. \<exists>r. n \<in> node_maps w' r" "\<forall>r. node_maps w' r \<subseteq> node_maps ?w r \<union> N"
    "balanced Op w' (refs ?w ?H \<union> N) (if 0 \<le> fd then insert fd (ds_fds s) else ds_fds s)"
    using balanced_call [OF bal conjunct1 [OF fd] keep] by blast
  have w: "world_inv ?w" "world_inv w'" using ok step(1) by (simp_all add: all_ok_def)
  have "N \<subseteq> refs w' ?H'" using N(2) by (auto simp: refs_def referenced_iff [OF w(2)])
  moreover have "refs w' ?H' \<subseteq> refs ?w ?H \<union> N"
  proof
    fix n assume "n \<in> refs w' ?H'"
    then have "(\<exists>m. n \<in> node_maps w' m) \<or> n \<in> handle_node ` set ?H \<or> (\<exists>g. h = Some g \<and> n = handle_node g)"
      using H' by (auto simp: refs_def referenced_iff [OF w(2)])
    then have "(\<exists>m. n \<in> node_maps w' m \<or> n \<in> node_maps ?w m) \<or> n \<in> handle_node ` set ?H" using conjunct2 [OF fd] by blast
    then show "n \<in> refs ?w ?H \<union> N" using N(3) by (auto simp: refs_def referenced_iff [OF w(1)])
  qed
  moreover have "next_node_id ?w \<le> next_node_id w'" using step(2) by (simp add: evolves_def)
  ultimately show ?thesis using settle [OF laws ok step(1) _ N(4)] s' by (simp add: fd_account_def)
qed

lemma account_drop:
  assumes laws: "fd_laws K Op" and acc: "fd_account Op s" and run: "run_event K (DropHandle h) s = Done s'"
  shows "fd_account Op s'"
proof -
  let ?w = "ds_world s" and ?H = "ds_handles s" and ?H' = "remove1 h (ds_handles s)"
  have ok: "all_ok ?w (set (ds_fs s)) (set ?H)" and bal: "balanced Op ?w (refs ?w ?H \<union> {}) (ds_fds s)"
    using acc by (simp_all add: fd_account_def)
  have ok': "all_ok ?w (set (ds_fs s)) (set ?H')" using all_ok_subset [OF ok] by (simp add: set_remove1_subset)
  have "refs ?w ?H' \<subseteq> refs ?w ?H \<union> {}" using notin_set_remove1 by (fastforce simp: refs_def node_referenced_def)
  then show ?thesis
    using settle [OF laws ok ok' _ bal] run by (auto simp: fd_account_def Let_def split: if_splits)
qed

lemma account_close:
  assumes laws: "fd_laws K Op" and acc: "fd_account Op s" and run: "run_event K (CloseFd fd) s = Done s'"
  shows "fd_account Op s'"
proof -
  let ?w = "ds_world s" and ?k = "snd (k_close K fd (kern (ds_world s)))"
  have s': "s' = s\<lparr>ds_world := ?w\<lparr>kern := ?k\<rparr>, ds_fds := ds_fds s - {fd}\<rparr>" and fd: "fd \<in> ds_fds s"
    using run by (auto split: if_splits)
  have "refs (?w\<lparr>kern := ?k\<rparr>) H = refs ?w H" for H by (simp add: refs_def node_referenced_def)
  then show ?thesis
    using acc fd all_ok_same [OF _ same_tree_kern] by (auto simp: fd_account_def s' balanced_def fd_lawsD(5) [OF laws])
qed

lemma account_new:
  assumes laws: "fd_laws K Op" and acc: "fd_account Op s" and run: "run_event K (New name) s = Done s'"
  shows "fd_account Op s'"
proof -
  let ?w = "ds_world s" and ?H = "ds_handles s"
  let ?i = "next_node_id ?w" and ?fd = "fst (k_memfd_create K ''sandbox-vfs-dir'' (kern (ds_world s)))"
  have ok: "all_ok ?w (set (ds_fs s)) (set ?H)" and bal: "balanced Op ?w (refs ?w ?H) (ds_fds s)"
    using acc by (simp_all add: fd_account_def)
  obtain fs w' where new: "memory_fs_new K name ?w = (fs, w')" by fastforce
  have s': "s' = s\<lparr>ds_world := w', ds_fs := fs # ds_fs s\<rparr>" using run new by simp
  have w': "node_maps w' = (node_maps ?w)(?i := {?i})" "backing w' ?i = ?fd" "next_node_id w' = ?i + 1"
    "\<And>n. n \<noteq> ?i \<Longrightarrow> heap w' n = heap ?w n" "kern w' = snd (k_memfd_create K ''sandbox-vfs-dir'' (kern ?w))"
    using new by (auto simp: memory_fs_new_def fetch_add_node_id_def create_memfd_def Let_def node_backing_fd_def split: prod.splits)
  have step: "all_ok w' (insert fs (set (ds_fs s))) (set ?H)" using mem_step_ok [OF mem_step.new [OF new] ok] by simp
  have w: "world_inv ?w" "world_inv w'" using ok step by (simp_all add: all_ok_def)
  have refs: "refs w' ?H = refs ?w ?H \<union> {?i}"
  proof -
    have "(\<exists>m. n \<in> node_maps w' m) \<longleftrightarrow> n = ?i \<or> (\<exists>m. n \<in> node_maps ?w m)" for n
      using fresh_map [OF w(1)] unfolding w'(1) by (metis empty_iff fun_upd_apply insertCI singletonD)
    then show ?thesis by (auto simp: refs_def referenced_iff [OF w(1)] referenced_iff [OF w(2)])
  qed
  have keep: "n < ?i \<and> backing w' n = backing ?w n" if "n \<in> refs ?w ?H" for n
    using referenced_old [OF ok, of n] that w'(4) [of n] by (auto simp: refs_def)
  have o: "opens Op (kern ?w) ?fd (kern w')" unfolding w'(5) by (rule fd_lawsD(1) [OF laws])
  have "balanced Op w' (refs ?w ?H \<union> {?i}) (ds_fds s)"
  proof (cases "0 \<le> ?fd")
    case True
    have step1: "fd_step Op ?w (-1) w'"
      unfolding fd_step_def using True o fresh_map [OF w(1)]
      by (intro exI [of _ "{?i}"]) (auto simp: w'(1,2) opens_def)
    obtain N where N: "N \<subseteq> {?i}" "\<forall>n \<in> N. \<exists>r. n \<in> node_maps w' r" "\<forall>r. node_maps w' r \<subseteq> node_maps ?w r \<union> N"
      "balanced Op w' (refs ?w ?H \<union> N) (if 0 \<le> (- 1 :: fd) then insert (- 1) (ds_fds s) else ds_fds s)"
      using balanced_call [OF bal step1 keep] .
    have "?i \<in> N" using spec [OF N(3), of ?i] fresh_map [OF w(1)] by (auto simp: w'(1))
    then have "N = {?i}" using N(1) by blast
    then show ?thesis using N(4) by simp
  next
    case False
    let ?R = "{n \<in> refs ?w ?H. 0 \<le> backing ?w n}"
    have R: "{n \<in> refs ?w ?H \<union> {?i}. 0 \<le> backing w' n} = ?R" using False keep w'(2) by auto
    have same: "backing w' n = backing ?w n" if "n \<in> ?R" for n using keep that by blast
    have "backing w' ` ?R = backing ?w ` ?R" by (rule image_cong [OF refl same])
    moreover have "inj_on (backing w') ?R = inj_on (backing ?w) ?R" by (rule inj_on_cong [OF same])
    moreover have "Op (kern w') = Op (kern ?w)" using o False by (simp add: opens_def)
    ultimately show ?thesis using bal unfolding balanced_def R by simp
  qed
  then show ?thesis using step refs by (simp add: fd_account_def s')
qed

lemma account_events:
  assumes laws: "fd_laws K Op" and "fd_account Op s" and "run_events K es s = Done s'"
  shows "fd_account Op s'"
  using assms(2,3)
proof (induction es arbitrary: s)
  case (Cons e es)
  then obtain s1 where 1: "run_event K e s = Done s1" "run_events K es s1 = Done s'" by (auto simp: bind_eq_Some_conv)
  have "fd_account Op s1"
    using account_new [OF laws Cons.prems(1)] account_call [OF laws Cons.prems(1)] account_drop [OF laws Cons.prems(1)]
      account_close [OF laws Cons.prems(1)] 1(1) by (cases e) blast+
  then show ?case using Cons.IH 1(2) by blast
qed simp

lemma account_start:
  assumes "\<forall>fd \<in> Op k. 0 \<le> fd"
  shows "fd_account Op (fd_start k (Op k))"
proof -
  have "refs (boot k) [] = {}" by (auto simp: refs_def node_referenced_def boot_def)
  then show ?thesis
    using assms boot_inv [of k] by (simp add: fd_account_def fd_start_def balanced_def all_ok_def) (simp add: boot_def)
qed

text \<open>C36: No backing descriptor leaks and none is closed early. On a kernel that accounts for its descriptors,
  after any sequence of calls of in-memory file systems and their opened files, of dropped handles
  and of descriptors that the process closes, the open descriptors are exactly those the process has
  and one for each node that is in a file system or opened; two nodes never share one, and the
  process never has one of them. So an unlinked file stays usable until its last handle is dropped.\<close>

theorem descriptors_accounted:
  assumes laws: "fd_laws K Op" and start: "\<forall>fd \<in> Op k. 0 \<le> fd"
    and run: "run_events K es (fd_start k (Op k)) = Done s"
  defines "B \<equiv> {n. node_referenced (ds_world s) (ds_handles s) n \<and> 0 \<le> node_backing_fd (heap (ds_world s) n)}"
  shows "Op (kern (ds_world s)) = (\<lambda>n. node_backing_fd (heap (ds_world s) n)) ` B \<union> ds_fds s \<and>
     inj_on (\<lambda>n. node_backing_fd (heap (ds_world s) n)) B \<and>
     (\<lambda>n. node_backing_fd (heap (ds_world s) n)) ` B \<inter> ds_fds s = {}"
  using account_events [OF laws account_start [of Op k, OF start] run]
  by (simp add: fd_account_def balanced_def refs_def B_def)

text \<open>A kernel whose state is the set of open descriptors; the descriptors it hands out are the next ones above.\<close>

definition next_fd :: "fd list \<Rightarrow> fd" where
  "next_fd k = foldr max k 2 + 1"

definition fd_kernel :: "fd list kernel" where
  "fd_kernel =
     \<lparr>k_memfd_create = (\<lambda>_ k. (next_fd k, next_fd k # k)), k_sys_openat = (\<lambda>_ _ _ _ k. (next_fd k, next_fd k # k)),
      k_fstat = (\<lambda>_ sb k. ((0, sb), k)), k_fchmod = (\<lambda>_ _ k. (0, k)), k_access = (\<lambda>_ _ k. (0, k)),
      k_open = (\<lambda>_ _ _ k. (-1, k)), k_mkdir = (\<lambda>_ _ k. (-1, k)), k_unlink = (\<lambda>_ k. (-1, k)), k_rmdir = (\<lambda>_ k. (-1, k)),
      k_rename = (\<lambda>_ _ k. (-1, k)), k_chmod = (\<lambda>_ _ k. (-1, k)), k_stat = (\<lambda>_ sb k. ((-1, sb), k)),
      k_close = (\<lambda>fd k. (0, filter (\<lambda>x. x \<noteq> fd) k))\<rparr>"

lemma foldr_max: "2 \<le> foldr max k (2 :: fd) \<and> (\<forall>x \<in> set k. x \<le> foldr max k 2)"
  by (induction k) auto

lemma next_fd_fresh: "next_fd k \<notin> set k" "0 \<le> next_fd k"
  using foldr_max [of k] by (auto simp: next_fd_def)

lemma fd_kernel_laws: "fd_laws fd_kernel set"
  using next_fd_fresh by (auto simp: fd_laws_def fd_kernel_def opens_def)

text \<open>A file is created, opened again, unlinked and used through its handle; then its handles go.\<close>

definition fd_events :: "event list" where
  "fd_events =
     (let fs = \<lparr>mem_id = ''mem'', mem_root = 1, mem_nodes = 1\<rparr>
      in [New ''mem'', Call (MOpenHandle fs (names_path [''f'']) O_CREAT 0x1A4), Call (MOpenHandle fs (names_path [''f'']) O_RDWR 0),
          Call (MUnlink fs (names_path [''f''])), Call (HStat (MemoryOpenedFile 2 1) zeroed_stat), DropHandle (MemoryOpenedFile 2 1)])"

theorem descriptors_accounted_witness:
  "\<exists>s s'. run_events fd_kernel fd_events (fd_start [0, 1, 2] {0, 1, 2}) = Done s \<and>
     kern (ds_world s) = [6, 5, 4, 3, 0, 1, 2] \<and> ds_fds s = {6, 5, 0, 1, 2} \<and>
     (\<lambda>n. node_backing_fd (heap (ds_world s) n)) `
        {n. node_referenced (ds_world s) (ds_handles s) n \<and> 0 \<le> node_backing_fd (heap (ds_world s) n)} = {3, 4} \<and>
     run_event fd_kernel (DropHandle (MemoryOpenedFile 2 1)) s = Done s' \<and> kern (ds_world s') = [6, 5, 3, 0, 1, 2]"
proof -
  let ?run = "run_events fd_kernel fd_events (fd_start [0, 1, 2] {0, 1, 2})"
  have r: "map_option (\<lambda>s. kern (ds_world s)) ?run = Some [6, 5, 4, 3, 0, 1, 2]" "map_option ds_fds ?run = Some {6, 5, 0, 1, 2}"
    "map_option (\<lambda>s. kern (ds_world s)) (Option.bind ?run (run_event fd_kernel (DropHandle (MemoryOpenedFile 2 1)))) =
       Some [6, 5, 3, 0, 1, 2]" by code_simp+
  obtain s where s: "?run = Done s" "kern (ds_world s) = [6, 5, 4, 3, 0, 1, 2]"
    using r(1) unfolding map_option_eq_Some by blast
  have fds: "ds_fds s = {6, 5, 0, 1, 2}" using r(2) unfolding s(1) by simp
  obtain s' where s': "run_event fd_kernel (DropHandle (MemoryOpenedFile 2 1)) s = Done s'" "kern (ds_world s') = [6, 5, 3, 0, 1, 2]"
    using r(3) unfolding s(1) Option.bind.simps map_option_eq_Some by blast
  have start: "fd_start [0, 1, 2] {0, 1, 2} = fd_start [0, 1, 2] (set [0, 1, 2 :: fd])" by simp
  let ?B = "(\<lambda>n. node_backing_fd (heap (ds_world s) n)) `
        {n. node_referenced (ds_world s) (ds_handles s) n \<and> 0 \<le> node_backing_fd (heap (ds_world s) n)}"
  have eq: "set [6, 5, 4, 3, 0, 1, 2] = ?B \<union> {6, 5, 0, 1, 2} \<and> ?B \<inter> {6, 5, 0, 1, 2} = {}"
    using descriptors_accounted [OF fd_kernel_laws _ s(1) [unfolded start]] unfolding s(2) fds by simp
  have "B = A - C" if "A = B \<union> C \<and> B \<inter> C = {}" for A B C :: "fd set" using that by blast
  from this [OF eq] have "?B = {3, 4}" by (rule trans) auto
  with s fds s' show ?thesis by (intro exI conjI)
qed

end
