(* ===== verification/Orphans.thy ===== *)
theory Orphans
  imports MemoryProps
begin

text \<open>
  What happens to files that are created through the handle of a directory that was removed:
  \<open>create_node_in_dir\<close> of \<open>src/src/impls/memory.rs\<close> does not ask whether its parent is still in the
  namespace. The new node enters the node map, but no path leads to it; and since nodes leave the map
  only by their path, it stays there for good.
\<close>

section \<open>Nodes without a path\<close>

definition orphan :: "'k world \<Rightarrow> map_ref \<Rightarrow> node_id \<Rightarrow> bool" where
  "orphan w m n \<longleftrightarrow> n \<in> node_maps w m \<and> n \<noteq> m \<and>
     (\<exists>p. parent_of w n = Some p \<and> p < next_node_id w \<and> (\<forall>r. p \<notin> node_maps w r))"

lemma orphan_child:
  assumes w: "world_inv w" and n: "orphan w m n" and d: "d \<in> node_maps w r"
  shows "child w d x \<noteq> Some n"
proof
  assume "child w d x = Some n"
  then have "parent_of w n = Some d" using world_inv_in [OF w d] mem_inv_child d by blast
  then show False using n d by (auto simp: orphan_def)
qed

lemma orphan_no_path:
  assumes w: "world_inv w" and fs: "live w fs" and n: "orphan w (mem_nodes fs) n"
  shows "view w fs ns \<noteq> Some n"
proof
  assume v: "view w fs ns = Some n"
  show False
  proof (cases ns rule: rev_cases)
    case Nil
    then have "n = mem_root fs" using v by (simp add: view_def)
    then show False using n live_inv [OF w fs] by (simp add: orphan_def)
  next
    case (snoc ms x)
    then obtain d where "view w fs ms = Some d" "child w d x = Some n"
      using v by (auto simp: view_snoc bind_eq_Some_conv)
    then show False using orphan_child [OF w n view_in [OF w fs]] by blast
  qed
qed

section \<open>They stay\<close>

text \<open>The node keeps its place in the maps and its parent.\<close>

definition keeps :: "node_id \<Rightarrow> 'k world \<Rightarrow> 'k world \<Rightarrow> bool" where
  "keeps n w w' \<longleftrightarrow> (\<forall>r. n \<in> node_maps w r \<longrightarrow> n \<in> node_maps w' r) \<and> parent_of w' n = parent_of w n"

lemma keeps_refl: "keeps n w w"
  by (simp add: keeps_def)

lemma keeps_trans: "keeps n w w' \<Longrightarrow> keeps n w' w'' \<Longrightarrow> keeps n w w''"
  by (simp add: keeps_def)

lemma keeps_same: "same_tree w w' \<Longrightarrow> keeps n w w'"
  by (simp add: keeps_def same_tree_maps same_tree_parent)

lemma keeps_create:
  assumes "create_node_in_dir K p m x kind mode w = (r, w')" and "p < next_node_id w" and "n < next_node_id w"
  shows "keeps n w w'"
  using create_node_in_dir_cases [OF assms(1,2)] keeps_same assms(3)
  by (auto simp: keeps_def add_node_def parent_of_def mem_simps)

lemma keeps_create_node:
  assumes w: "world_inv w" "live w fs" "is_absolute p" and n: "n < next_node_id w"
    and run: "create_node K fs p kind mode w = Done (r, w')"
  shows "keeps n w w'"
proof (cases "\<exists>x d. file_name p = Some x \<and> view w fs (names_of (butlast p)) = Some d")
  case False
  then have "create_node K fs p kind mode w = Done (None, w)"
    by (auto simp: create_node_names [OF w] split: option.splits)
  then show ?thesis using run by (simp add: keeps_refl)
next
  case True
  then obtain x d where xd: "file_name p = Some x" "view w fs (names_of (butlast p)) = Some d" by blast
  then have "create_node_in_dir K d (mem_nodes fs) x kind mode w = (r, w')" using run by (simp add: create_node_names [OF w])
  moreover have "d < next_node_id w" using world_inv_in [OF w(1) view_in [OF w(1,2) xd(2)]] by (simp add: node_ok_def)
  ultimately show ?thesis using keeps_create n by blast
qed

lemma keeps_create_relative:
  assumes w: "world_inv w" "handle_ok w (MemoryOpenedFile a m)" and n: "n < next_node_id w"
    and run: "create_relative_node K a m p kind mode w = (r, w')"
  shows "keeps n w w'"
proof (cases "can_resolve_relative_to_opened_node p \<and>
    (\<exists>pp x d. parent_path p = Some pp \<and> file_name p = Some x \<and> resolve_relative a m pp w = Some d)")
  case False
  then have "create_relative_node K a m p kind mode w = (None, w)"
    by (auto simp: create_relative_node_def split: option.splits bind_splits)
  then show ?thesis using run by (simp add: keeps_refl)
next
  case True
  then obtain pp x d where d: "can_resolve_relative_to_opened_node p" "parent_path p = Some pp" "file_name p = Some x"
    "resolve_relative a m pp w = Some d" by blast
  then have "create_node_in_dir K d m x kind mode w = (r, w')" using run by (simp add: create_relative_node_def)
  moreover have "d < next_node_id w" using resolve_relative_handle [OF w d(4)] by simp
  ultimately show ?thesis using keeps_create n by blast
qed

text \<open>Opening creates at most, and then only calls the kernel.\<close>

lemma open_resolved_cases:
  assumes "open_resolved_node K existing create fl w = Done ((fd, n), w')"
  obtains w1 where "w1 = w \<or> (\<exists>r. existing = None \<and> create w = Done (r, w1))" "same_tree w1 w'"
proof (cases "existing \<noteq> None \<and> fl AND (O_CREAT OR O_EXCL) = (O_CREAT OR O_EXCL)")
  case True
  then have "w' = w" using assms by (auto simp: open_resolved_node_def)
  then show thesis using that same_tree_refl by blast
next
  case False
  obtain node w1 where node: "(case existing of Some node \<Rightarrow> Done (Some node, w)
        | None \<Rightarrow> if fl AND O_CREAT \<noteq> 0 then create w else Done (None, w)) = Done (node, w1)"
    and fin: "((fd, n), w') = (case node of None \<Rightarrow> ((-1, None), w1) | Some node \<Rightarrow>
        if fl AND O_DIRECTORY \<noteq> 0 \<and> \<not> is_directory (heap w1 node) then ((-1, None), w1)
        else (let (fd, w) = open_backing K (node_backing_fd (heap w1 node)) fl w1
              in if fd < 0 then ((fd, None), w) else ((fd, Some node), w)))"
    using assms unfolding open_resolved_node_def if_not_P [OF False] by (auto simp: bind_eq_Some_conv)
  have "same_tree w1 w'"
    using fin open_backing_same same_tree_refl by (auto split: option.splits if_splits prod.splits)
  moreover have "w1 = w \<or> (\<exists>r. existing = None \<and> create w = Done (r, w1))"
    using node by (auto split: option.splits if_splits)
  ultimately show thesis using that by blast
qed

text \<open>Removal and renaming take only nodes that some directory lists.\<close>

lemma keeps_remove:
  assumes w: "world_inv w" "live w fs" "is_absolute p" and n: "orphan w m n"
    and run: "remove_node_at p (mem_nodes fs) (mem_root fs) kind w = Done (r, w')"
  shows "keeps n w w'"
proof (cases "w' = w")
  case False
  have inv: "mem_inv w (mem_nodes fs)" "mem_root fs = mem_nodes fs" using live_inv [OF w(1,2)] by auto
  obtain x d c where d: "lookup_names (child w) (names_of (butlast p)) (mem_nodes fs) = Some d" "child w d x = Some c"
    and w': "w' = remove_entry (mem_nodes fs) d x c w"
    using run False by (auto simp: inv(2) remove_spec [OF inv(1) w(3)] split: option.splits if_splits)
  have "d \<in> node_maps w (mem_nodes fs)" using lookup_in [OF mem_inv_tree [OF inv(1)] mem_root_in [OF inv(1)]] d(1) by blast
  then have "n \<noteq> c" using orphan_child [OF w(1) n] d(2) by blast
  then show ?thesis by (simp add: keeps_def w' remove_entry_def mem_simps)
qed (simp add: keeps_refl)

lemma keeps_rename:
  assumes w: "world_inv w" "live w fs" "is_absolute p" "is_absolute q" and n: "orphan w m n"
    and run: "rename_node_at p q (mem_nodes fs) (mem_root fs) w = Done (r, w')"
  shows "keeps n w w'"
proof (cases rule: rename_cases [OF w])
  case 1
  then show ?thesis using run keeps_refl by simp
next
  case (2 r' w'' d x e y c)
  have "n \<noteq> c" "child w e y \<noteq> Some n"
    using orphan_child [OF w(1) n 2(2)] orphan_child [OF w(1) n 2(3)] 2(4) by auto
  then show ?thesis
    using 2(1,7) run by (auto simp: keeps_def move_entry_def clear_parent_def split: option.splits)
qed

lemma keeps_new:
  assumes w: "world_inv w" and n: "n < next_node_id w" and run: "memory_fs_new K name w = (fs, w')"
  shows "keeps n w w'"
  using run n fresh_map [OF w]
  by (auto simp: keeps_def parent_of_def memory_fs_new_def fetch_add_node_id_def create_memfd_def Let_def split: prod.splits)

lemma keeps_open:
  assumes w: "world_inv w" "live w fs" "is_absolute p" and n: "n < next_node_id w"
    and run: "open_node K fs p fl mode w = Done (z, w')"
  shows "keeps n w w'"
proof -
  obtain fd a where "open_resolved_node K (view w fs (names_of p)) (create_node K fs p FileKind mode) fl w = Done ((fd, a), w')"
    using run w(3) by (cases z) (simp add: open_node_def resolve_view [OF w])
  then show ?thesis
  proof (rule open_resolved_cases)
    fix w1 assume w1: "w1 = w \<or> (\<exists>r. view w fs (names_of p) = None \<and> create_node K fs p FileKind mode w = Done (r, w1))"
      and "same_tree w1 w'"
    moreover have "keeps n w w1" using w1 keeps_create_node [OF w n] keeps_refl by blast
    ultimately show ?thesis using keeps_trans keeps_same by blast
  qed
qed

lemma keeps_open_relative:
  assumes w: "world_inv w" "handle_ok w (MemoryOpenedFile a m)" and n: "n < next_node_id w"
    and run: "open_node_relative K a m p fl mode w = Done (z, w')"
  shows "keeps n w w'"
proof (cases "can_resolve_relative_to_opened_node p")
  case False
  then show ?thesis using run by (simp add: open_node_relative_def keeps_refl)
next
  case True
  then obtain fd b where "open_resolved_node K (resolve_relative a m p w)
      (\<lambda>w. Done (create_relative_node K a m p FileKind mode w)) fl w = Done ((fd, b), w')"
    using run by (auto simp: open_node_relative_def bind_eq_Some_conv)
  then show ?thesis
  proof (rule open_resolved_cases)
    fix w1 assume w1: "w1 = w \<or> (\<exists>r. resolve_relative a m p w = None \<and>
        Done (create_relative_node K a m p FileKind mode w) = Done (r, w1))" and "same_tree w1 w'"
    moreover have "keeps n w w1"
      using w1 keeps_create_relative [OF w n, of K p FileKind mode _ w1] keeps_refl by auto
    ultimately show ?thesis using keeps_trans keeps_same by blast
  qed
qed

lemma orphan_old: "world_inv w \<Longrightarrow> orphan w m n \<Longrightarrow> n < next_node_id w"
  using world_inv_in by (auto simp: orphan_def node_ok_def)

lemma mem_step_keeps:
  assumes step: "mem_step K (w, F, H) (w', F', H')" and ok: "all_ok w F H" and n: "orphan w m n"
  shows "keeps n w w'"
proof -
  have w: "world_inv w" and lv: "\<And>fs. fs \<in> F \<Longrightarrow> live w fs" and hok: "\<And>h. h \<in> H \<Longrightarrow> handle_ok w h"
    using ok by (auto simp: all_ok_def)
  have old: "n < next_node_id w" by (rule orphan_old [OF w n])
  from step show ?thesis
  proof (cases rule: mem_stepE [consumes 1])
    case (1 name fs)
    then show ?thesis using keeps_new [OF w old] by blast
  next
    case (2 fs p md r)
    then show ?thesis using resolve_view [OF w lv] by (auto simp: mem_access_def keeps_refl)
  next
    case (3 fs p fl mo r)
    then show ?thesis using keeps_open [OF w lv _ old] by (auto simp: mem_open_def bind_eq_Some_conv)
  next
    case (4 fs p fl mo z)
    then show ?thesis using keeps_open [OF w lv _ old] by (auto simp: mem_open_with_handle_def bind_eq_Some_conv)
  next
    case (5 fs p mo r)
    then show ?thesis using keeps_create_node [OF w lv _ old] by (auto simp: mem_mkdir_def bind_eq_Some_conv)
  next
    case (6 fs p r)
    then show ?thesis using keeps_remove [OF w lv _ n] by (auto simp: mem_unlink_def)
  next
    case (7 fs p r)
    then show ?thesis using keeps_remove [OF w lv _ n] by (auto simp: mem_rmdir_def)
  next
    case (8 fs p q r)
    then show ?thesis using keeps_rename [OF w lv _ _ n] by (auto simp: mem_rename_def)
  next
    case (9 fs p mo r)
    then show ?thesis using chmod_step [OF w lv, of fs p K mo] keeps_same by auto
  next
    case (10 fs p sb z)
    then have "w' = w \<or> (\<exists>a. stat_node K a (mem_nodes fs) sb w = (z, w'))"
      using resolve_view [OF w lv] by (auto simp: mem_stat_def split: option.splits)
    then show ?thesis using keeps_refl keeps_same stat_node_world by blast
  next
    case (11 h sb r)
    then have "same_tree w w'" by (cases h) (auto dest: stat_node_world)
    then show ?thesis by (rule keeps_same)
  next
    case (12 h p fl mo z)
    then show ?thesis
      using keeps_open_relative [OF w _ old] hok by (cases h) (fastforce simp: bind_eq_Some_conv simp del: handle_ok.simps)
  next
    case (13 h p mo r)
    then show ?thesis
      using keeps_create_relative [OF w _ old] hok keeps_refl
      by (cases h) (fastforce simp del: handle_ok.simps split: prod.splits if_splits)
  qed
qed

lemma mem_step_orphan:
  assumes step: "mem_step K (w, F, H) (w', F', H')" and ok: "all_ok w F H" and n: "orphan w m n"
  shows "orphan w' m n"
proof -
  have "evolves w w'" using mem_step_ok [OF step ok] by simp
  then show ?thesis
    using n mem_step_keeps [OF step ok n] unfolding orphan_def keeps_def evolves_def by (metis less_le_trans)
qed

lemma mem_steps_orphan:
  "mem_steps K s s' \<Longrightarrow> (case s of (w, F, H) \<Rightarrow> all_ok w F H \<and> orphan w m n) \<Longrightarrow>
     (case s' of (w, F, H) \<Rightarrow> all_ok w F H \<and> orphan w m n)"
proof (induction rule: rtranclp_induct)
  case (step s1 s2)
  then show ?case
    using mem_step_orphan [of K "fst s1" "fst (snd s1)" "snd (snd s1)" "fst s2" "fst (snd s2)" "snd (snd s2)" m n]
      mem_step_ok [of K "fst s1" "fst (snd s1)" "snd (snd s1)" "fst s2" "fst (snd s2)" "snd (snd s2)"]
    by (auto simp: case_prod_beta)
qed

section \<open>Creation below a removed directory\<close>

lemma single_name: "can_resolve_relative_to_opened_node [Normal x]" "parent_path [Normal x] = Some []" "file_name [Normal x] = Some x"
  by (simp_all add: can_resolve_relative_to_opened_node_def parent_path_def file_name_def)

lemma create_below_removed:
  assumes w: "world_inv w" and h: "handle_ok w (MemoryOpenedFile d m)" and d: "d \<notin> node_maps w m"
    and run: "create_relative_node K d m [Normal x] kind mode w = (Some n, w')"
  shows "orphan w' m n"
proof -
  have old: "d < next_node_id w" and out: "\<And>r. d \<notin> node_maps w r" and id: "nd_id (heap w d) = d"
    using h d by auto
  have "create_node_in_dir K d m x kind mode w = (Some n, w')"
    using run by (simp add: create_relative_node_def resolve_relative_def single_name can_resolve_relative_to_opened_node_def)
  then have n: "n = next_node_id w" "w' = add_node K d m x kind mode w"
    using create_node_in_dir_cases [OF _ old, of K m x kind mode "Some n" w'] by auto
  have "mem_inv w m" using h world_inv_mem [OF w] by simp
  then have "m \<noteq> next_node_id w" using mem_root_in fresh_id [OF w] by metis
  then show ?thesis
    using old out id by (auto simp: orphan_def n add_node_def parent_of_def mem_simps)
qed

lemma excl_open_creates:
  assumes run: "opened_open_child K (MemoryOpenedFile d m) [Normal x] fl mo w = Done (Some z, w1)" and fd: "0 \<le> or_fd z"
    and fl: "fl AND (O_CREAT OR O_EXCL) = (O_CREAT OR O_EXCL)"
  obtains n w2 where "or_opened z = Some (MemoryOpenedFile n m)"
    "create_relative_node K d m [Normal x] FileKind mo w = (Some n, w2)" "same_tree w2 w1"
proof -
  obtain r where r: "open_resolved_node K (resolve_relative d m [Normal x] w)
      (\<lambda>w. Done (create_relative_node K d m [Normal x] FileKind mo w)) fl w = Done (r, w1)"
    and z: "z = \<lparr>or_fd = fst r, or_opened = map_option (\<lambda>n. MemoryOpenedFile n m) (snd r)\<rparr>"
    using run by (auto simp: open_node_relative_def single_name bind_eq_Some_conv)
  have none: "resolve_relative d m [Normal x] w = None" using r z fd fl by (auto simp: open_resolved_node_def split: if_splits)
  obtain q w2 where q: "create_relative_node K d m [Normal x] FileKind mo w = (q, w2)" by fastforce
  have "fl AND O_CREAT = (fl AND (O_CREAT OR O_EXCL)) AND O_CREAT" by (simp add: and.assoc)
  also have "\<dots> = O_CREAT" unfolding fl by simp
  finally have "fl AND O_CREAT \<noteq> 0" by simp
  then have fin: "(r, w1) = (case q of None \<Rightarrow> ((-1, None), w2) | Some node \<Rightarrow>
        if fl AND O_DIRECTORY \<noteq> 0 \<and> \<not> is_directory (heap w2 node) then ((-1, None), w2)
        else (let (fd, w) = open_backing K (node_backing_fd (heap w2 node)) fl w2
              in if fd < 0 then ((fd, None), w) else ((fd, Some node), w)))"
    using r by (simp add: open_resolved_node_def none q)
  then obtain n where "q = Some n" "snd r = Some n" "same_tree w2 w1"
    using z fd open_backing_same by (fastforce simp: Let_def split: option.splits if_splits prod.splits)
  then show thesis using that q z by simp
qed

text \<open>C37: A file that is created (with \<open>O_CREAT | O_EXCL\<close>) through the handle of a directory that was
  removed is never reachable by a path and never leaves the node map, whatever calls follow: a Linux
  kernel answers \<open>ENOENT\<close> instead. The same happens when a creation and a removal of the directory race.\<close>

theorem creation_in_removed_directory:
  assumes "mem_reach K (w, F, H)" and "fs \<in> F" and "MemoryOpenedFile d (mem_nodes fs) \<in> H" and "d \<notin> node_maps w (mem_nodes fs)"
    and "opened_open_child K (MemoryOpenedFile d (mem_nodes fs)) [Normal x] fl mo w = Done (Some z, w1)"
    and "0 \<le> or_fd z" and "fl AND (O_CREAT OR O_EXCL) = (O_CREAT OR O_EXCL)"
    and "mem_steps K (w1, F, H \<union> set_option (or_opened z)) (w', F', H')"
  shows "\<exists>n. or_opened z = Some (MemoryOpenedFile n (mem_nodes fs)) \<and> n \<in> node_maps w' (mem_nodes fs) \<and>
     (\<forall>p. is_absolute p \<longrightarrow> resolve fs p w' \<noteq> Done (Some n))"
proof -
  let ?m = "mem_nodes fs" and ?H = "H \<union> set_option (or_opened z)"
  obtain n w2 where n: "or_opened z = Some (MemoryOpenedFile n ?m)"
    "create_relative_node K d ?m [Normal x] FileKind mo w = (Some n, w2)" and same: "same_tree w2 w1"
    using excl_open_creates [OF assms(5-7)] .
  have "orphan w2 ?m n"
    by (rule create_below_removed [OF reach_inv [OF assms(1)] reach_handle [OF assms(1,3)] assms(4) n(2)])
  then have orphan: "orphan w1 ?m n"
    using same_tree_next [OF same] by (auto simp: orphan_def same_tree_maps [OF same] same_tree_parent [OF same])
  have step: "mem_step K (w, F, H) (w1, F, ?H)" using mem_step.handle_open [OF assms(3,5), of F] by simp
  have "all_ok w1 F ?H" using mem_step_ok [OF step mem_reach_ok [OF assms(1)]] by simp
  then have end_ok: "all_ok w' F' H'" "orphan w' ?m n"
    using mem_steps_orphan [OF assms(8), of ?m n] orphan by simp_all
  moreover have "live w' fs"
    using steps_evolve [OF assms(1)] step assms(8) evolves_live reach_live [OF assms(1,2)] converse_rtranclp_into_rtranclp by metis
  ultimately show ?thesis
    using n(1) orphan_no_path [of w' fs n] resolve_view [of w' fs] by (auto simp: orphan_def all_ok_def)
qed

text \<open>The file \<open>/d/f\<close> and the directory \<open>/d\<close> are removed; then \<open>x\<close> is created through the handle of \<open>/d\<close>.\<close>

theorem creation_in_removed_directory_witness:
  "\<exists>w w1. mem_reach sample_kernel (w, {sample_fs}, sample_handles) \<and> 2 \<notin> node_maps w 1 \<and>
     opened_open_child sample_kernel (MemoryOpenedFile 2 1) [Normal ''x''] (O_CREAT OR O_EXCL) 0x1A4 w =
       Done (Some \<lparr>or_fd = 9, or_opened = Some (MemoryOpenedFile 4 1)\<rparr>, w1) \<and>
     4 \<in> node_maps w1 1 \<and> resolve sample_fs (names_path [''d'', ''x'']) w1 \<noteq> Done (Some 4)"
proof -
  let ?K = sample_kernel and ?F = "{sample_fs}" and ?z = "\<lparr>or_fd = 9, or_opened = Some (MemoryOpenedFile 4 1)\<rparr>"
  define u where "u = snd (the (mem_unlink sample_fs (names_path [''d'', ''f'']) sample_world))"
  define w where "w = snd (the (mem_rmdir sample_fs (names_path [''d'']) u))"
  let ?open = "opened_open_child ?K (MemoryOpenedFile 2 1) [Normal ''x''] (O_CREAT OR O_EXCL) 0x1A4 w"
  have "mem_unlink sample_fs (names_path [''d'', ''f'']) sample_world = Done (0, u)"
    unfolding u_def by (rule io_run) code_simp
  note s1 = mem_step.unlink [of sample_fs ?F, OF _ names_path_absolute this, of ?K sample_handles]
  have "mem_rmdir sample_fs (names_path [''d'']) u = Done (0, w)"
    unfolding w_def by (rule io_run) (unfold u_def, code_simp)
  note s2 = mem_step.rmdir [of sample_fs ?F, OF _ names_path_absolute this, of ?K sample_handles]
  have reach: "mem_reach ?K (w, ?F, sample_handles)"
    using s1 s2 by (intro mem_reach_steps [OF sample_reach]) simp
  have out: "2 \<notin> node_maps w 1" and id: "mem_nodes sample_fs = 1" unfolding w_def u_def by code_simp+
  have "map_option fst ?open = Some (Some ?z)" unfolding w_def u_def by code_simp
  note run = io_run [OF this]
  note leak = creation_in_removed_directory [OF reach, of sample_fs 2, unfolded id, OF _ _ out run _ _ rtranclp.rtrancl_refl]
  have "4 \<in> node_maps (snd (the ?open)) 1 \<and> resolve sample_fs (names_path [''d'', ''x'']) (snd (the ?open)) \<noteq> Done (Some 4)"
    using leak by (simp add: sample_handles_def)
  then show ?thesis using reach out run by blast
qed

end
