(* ===== verification/Threads.thy ===== *)
theory Threads
  imports MemoryProps
begin

text \<open>
  Several threads in one in-memory file system of \<open>src/src/impls/memory.rs\<close>. A call of
  \<open>create_node\<close>, \<open>remove_node_at\<close> or \<open>rename_node_at\<close> is cut where the code holds no lock: a lookup
  takes the lock of the node map and that of one directory in turn for each component; creation, removal
  and a rename within one directory then do their work under the write guard of the directory's entries,
  which is one step here; a rename between two directories takes and drops the guards six times. A thread
  keeps the nodes (\<open>Arc<Node>\<close>) that it has found, also when another thread takes them out of
  the namespace meanwhile. Threads are run one step at a time in the order of a schedule.
\<close>

section \<open>Threads\<close>

text \<open>What is done once a directory is found; \<open>RenameFrom\<close> goes on with the lookup of the new parent.\<close>

datatype job =
    CreateIn string vfs_entry_kind mode_t
  | RemoveFrom string vfs_entry_kind
  | RenameFrom path path string
  | RenameTo path path node_id string string

record move =
  mv_old_path :: path
  mv_new_path :: path
  mv_old_parent :: node_id
  mv_old_name :: string
  mv_new_parent :: node_id
  mv_new_name :: string

datatype thread =
    Fetch node_id "component list" job
  | Lookup node_id "component list" job
  | ReadOld move
  | FetchOld move node_id
  | ReadNew move node_id
  | FetchReplaced move node_id node_id
  | TakeOld move node_id
  | PutNew move node_id
  | Returned int

datatype call_at =
    CreateNode path vfs_entry_kind mode_t
  | RemoveNode path vfs_entry_kind
  | RenameNode path path

text \<open>Up to the first lock: the root and a path without a last name are refused.\<close>

definition find_parent :: "memory_fs \<Rightarrow> path \<Rightarrow> (string \<Rightarrow> job) \<Rightarrow> thread" where
  "find_parent fs p job =
     (case (parent_path p, file_name p) of
        (Some pp, Some x) \<Rightarrow> Fetch (mem_root fs) pp (job x)
      | _ \<Rightarrow> Returned (-1))"

fun start_call :: "memory_fs \<Rightarrow> call_at \<Rightarrow> thread" where
  "start_call fs (CreateNode p kind mode) = find_parent fs p (\<lambda>x. CreateIn x kind mode)"
| "start_call fs (RemoveNode p kind) =
     (if p = [RootDir] then Returned (-1) else find_parent fs p (\<lambda>x. RemoveFrom x kind))"
| "start_call fs (RenameNode p q) =
     (if p = [RootDir] \<or> q = [RootDir] then Returned (-1)
      else if p = q then Returned 0
      else find_parent fs p (RenameFrom p q))"

text \<open>The part of \<open>remove_node_at\<close> under the write guard of the parent.\<close>

definition remove_section :: "map_ref \<Rightarrow> node_id \<Rightarrow> string \<Rightarrow> vfs_entry_kind \<Rightarrow> 'k world \<Rightarrow> int \<times> 'k world" where
  "remove_section m parent name kind w =
     (case nd_kind (heap w parent) of
        File _ \<Rightarrow> (-1, w)
      | Directory entries _ \<Rightarrow>
        (case btree_get entries name of
           None \<Rightarrow> (-1, w)
         | Some i \<Rightarrow>
           (case node_from_map w m i of
              None \<Rightarrow> (-1, update_node parent (set_entries (btree_remove name entries)) w)
            | Some node \<Rightarrow>
              if (case (nd_kind (heap w node), kind) of
                    (File _, FileKind) \<Rightarrow> True
                  | (Directory es _, DirKind) \<Rightarrow> es = []
                  | _ \<Rightarrow> False)
              then
                let w = update_node parent (set_entries (btree_remove name entries)) w;
                    w = detach_node node w
                in (0, nodes_remove m i w)
              else (-1, w))))"

text \<open>The last part of a rename between directories, under the write guard of the new parent.\<close>

definition put_section :: "map_ref \<Rightarrow> move \<Rightarrow> node_id \<Rightarrow> 'k world \<Rightarrow> 'k world" where
  "put_section m mv node w =
     (let entries = entries_of (heap w (mv_new_parent mv));
          replaced = btree_get entries (mv_new_name mv);
          w = update_node (mv_new_parent mv) (set_entries (btree_insert (mv_new_name mv) node entries)) w;
          w = (case replaced of
                 None \<Rightarrow> w
               | Some i \<Rightarrow> nodes_remove m i (case node_from_map w m i of None \<Rightarrow> w | Some r \<Rightarrow> detach_node r w))
      in update_node node (\<lambda>n. n\<lparr>nd_parent := Some (nd_id (heap w (mv_new_parent mv)))\<rparr>) w)"

fun do_job :: "'k kernel \<Rightarrow> memory_fs \<Rightarrow> node_id \<Rightarrow> job \<Rightarrow> 'k world \<Rightarrow> thread \<times> 'k world" where
  "do_job K fs d (CreateIn x kind mode) w =
     (let (r, w) = create_node_in_dir K d (mem_nodes fs) x kind mode w
      in (Returned (case r of None \<Rightarrow> -1 | Some _ \<Rightarrow> 0), w))"
| "do_job K fs d (RemoveFrom x kind) w =
     (let (r, w) = remove_section (mem_nodes fs) d x kind w in (Returned r, w))"
| "do_job K fs d (RenameFrom old new x) w = (find_parent fs new (RenameTo old new d x), w)"
| "do_job K fs d (RenameTo old new p x y) w =
     (case (nd_kind (heap w p), nd_kind (heap w d)) of
        (Directory entries _, Directory _ _) \<Rightarrow>
          if nd_id (heap w p) = nd_id (heap w d)
          then (let (r, w) = rename_in_dir old new p entries x y (mem_nodes fs) w in (Returned r, w))
          else (ReadOld \<lparr>mv_old_path = old, mv_new_path = new, mv_old_parent = p, mv_old_name = x,
                         mv_new_parent = d, mv_new_name = y\<rparr>, w)
      | _ \<Rightarrow> (Returned (-1), w))"

fun thread_step :: "'k kernel \<Rightarrow> memory_fs \<Rightarrow> thread \<Rightarrow> 'k world \<Rightarrow> thread \<times> 'k world" where
  "thread_step K fs (Fetch i cs j) w =
     (case node_from_map w (mem_nodes fs) i of None \<Rightarrow> Returned (-1) | Some n \<Rightarrow> Lookup n cs j, w)"
| "thread_step K fs (Lookup n [] j) w = do_job K fs n j w"
| "thread_step K fs (Lookup n (Normal x # cs) j) w =
     (case nd_kind (heap w n) of
        File _ \<Rightarrow> Returned (-1)
      | Directory entries _ \<Rightarrow> (case btree_get entries x of None \<Rightarrow> Returned (-1) | Some i \<Rightarrow> Fetch i cs j), w)"
| "thread_step K fs (Lookup n (_ # cs) j) w = (Lookup n cs j, w)"
| "thread_step K fs (ReadOld mv) w =
     (case btree_get (entries_of (heap w (mv_old_parent mv))) (mv_old_name mv) of
        None \<Rightarrow> Returned (-1) | Some i \<Rightarrow> FetchOld mv i, w)"
| "thread_step K fs (FetchOld mv i) w =
     (case node_from_map w (mem_nodes fs) i of
        None \<Rightarrow> Returned (-1)
      | Some node \<Rightarrow>
          if is_directory (heap w node) \<and> starts_with (mv_new_path mv) (mv_old_path mv) then Returned (-1)
          else ReadNew mv node, w)"
| "thread_step K fs (ReadNew mv node) w =
     (case btree_get (entries_of (heap w (mv_new_parent mv))) (mv_new_name mv) of
        None \<Rightarrow> TakeOld mv node | Some i \<Rightarrow> FetchReplaced mv node i, w)"
| "thread_step K fs (FetchReplaced mv node i) w =
     (if i = node then Returned 0
      else case node_from_map w (mem_nodes fs) i of
             None \<Rightarrow> Returned (-1)
           | Some r \<Rightarrow> if can_replace_node (heap w node) (heap w r) then TakeOld mv node else Returned (-1), w)"
| "thread_step K fs (TakeOld mv node) w =
     (PutNew mv node,
      update_node (mv_old_parent mv)
        (set_entries (btree_remove (mv_old_name mv) (entries_of (heap w (mv_old_parent mv))))) w)"
| "thread_step K fs (PutNew mv node) w = (Returned 0, put_section (mem_nodes fs) mv node w)"
| "thread_step K fs (Returned r) w = (Returned r, w)"

text \<open>A schedule names the thread that takes the next step.\<close>

fun run_threads :: "'k kernel \<Rightarrow> memory_fs \<Rightarrow> nat list \<Rightarrow> thread list \<times> 'k world \<Rightarrow> thread list \<times> 'k world" where
  "run_threads K fs [] s = s"
| "run_threads K fs (i # is) (ts, w) =
     (if i < length ts
      then (let (t, w) = thread_step K fs (ts ! i) w in run_threads K fs is (ts[i := t], w))
      else run_threads K fs is (ts, w))"

section \<open>One thread alone\<close>

definition alone :: "'k kernel \<Rightarrow> memory_fs \<Rightarrow> thread \<times> 'k world \<Rightarrow> thread \<times> 'k world" where
  "alone K fs s = thread_step K fs (fst s) (snd s)"

definition reaches :: "'k kernel \<Rightarrow> memory_fs \<Rightarrow> thread \<times> 'k world \<Rightarrow> thread \<times> 'k world \<Rightarrow> bool" where
  "reaches K fs s s' \<longleftrightarrow> (\<exists>k. (alone K fs ^^ k) s = s')"

lemma reaches_refl: "reaches K fs s s"
  unfolding reaches_def by (rule exI [of _ 0]) simp

lemma reaches_trans:
  assumes "reaches K fs s t" "reaches K fs t u"
  shows "reaches K fs s u"
proof -
  obtain a b where "(alone K fs ^^ a) s = t" "(alone K fs ^^ b) t = u" using assms by (auto simp: reaches_def)
  then have "(alone K fs ^^ (b + a)) s = u" by (simp add: funpow_add)
  then show ?thesis unfolding reaches_def ..
qed

lemma reaches_step: "reaches K fs (thread_step K fs t w) u \<Longrightarrow> reaches K fs (t, w) u"
proof -
  have "(alone K fs ^^ 1) (t, w) = thread_step K fs t w" by (simp add: alone_def)
  then have "reaches K fs (t, w) (thread_step K fs t w)" unfolding reaches_def ..
  then show "reaches K fs (thread_step K fs t w) u \<Longrightarrow> reaches K fs (t, w) u" by (rule reaches_trans)
qed

lemma run_alone:
  "i < length ts \<Longrightarrow> run_threads K fs (replicate k i) (ts, w) =
     (ts[i := fst ((alone K fs ^^ k) (ts ! i, w))], snd ((alone K fs ^^ k) (ts ! i, w)))"
proof (induction k arbitrary: ts w)
  case (Suc k)
  obtain t w1 where s: "thread_step K fs (ts ! i) w = (t, w1)" by fastforce
  then have "(alone K fs ^^ Suc k) (ts ! i, w) = (alone K fs ^^ k) (t, w1)" by (simp add: funpow_swap1 alone_def)
  then show ?case using Suc.IH [of "ts[i := t]" w1] Suc.prems s by simp
qed simp

lemma run_append: "run_threads K fs (is @ js) s = run_threads K fs js (run_threads K fs is s)"
  by (induction K fs "is" s rule: run_threads.induct) (simp_all split: prod.split)

text \<open>So a thread of several goes where it goes alone, while the others wait.\<close>

lemma run_reaches:
  assumes "reaches K fs (ts ! i, w) (t, w')" and "i < length ts"
  obtains s where "run_threads K fs s (ts, w) = (ts[i := t], w')"
proof -
  obtain k where "(alone K fs ^^ k) (ts ! i, w) = (t, w')" using assms(1) by (auto simp: reaches_def)
  then have "run_threads K fs (replicate k i) (ts, w) = (ts[i := t], w')" by (simp add: run_alone [OF assms(2)])
  then show thesis by (rule that)
qed

section \<open>Alone it does what the sequential function does\<close>

lemma lookup_reaches:
  "reaches K fs (Lookup n cs j, w)
     (case walk w (mem_nodes fs) cs n of None \<Rightarrow> Returned (-1) | Some d \<Rightarrow> Lookup d [] j, w)"
proof (induction w "mem_nodes fs" cs n rule: walk.induct)
  case (2 w name cs n)
  show ?case
  proof (cases "child w n name")
    case None
    then show ?thesis
      by (intro reaches_step) (auto simp: child_def entries_of_def reaches_refl btree_get_def split: node_kind.split)
  next
    case (Some i)
    then obtain es fd where es: "nd_kind (heap w n) = Directory es fd" "btree_get es name = Some i"
      by (auto simp: child_def entries_of_def btree_get_def split: node_kind.splits)
    show ?thesis
    proof (cases "node_from_map w (mem_nodes fs) i")
      case None
      then show ?thesis using es by (intro reaches_step) (simp, intro reaches_step, simp add: reaches_refl)
    next
      case (Some d)
      have "reaches K fs (Lookup d cs j, w)
          (case walk w (mem_nodes fs) cs d of None \<Rightarrow> Returned (-1) | Some d \<Rightarrow> Lookup d [] j, w)"
        by (rule 2 [OF es(1) es(2) Some])
      then show ?thesis using es Some by (intro reaches_step) (simp, intro reaches_step, simp)
    qed
  qed
qed (simp_all add: reaches_refl reaches_step)

lemma find_parent_reaches:
  assumes "resolve_parent_from_root p w (mem_nodes fs) (mem_root fs) = Done r"
  shows "reaches K fs (find_parent fs p job, w)
     (case r of None \<Rightarrow> Returned (-1) | Some (d, x) \<Rightarrow> Lookup d [] (job x), w)"
proof (cases "\<exists>pp x. parent_path p = Some pp \<and> file_name p = Some x")
  case False
  then have "r = None" "find_parent fs p job = Returned (-1)"
    using assms by (auto simp: resolve_parent_from_root_def find_parent_def bind_eq_Some_conv split: option.splits)
  then show ?thesis by (simp add: reaches_refl)
next
  case True
  then obtain pp x where x: "parent_path p = Some pp" "file_name p = Some x" by blast
  have r: "r = Option.bind (node_from_map w (mem_nodes fs) (mem_root fs))
      (\<lambda>n. Option.bind (walk w (mem_nodes fs) pp n) (\<lambda>d. Some (d, x)))"
    using assms x by (auto simp: resolve_parent_from_root_def resolve_from_root_def bind_eq_Some_conv Option.bind_assoc)
  show ?thesis
  proof (cases "node_from_map w (mem_nodes fs) (mem_root fs)")
    case None
    then show ?thesis using x r by (simp add: find_parent_def) (intro reaches_step, simp add: reaches_refl)
  next
    case (Some n)
    then show ?thesis
      using x r lookup_reaches [of K fs n pp "job x" w]
      by (simp add: find_parent_def) (intro reaches_step, cases "walk w (mem_nodes fs) pp n", simp_all)
  qed
qed

text \<open>The functions that the calls are.\<close>

fun sequential :: "'k kernel \<Rightarrow> memory_fs \<Rightarrow> call_at \<Rightarrow> ('k world, int) io" where
  "sequential K fs (CreateNode p kind mode) w =
     do { (r, w) \<leftarrow> create_node K fs p kind mode w; Done (case r of None \<Rightarrow> -1 | Some _ \<Rightarrow> 0, w) }"
| "sequential K fs (RemoveNode p kind) w = remove_node_at p (mem_nodes fs) (mem_root fs) kind w"
| "sequential K fs (RenameNode p q) w = rename_node_at p q (mem_nodes fs) (mem_root fs) w"

lemma remove_node_at_section:
  "remove_node_at p m root kind w =
     do { assert_absolute p;
          if p = [RootDir] then Done (-1, w)
          else do { r \<leftarrow> resolve_parent_from_root p w m root;
                    Done (case r of None \<Rightarrow> (-1, w) | Some (d, x) \<Rightarrow> remove_section m d x kind w) } }"
  unfolding remove_node_at_def remove_section_def ..

lemma create_reaches:
  assumes "sequential K fs (CreateNode p kind mode) w = Done (r, w')"
  shows "reaches K fs (start_call fs (CreateNode p kind mode), w) (Returned r, w')"
proof -
  obtain d where d: "resolve_parent_from_root p w (mem_nodes fs) (mem_root fs) = Done d"
    and r: "(r, w') = (let (r, w) = (case d of None \<Rightarrow> (None, w)
        | Some (d, x) \<Rightarrow> create_node_in_dir K d (mem_nodes fs) x kind mode w) in (case r of None \<Rightarrow> -1 | Some _ \<Rightarrow> 0, w))"
    using assms by (auto simp: create_node_def resolve_parent_eq bind_eq_Some_conv case_prod_beta)
  show ?thesis
    by (simp, rule reaches_trans [OF find_parent_reaches [OF d]])
      (use r in \<open>auto simp: reaches_refl split: option.splits prod.splits intro!: reaches_step\<close>)
qed

lemma remove_reaches:
  assumes "sequential K fs (RemoveNode p kind) w = Done (r, w')"
  shows "reaches K fs (start_call fs (RemoveNode p kind), w) (Returned r, w')"
proof (cases "p = [RootDir]")
  case True
  then show ?thesis using assms by (simp add: remove_node_at_section assert_absolute_def reaches_refl)
next
  case False
  then obtain d where d: "resolve_parent_from_root p w (mem_nodes fs) (mem_root fs) = Done d"
    and r: "(r, w') = (case d of None \<Rightarrow> (-1, w) | Some (d, x) \<Rightarrow> remove_section (mem_nodes fs) d x kind w)"
    using assms by (auto simp: remove_node_at_section bind_eq_Some_conv)
  show ?thesis
    using False by (simp, intro reaches_trans [OF find_parent_reaches [OF d]])
      (use r in \<open>auto simp: reaches_refl split: option.splits prod.splits intro!: reaches_step\<close>)
qed

text \<open>The six sections of a rename between two directories are \<open>rename_between\<close>.\<close>

lemma rename_between_put:
  assumes p: "nd_kind (heap w p) = Directory es fd" and q: "nd_kind (heap w q) = Directory es' fd'" and pq: "p \<noteq> q"
    and c: "btree_get es x = Some c" "node_from_map w m c = Some c" "\<not> (is_directory (heap w c) \<and> starts_with new old)"
    and free: "\<And>i. btree_get es' y = Some i \<Longrightarrow> i \<noteq> c \<and> node_from_map w m i = Some i \<and> can_replace_node (heap w c) (heap w i)"
    and mv: "mv_new_parent mv = q" "mv_new_name mv = y"
  shows "rename_between old new p es x q es' y m w =
     (0, put_section m mv c (update_node p (set_entries (btree_remove x es)) w))"
proof -
  let ?w = "update_node p (set_entries (btree_remove x es)) w"
  have "entries_of (heap ?w q) = es'" using q pq by (simp add: heap_update_node entries_of_def)
  then show ?thesis
    using c free by (auto simp: rename_between_def put_section_def mv Let_def split: option.split)
qed

lemma move_reaches:
  fixes fs :: memory_fs and mv :: move
  defines "m \<equiv> mem_nodes fs" and "p \<equiv> mv_old_parent mv" and "q \<equiv> mv_new_parent mv"
  assumes p: "nd_kind (heap w p) = Directory es fd" and q: "nd_kind (heap w q) = Directory es' fd'" and pq: "p \<noteq> q"
    and run: "rename_between (mv_old_path mv) (mv_new_path mv) p es (mv_old_name mv) q es' (mv_new_name mv) m w = (r, w')"
  shows "reaches K fs (ReadOld mv, w) (Returned r, w')"
proof -
  have e: "entries_of (heap w p) = es" "entries_of (heap w q) = es'" using p q by (simp_all add: entries_of_def)
  let ?c = "btree_get es (mv_old_name mv)" and ?i = "btree_get es' (mv_new_name mv)"
  show ?thesis
  proof (cases "\<exists>c. ?c = Some c \<and> node_from_map w m c = Some c \<and>
      \<not> (is_directory (heap w c) \<and> starts_with (mv_new_path mv) (mv_old_path mv))")
    case False
    have fail: "r = -1" "w' = w" using False run by (auto simp: rename_between_def node_from_map_def split: option.splits if_splits)
    show ?thesis
    proof (cases ?c)
      case None
      then show ?thesis using e fail by (intro reaches_step) (simp add: p_def reaches_refl)
    next
      case (Some c)
      then have "reaches K fs (FetchOld mv c, w) (Returned r, w')"
        using False fail by (intro reaches_step) (auto simp: m_def node_from_map_def reaches_refl)
      then show ?thesis using e Some by (intro reaches_step) (simp add: p_def)
    qed
  next
    case True
    then obtain c where c: "?c = Some c" "node_from_map w m c = Some c"
      "\<not> (is_directory (heap w c) \<and> starts_with (mv_new_path mv) (mv_old_path mv))" by blast
    have "reaches K fs (ReadNew mv c, w) (Returned r, w')"
    proof (cases "\<forall>i. ?i = Some i \<longrightarrow> i \<noteq> c \<and> node_from_map w m i = Some i \<and> can_replace_node (heap w c) (heap w i)")
      case free: True
      have "(r, w') = (0, put_section m mv c (update_node p (set_entries (btree_remove (mv_old_name mv) es)) w))"
        using rename_between_put [OF p q pq c, of "mv_new_name mv" mv] free run by (simp add: q_def)
      then have "reaches K fs (TakeOld mv c, w) (Returned r, w')"
        using e by (intro reaches_step) (simp add: p_def, intro reaches_step, simp add: m_def reaches_refl)
      then show ?thesis
        using e free by (intro reaches_step) (cases ?i, auto simp: q_def m_def intro!: reaches_step)
    next
      case taken: False
      then obtain i where i: "?i = Some i" "\<not> (i \<noteq> c \<and> node_from_map w m i = Some i \<and> can_replace_node (heap w c) (heap w i))"
        by blast
      then have "(r, w') = (if i = c then 0 else -1, w)"
        using run c by (auto simp: rename_between_def node_from_map_def Let_def split: if_splits)
      then have "reaches K fs (FetchReplaced mv c i, w) (Returned r, w')"
        using i(2) by (intro reaches_step) (auto simp: m_def node_from_map_def reaches_refl)
      then show ?thesis using e i(1) by (intro reaches_step) (simp add: q_def)
    qed
    then have "reaches K fs (FetchOld mv c, w) (Returned r, w')" using c by (intro reaches_step) (auto simp: m_def)
    then show ?thesis using e c by (intro reaches_step) (simp add: p_def)
  qed
qed

lemma rename_reaches:
  assumes "sequential K fs (RenameNode p q) w = Done (r, w')"
  shows "reaches K fs (start_call fs (RenameNode p q), w) (Returned r, w')"
proof (cases "p = [RootDir] \<or> q = [RootDir] \<or> p = q")
  case True
  then show ?thesis
    using assms by (auto simp: rename_node_at_def assert_absolute_def reaches_refl split: if_splits)
next
  case False
  let ?m = "mem_nodes fs"
  obtain ro where ro: "resolve_parent_from_root p w ?m (mem_root fs) = Done ro"
    using assms False by (auto simp: rename_node_at_def bind_eq_Some_conv)
  note start = reaches_trans [OF find_parent_reaches [OF ro, of K "RenameFrom p q"]]
  show ?thesis
  proof (cases ro)
    case None
    then have "r = -1" "w' = w" using assms False ro by (auto simp: rename_node_at_def bind_eq_Some_conv)
    then show ?thesis using False None by (simp, intro start) (simp add: reaches_refl)
  next
    case (Some a)
    obtain d x where a: "a = (d, x)" by fastforce
    obtain rn where rn: "resolve_parent_from_root q w ?m (mem_root fs) = Done rn"
      using assms False ro Some a by (auto simp: rename_node_at_def bind_eq_Some_conv)
    have res: "(r, w') = (case rn of None \<Rightarrow> (-1, w)
              | Some (e, y) \<Rightarrow>
                (case (nd_kind (heap w d), nd_kind (heap w e)) of
                   (Directory es _, Directory es' _) \<Rightarrow>
                     if nd_id (heap w d) = nd_id (heap w e) then rename_in_dir p q d es x y ?m w
                     else rename_between p q d es x e es' y ?m w
                 | _ \<Rightarrow> (-1, w)))"
      using assms False ro Some a rn by (simp add: rename_node_at_def bind_eq_Some_conv)
    have "reaches K fs (find_parent fs q (RenameTo p q d x), w) (Returned r, w')"
    proof (rule reaches_trans [OF find_parent_reaches [OF rn]], cases rn)
      case None
      then show "reaches K fs (case rn of None \<Rightarrow> Returned (-1) | Some (e, y) \<Rightarrow> Lookup e [] (RenameTo p q d x y), w) (Returned r, w')"
        using res by (simp add: reaches_refl)
    next
      case (Some b)
      obtain e y where b: "b = (e, y)" by fastforce
      have "reaches K fs (Lookup e [] (RenameTo p q d x y), w) (Returned r, w')"
      proof (cases "\<exists>es fd es' fd'. nd_kind (heap w d) = Directory es fd \<and> nd_kind (heap w e) = Directory es' fd' \<and>
          nd_id (heap w d) \<noteq> nd_id (heap w e)")
        case True
        then obtain es fd es' fd' where k: "nd_kind (heap w d) = Directory es fd" "nd_kind (heap w e) = Directory es' fd'"
          "nd_id (heap w d) \<noteq> nd_id (heap w e)" by blast
        let ?mv = "\<lparr>mv_old_path = p, mv_new_path = q, mv_old_parent = d, mv_old_name = x, mv_new_parent = e, mv_new_name = y\<rparr>"
        have "d \<noteq> e" using k(3) by blast
        then have "reaches K fs (ReadOld ?mv, w) (Returned r, w')"
          using move_reaches [of w ?mv es fd es' fd' fs r w' K] k(1,2) res [symmetric] Some b k(3) by simp
        then show ?thesis using k by (intro reaches_step) simp
      next
        case False
        then show ?thesis
          using res Some b
          by (intro reaches_step) (auto simp: reaches_refl split: node_kind.splits prod.splits)
      qed
      then show "reaches K fs (case rn of None \<Rightarrow> Returned (-1) | Some (e, y) \<Rightarrow> Lookup e [] (RenameTo p q d x y), w) (Returned r, w')"
        using Some b by simp
    qed
    then show ?thesis
      using False Some a by (simp, intro start) (simp, intro reaches_step, simp)
  qed
qed

lemma returned_stays: "(alone K fs ^^ k) (Returned r, w) = (Returned r, w)"
  by (induction k) (simp_all add: alone_def)

lemma reaches_unique:
  assumes "reaches K fs s (Returned r, w)" and "reaches K fs s (Returned r', w')"
  shows "r = r' \<and> w = w'"
proof -
  obtain a b where a: "(alone K fs ^^ a) s = (Returned r, w)" and b: "(alone K fs ^^ b) s = (Returned r', w')"
    using assms by (auto simp: reaches_def)
  have "(alone K fs ^^ (b + a)) s = (Returned r, w)" "(alone K fs ^^ (a + b)) s = (Returned r', w')"
    using a b returned_stays by (simp_all only: funpow_add comp_apply)
  then show ?thesis by (simp add: add.commute)
qed

section \<open>How many steps a call takes\<close>

fun job_steps :: "job \<Rightarrow> nat" where
  "job_steps (RenameFrom _ new _) = 2 * length new + 8"
| "job_steps (RenameTo _ _ _ _ _) = 6"
| "job_steps _ = 0"

fun steps_left :: "thread \<Rightarrow> nat" where
  "steps_left (Fetch _ cs j) = 2 * length cs + 2 + job_steps j"
| "steps_left (Lookup _ cs j) = 2 * length cs + 1 + job_steps j"
| "steps_left (ReadOld _) = 6"
| "steps_left (FetchOld _ _) = 5"
| "steps_left (ReadNew _ _) = 4"
| "steps_left (FetchReplaced _ _ _) = 3"
| "steps_left (TakeOld _ _) = 2"
| "steps_left (PutNew _ _) = 1"
| "steps_left (Returned _) = 0"

fun call_steps :: "call_at \<Rightarrow> nat" where
  "call_steps (CreateNode p _ _) = 2 * length p + 2"
| "call_steps (RemoveNode p _) = 2 * length p + 2"
| "call_steps (RenameNode p q) = 2 * length p + 2 * length q + 10"

lemma find_parent_steps: "(\<And>x. job_steps (job x) = n) \<Longrightarrow> steps_left (find_parent fs p job) \<le> 2 * length p + 2 + n"
  by (auto simp: find_parent_def parent_path_def split: option.splits)

lemma start_steps: "steps_left (start_call fs c) \<le> call_steps c"
proof (cases c)
  case (CreateNode p kind mode)
  then show ?thesis using find_parent_steps [of "\<lambda>x. CreateIn x kind mode" 0] by simp
next
  case (RemoveNode p kind)
  then show ?thesis using find_parent_steps [of "\<lambda>x. RemoveFrom x kind" 0] by simp
next
  case (RenameNode p q)
  then show ?thesis using find_parent_steps [of "RenameFrom p q" "2 * length q + 8" fs p] by simp
qed

lemma thread_step_less: "0 < steps_left t \<Longrightarrow> steps_left (fst (thread_step K fs t w)) < steps_left t"
proof (induction K fs t w rule: thread_step.induct)
  case (2 K fs n j w)
  have "steps_left (fst (do_job K fs n j w)) < 1 + job_steps j"
  proof (cases j)
    case (RenameFrom old new x)
    then show ?thesis
      using find_parent_steps [of "RenameTo old new n x" 6 fs new] by (simp add: le_imp_less_Suc)
  qed (auto split: prod.split node_kind.split)
  then show ?case by simp
qed (auto split: option.split node_kind.split)

lemma alone_returns: "steps_left t \<le> k \<Longrightarrow> \<exists>r w'. (alone K fs ^^ k) (t, w) = (Returned r, w')"
proof (induction k arbitrary: t w)
  case 0
  then show ?case by (cases t) auto
next
  case (Suc k)
  obtain t1 w1 where s: "alone K fs (t, w) = (t1, w1)" by fastforce
  have "steps_left t1 \<le> k"
  proof (cases "steps_left t")
    case 0
    then have "t1 = t" using s by (cases t) (auto simp: alone_def)
    then show ?thesis using 0 by simp
  next
    case (Suc n)
    then show ?thesis using thread_step_less [of t K fs w] s Suc.prems by (simp add: alone_def)
  qed
  then show ?case using Suc.IH [of t1 w1] s by (simp add: funpow_swap1)
qed



end
