(* ===== verification/Interleavings.thy ===== *)
theory Interleavings
  imports Threads
begin

text \<open>
  Which interleavings of threads keep the invariant of the in-memory file system, and which do not.
  A thread may hold a directory that another one has removed, and create, remove or rename in it; so
  the names are no longer a tree of the nodes in the map alone (\<open>shared_tree\<close>). Creations, removals and
  renames within a directory keep it in every interleaving. Renames between two directories do not.
\<close>

section \<open>Names that threads share\<close>

text \<open>\<open>A\<close> are the nodes that were ever created, \<open>N\<close> those in the node map.\<close>

definition shared_tree :: "'a set \<Rightarrow> 'a set \<Rightarrow> 'a \<Rightarrow> 'a child \<Rightarrow> ('a \<Rightarrow> 'a option) \<Rightarrow> bool" where
  "shared_tree N A r ch pa \<longleftrightarrow>
     r \<in> N \<and> N \<subseteq> A \<and> pa r = Some r \<and>
     (\<forall>d \<in> A. \<forall>x c. ch d x = Some c \<longrightarrow>
        c \<in> A \<and> c \<noteq> r \<and> (c \<in> N \<longrightarrow> pa c = Some d) \<and> (d \<in> N \<longrightarrow> c \<in> N)) \<and>
     (\<forall>d \<in> A. \<forall>x y c. ch d x = Some c \<longrightarrow> ch d y = Some c \<longrightarrow> x = y)"

lemma shared_tree_child:
  "shared_tree N A r ch pa \<Longrightarrow> d \<in> A \<Longrightarrow> ch d x = Some c \<Longrightarrow>
     c \<in> A \<and> c \<noteq> r \<and> (c \<in> N \<longrightarrow> pa c = Some d) \<and> (d \<in> N \<longrightarrow> c \<in> N)"
  unfolding shared_tree_def by blast

lemma shared_tree_inj:
  "shared_tree N A r ch pa \<Longrightarrow> d \<in> A \<Longrightarrow> ch d x = Some c \<Longrightarrow> ch d y = Some c \<Longrightarrow> x = y"
  unfolding shared_tree_def by blast

lemma shared_treeI:
  assumes "r \<in> N" "N \<subseteq> A" "pa r = Some r"
    and "\<And>d x c. d \<in> A \<Longrightarrow> ch d x = Some c \<Longrightarrow> c \<in> A \<and> c \<noteq> r \<and> (c \<in> N \<longrightarrow> pa c = Some d) \<and> (d \<in> N \<longrightarrow> c \<in> N)"
    and "\<And>d x y c. d \<in> A \<Longrightarrow> ch d x = Some c \<Longrightarrow> ch d y = Some c \<Longrightarrow> x = y"
  shows "shared_tree N A r ch pa"
  unfolding shared_tree_def using assms by blast

lemma shared_name_tree: "shared_tree N A r ch pa \<Longrightarrow> name_tree N r ch pa"
  unfolding shared_tree_def name_tree_def by blast

lemma shared_tree_insert:
  assumes t: "shared_tree N A r ch pa" and i: "i \<notin> A" and p: "p \<in> A"
  shows "shared_tree (insert i N) (insert i A) r (child_insert p x i ch) (pa(i := Some p))"
proof -
  have fresh: "ch d y \<noteq> Some i" if "d \<in> A" for d y
    using shared_tree_child [OF t that] i by blast
  have ip: "i \<noteq> p" "i \<noteq> r" using i p t by (auto simp: shared_tree_def)
  show ?thesis
    using t fresh ip unfolding shared_tree_def child_insert_def by (auto split: if_splits)
qed

lemma shared_tree_delete:
  assumes t: "shared_tree N A r ch pa" and d: "d \<in> A" and c: "ch d x = Some c"
  shows "shared_tree (N - {c}) A r (child_delete d x ch) (pa(c := None))"
proof -
  have cr: "c \<noteq> r" using shared_tree_child [OF t d c] by blast
  have only: "e = d \<and> y = x" if "e \<in> N" "ch e y = Some c" for e y
  proof -
    have "e \<in> A" using t that(1) by (auto simp: shared_tree_def)
    then have "c \<in> N" "pa c = Some e" using shared_tree_child [OF t _ that(2)] that(1) by auto
    then have "e = d" using shared_tree_child [OF t d c] by simp
    then show ?thesis using shared_tree_inj [OF t d c] that(2) by blast
  qed
  show ?thesis
  proof (rule shared_treeI)
    show "r \<in> N - {c}" "N - {c} \<subseteq> A" "(pa(c := None)) r = Some r" using t cr by (auto simp: shared_tree_def)
    show "e \<in> A \<and> e \<noteq> r \<and> (e \<in> N - {c} \<longrightarrow> (pa(c := None)) e = Some b) \<and> (b \<in> N - {c} \<longrightarrow> e \<in> N - {c})"
      if "b \<in> A" "child_delete d x ch b y = Some e" for b y e
      using that only [of b y] shared_tree_child [OF t that(1), of y e] by (auto simp: child_delete_apply split: if_splits)
    show "y = z" if "b \<in> A" "child_delete d x ch b y = Some e" "child_delete d x ch b z = Some e" for b y z e
      using that shared_tree_inj [OF t that(1), of y e z] by (auto simp: child_delete_apply split: if_splits)
  qed
qed

lemma shared_tree_forget:
  assumes t: "shared_tree N A r ch pa"
  shows "shared_tree N A r (child_delete d x ch) pa"
  using t unfolding shared_tree_def child_delete_def by (auto split: if_splits)

lemma shared_tree_rename:
  assumes t: "shared_tree N A r ch pa" and d: "d \<in> A" and c: "ch d x = Some c" and y: "ch d y = None"
  shows "shared_tree N A r (ch(d := (ch d)(x := None, y := Some c))) pa"
proof -
  have x: "z = x" if "ch d z = Some c" for z using shared_tree_inj [OF t d c that] by simp
  show ?thesis
  proof (rule shared_treeI)
    show "r \<in> N" "N \<subseteq> A" "pa r = Some r" using t by (auto simp: shared_tree_def)
    show "e \<in> A \<and> e \<noteq> r \<and> (e \<in> N \<longrightarrow> pa e = Some b) \<and> (b \<in> N \<longrightarrow> e \<in> N)"
      if "b \<in> A" "(ch(d := (ch d)(x := None, y := Some c))) b z = Some e" for b z e
      using that shared_tree_child [OF t that(1), of z e] shared_tree_child [OF t d c] by (auto split: if_splits)
    show "u = v" if "b \<in> A" "(ch(d := (ch d)(x := None, y := Some c))) b u = Some e"
      "(ch(d := (ch d)(x := None, y := Some c))) b v = Some e" for b u v e
      using that shared_tree_inj [OF t that(1), of u e v] x by (auto split: if_splits)
  qed
qed

section \<open>The invariant of interleaved threads\<close>

definition shared_inv :: "map_ref \<Rightarrow> node_id set \<Rightarrow> 'k world \<Rightarrow> bool" where
  "shared_inv m A w \<longleftrightarrow>
     shared_tree (node_maps w m) A m (child w) (parent_of w) \<and> (\<forall>r. r \<noteq> m \<longrightarrow> node_maps w r = {}) \<and>
     (\<forall>a \<in> A. a < next_node_id w \<and> nd_id (heap w a) = a \<and> btree_sorted (entries_of (heap w a))) \<and>
     is_directory (heap w m) \<and> (\<forall>i \<in> node_maps w m. nd_links (heap w i) = 1)"

lemma shared_invD:
  assumes "shared_inv m A w"
  shows "shared_tree (node_maps w m) A m (child w) (parent_of w)" "\<And>r. r \<noteq> m \<Longrightarrow> node_maps w r = {}"
    "\<And>a. a \<in> A \<Longrightarrow> a < next_node_id w \<and> nd_id (heap w a) = a \<and> btree_sorted (entries_of (heap w a))"
    "is_directory (heap w m)" "\<And>i. i \<in> node_maps w m \<Longrightarrow> nd_links (heap w i) = 1"
    "m \<in> node_maps w m" "node_maps w m \<subseteq> A"
  using assms by (simp_all add: shared_inv_def shared_tree_def)

lemma shared_world_inv:
  assumes w: "shared_inv m A w"
  shows "world_inv w"
proof -
  note s = shared_invD [OF w]
  have "node_ok w i" if "i \<in> node_maps w m" for i using s(3,5,7) that by (auto simp: node_ok_def)
  then have "mem_inv w m" using s(4) shared_name_tree [OF s(1)] by (simp add: mem_inv_def)
  moreover have "node_maps w r \<inter> node_maps w r' = {}" if "r \<noteq> r'" for r r' using s(2) that by (cases "r = m") auto
  moreover have "r = m" if "node_maps w r \<noteq> {}" for r using s(2) that by blast
  ultimately show ?thesis unfolding world_inv_def by blast
qed

lemma shared_inv_same:
  assumes w: "shared_inv m A w" and st: "same_tree w w'"
  shows "shared_inv m A w'"
  using w same_tree_next [OF st]
  by (auto simp: shared_inv_def same_tree_child [OF st] same_tree_parent [OF st] same_tree_maps [OF st] same_tree_heap [OF st])

lemma shared_inv_create:
  assumes w: "shared_inv m A w" and p: "p \<in> A" and run: "create_node_in_dir K p m x kind mode w = (r, w')"
  shows "\<exists>A'. A \<subseteq> A' \<and> shared_inv m A' w'"
proof -
  note s = shared_invD [OF w]
  let ?i = "next_node_id w"
  have old: "p < ?i" "nd_id (heap w p) = p" "btree_sorted (entries_of (heap w p))" using s(3) [OF p] by auto
  from create_node_in_dir_cases [OF run old(1)] show ?thesis
  proof
    assume "r = None \<and> same_tree w w'"
    then show ?thesis using shared_inv_same [OF w] by blast
  next
    assume new: "r = Some ?i \<and> is_directory (heap w p) \<and> child w p x = None \<and>
        memfd_ok K kind w \<and> w' = add_node K p m x kind mode w"
    then have w': "w' = add_node K p m x kind mode w" and dir: "is_directory (heap w p)" by auto
    note f = add_node_fields [OF old(1) dir old(3), of K m x kind mode, folded w']
    have i: "?i \<notin> A" using s(3) by blast
    have "shared_tree (node_maps w' m) (insert ?i A) m (child w') (parent_of w')"
      using shared_tree_insert [OF s(1) i p, of x] by (simp add: f old(2))
    then have "shared_inv m (insert ?i A) w'"
      using s i old dir unfolding shared_inv_def f(1,2,5)
      by (auto simp: mem_simps less_Suc_eq bt.invar_insert bt.invar_empty)
    then show ?thesis by blast
  qed
qed

lemma shared_inv_remove:
  assumes w: "shared_inv m A w" and d: "d \<in> A" and run: "remove_section m d x kind w = (r, w')"
  shows "shared_inv m A w'"
proof (cases "child w d x")
  case None
  then have "w' = w"
    using run by (auto simp: remove_section_def child_def entries_of_def split: node_kind.splits)
  then show ?thesis using w by simp
next
  case (Some c)
  note s = shared_invD [OF w]
  have dir: "is_directory (heap w d)" using Some by (rule child_directory)
  then obtain es fd where es: "nd_kind (heap w d) = Directory es fd" "entries_of (heap w d) = es"
    by (auto simp: is_directory_def entries_of_def split: node_kind.splits)
  have c: "btree_get es x = Some c" using Some es by (simp add: child_def)
  have sorted: "btree_sorted es" using s(3) [OF d] es by simp
  have get: "btree_get (btree_remove x es) = (child w d)(x := None)"
    using bt.get_remove [OF sorted] es by (simp add: child_def fun_eq_iff)
  let ?w1 = "update_node d (set_entries (btree_remove x es)) w"
  have ch: "child ?w1 = child_delete d x (child w)" using dir by (simp add: child_set_entries get child_delete_def)
  have cm: "c \<noteq> m" using shared_tree_child [OF s(1) d Some] by blast
  show ?thesis
  proof (cases "c \<in> node_maps w m")
    case False
    then have "w' = ?w1" using run es c by (simp add: remove_section_def node_from_map_def)
    then show ?thesis
      using shared_tree_forget [OF s(1), of d x] s sorted dir unfolding shared_inv_def
      by (auto simp: ch mem_simps intro: bt.invar_remove)
  next
    case True
    then have "w' = w \<or> w' = nodes_remove m c (detach_node c ?w1)"
      using run es c by (auto simp: remove_section_def node_from_map_def Let_def split: if_splits)
    then show ?thesis
      using w shared_tree_delete [OF s(1) d Some] s sorted dir cm unfolding shared_inv_def
      by (auto simp: ch mem_simps intro: bt.invar_remove)
  qed
qed

lemma shared_inv_rename:
  assumes w: "shared_inv m A w" and d: "d \<in> A" and es: "nd_kind (heap w d) = Directory es fd"
    and run: "rename_in_dir old new d es x y m w = (r, w')"
  shows "shared_inv m A w'"
proof (cases "w' = w")
  case False
  note s = shared_invD [OF w]
  have ent: "entries_of (heap w d) = es" and dir: "is_directory (heap w d)"
    using es by (simp_all add: entries_of_def is_directory_def)
  have sorted: "btree_sorted es" using s(3) [OF d] ent by simp
  obtain c where c: "btree_get es x = Some c" "btree_get es y \<noteq> Some c" "c \<in> node_maps w m"
    using run False by (auto simp: rename_in_dir_def node_from_map_def split: option.splits if_splits)
  have cx: "child w d x = Some c" using c ent by (simp add: child_def)
  let ?es = "btree_insert y c (btree_remove x es)"
  have get: "btree_get ?es = (child w d)(x := None, y := Some c)"
    using bt.get_insert_remove [OF sorted] ent by (simp add: child_def fun_eq_iff)
  have srt: "btree_sorted ?es" by (intro bt.invar_insert bt.invar_remove sorted)
  show ?thesis
  proof (cases "btree_get es y")
    case None
    then have w': "w' = update_node d (set_entries ?es) w"
      using run c False by (auto simp: rename_in_dir_def node_from_map_def split: if_splits)
    have "child w d y = None" using None ent by (simp add: child_def)
    then show ?thesis
      using shared_tree_rename [OF s(1) d cx, of y] s srt dir unfolding shared_inv_def w'
      by (auto simp: child_set_entries get mem_simps)
  next
    case (Some e)
    have e: "e \<in> node_maps w m" "e \<noteq> d" and w': "w' = update_node d (set_entries ?es) (nodes_remove m e (detach_node e w))"
      using run c False Some es
      by (auto simp: rename_in_dir_def node_from_map_def can_replace_iff entries_of_def Let_def btree_get_def
          split: if_splits)
    have ey: "child w d y = Some e" using Some ent by (simp add: child_def)
    have em: "e \<noteq> m" using shared_tree_child [OF s(1) d ey] by blast
    have "x \<noteq> y" "e \<noteq> c" using c Some by auto
    then have t: "shared_tree (node_maps w m - {e}) A m ((child w)(d := (child w d)(x := None, y := Some c))) ((parent_of w)(e := None))"
      using shared_tree_rename [OF shared_tree_delete [OF s(1) d ey] d, of x c y] cx by (simp add: child_delete_def fun_upd_twist)
    show ?thesis
      using t s srt dir e em unfolding shared_inv_def w'
      by (auto simp: child_set_entries get mem_simps)
  qed
qed (use w in simp)

section \<open>Threads that create, remove and rename within a directory\<close>

fun held_by_job :: "job \<Rightarrow> node_id set" where
  "held_by_job (RenameTo _ _ p _ _) = {p}"
| "held_by_job _ = {}"

fun held :: "thread \<Rightarrow> node_id set" where
  "held (Fetch _ _ j) = held_by_job j"
| "held (Lookup n _ j) = insert n (held_by_job j)"
| "held _ = {}"

text \<open>About to take an entry out of one directory and to put it into another.\<close>

fun between :: "thread \<Rightarrow> bool" where
  "between (TakeOld _ _) = True"
| "between (PutNew _ _) = True"
| "between _ = False"

lemma held_find_parent: "held (find_parent fs p job) \<subseteq> (\<Union>x. held_by_job (job x))"
  by (auto simp: find_parent_def split: option.splits)

lemma held_start: "held (start_call fs c) = {}"
  using held_find_parent by (cases c) (fastforce split: if_splits)+

lemma thread_step_shared:
  assumes w: "shared_inv (mem_nodes fs) A w" and t: "held t \<subseteq> A" "\<not> between t"
    and run: "thread_step K fs t w = (t', w')"
  shows "\<exists>A'. A \<subseteq> A' \<and> shared_inv (mem_nodes fs) A' w' \<and> held t' \<subseteq> A'"
proof -
  note s = shared_invD [OF w]
  have quiet: ?thesis if "w' = w" "held t' \<subseteq> A" using that w by blast
  have others: ?thesis if "\<And>n cs j. t \<noteq> Fetch n cs j" "\<And>n cs j. t \<noteq> Lookup n cs j"
  proof -
    have "w' = w \<and> held t' = {}" using run t that by (cases t) (auto split: option.splits if_splits)
    then show ?thesis by (intro quiet) auto
  qed
  show ?thesis
  proof (cases t)
    case (Fetch i cs j)
    then show ?thesis
      using run t s(7) by (intro quiet) (auto simp: node_from_map_def split: option.splits if_splits)
  next
    case (Lookup n cs j)
    then have n: "n \<in> A" "held_by_job j \<subseteq> A" using t by auto
    show ?thesis
    proof (cases cs)
      case Nil
      then have job: "do_job K fs n j w = (t', w')" using run Lookup by simp
      show ?thesis
      proof (cases j)
        case (CreateIn x kind mode)
        then obtain r where "create_node_in_dir K n (mem_nodes fs) x kind mode w = (r, w')" "held t' = {}"
          using job by (auto split: prod.splits)
        then show ?thesis using shared_inv_create [OF w n(1)] by auto
      next
        case (RemoveFrom x kind)
        then obtain r where "remove_section (mem_nodes fs) n x kind w = (r, w')" "held t' = {}"
          using job by (auto split: prod.splits)
        then show ?thesis using shared_inv_remove [OF w n(1)] by auto
      next
        case (RenameFrom old new x)
        then have "w' = w" "t' = find_parent fs new (RenameTo old new n x)" using job by auto
        then show ?thesis using held_find_parent [of fs new "RenameTo old new n x"] n by (intro quiet) auto
      next
        case (RenameTo old new p x y)
        show ?thesis
        proof (cases "\<exists>es fd r. nd_kind (heap w p) = Directory es fd \<and> t' = Returned r \<and>
            rename_in_dir old new p es x y (mem_nodes fs) w = (r, w')")
          case True
          then show ?thesis using shared_inv_rename [OF w, of p] n RenameTo by auto
        next
          case False
          then have "w' = w" "held t' = {}"
            using job RenameTo by (auto split: node_kind.splits if_splits prod.splits)
          then show ?thesis by (intro quiet) auto
        qed
      qed
    next
      case (Cons c cs')
      then have "w' = w" "held t' \<subseteq> held t"
        using run Lookup by (cases c; auto split: node_kind.splits option.splits)+
      then show ?thesis using t by (intro quiet) auto
    qed
  qed (use run t others in auto)
qed

text \<open>All states that a schedule passes through.\<close>

fun run_states :: "'k kernel \<Rightarrow> memory_fs \<Rightarrow> nat list \<Rightarrow> thread list \<times> 'k world \<Rightarrow> (thread list \<times> 'k world) list" where
  "run_states K fs [] s = [s]"
| "run_states K fs (i # is) s = s # run_states K fs is (run_threads K fs [i] s)"

lemma run_threads_shared:
  assumes "shared_inv (mem_nodes fs) A w" and "\<forall>t \<in> set ts. held t \<subseteq> A"
    and "\<forall>s \<in> set (run_states K fs is (ts, w)). \<forall>t \<in> set (fst s). \<not> between t"
    and "run_threads K fs is (ts, w) = (ts', w')"
  shows "\<exists>A'. shared_inv (mem_nodes fs) A' w'"
  using assms
proof (induction "is" arbitrary: A ts w)
  case (Cons i "is")
  show ?case
  proof (cases "i < length ts")
    case True
    obtain t w1 where t: "thread_step K fs (ts ! i) w = (t, w1)" by fastforce
    have "held (ts ! i) \<subseteq> A" "\<not> between (ts ! i)" using Cons.prems(2,3) True by auto
    then obtain A' where A': "A \<subseteq> A'" "shared_inv (mem_nodes fs) A' w1" "held t \<subseteq> A'"
      using thread_step_shared [OF Cons.prems(1) _ _ t] by blast
    have "\<forall>u \<in> set (ts[i := t]). held u \<subseteq> A'"
      using Cons.prems(2) A' set_update_subset_insert [of ts i t] by blast
    moreover have "run_threads K fs [i] (ts, w) = (ts[i := t], w1)" using True t by simp
    ultimately show ?thesis
      using Cons.IH [OF A'(2)] Cons.prems(3,4) True t by simp
  next
    case False
    then show ?thesis using Cons.IH [OF Cons.prems(1,2)] Cons.prems(3,4) by simp
  qed
qed auto

lemma shared_inv_new:
  assumes "memory_fs_new K name (boot k) = (fs, w)"
  shows "shared_inv (mem_nodes fs) {mem_nodes fs} w" "mem_root fs = mem_nodes fs"
proof -
  show "mem_root fs = mem_nodes fs"
    using assms by (auto simp: memory_fs_new_def Let_def split: prod.splits)
  have "btree_sorted []" by (rule bt.invar_empty)
  then show "shared_inv (mem_nodes fs) {mem_nodes fs} w"
    using assms
    by (auto simp: shared_inv_def shared_tree_def memory_fs_new_def fetch_add_node_id_def create_memfd_def boot_def Let_def
        child_def parent_of_def entries_of_def is_directory_def btree_get_def split: prod.splits)
qed

text \<open>C38: Any number of threads create, remove and rename in a new in-memory file system, in any interleaving
  of their locked sections: as long as no rename takes an entry from one directory to another, the
  invariant of the sequential file system holds in every state. So no path is lost and no node gets two
  paths, also when a directory is removed while another thread works in it.\<close>

theorem interleavings_keep_tree:
  assumes "memory_fs_new K name (boot k) = (fs, w)"
    and "\<forall>s \<in> set (run_states K fs is (map (start_call fs) calls, w)). \<forall>t \<in> set (fst s). \<not> between t"
    and "run_threads K fs is (map (start_call fs) calls, w) = (ts', w')"
  shows "world_inv w' \<and> live w' fs"
proof -
  note new = shared_inv_new [OF assms(1)]
  obtain A where A: "shared_inv (mem_nodes fs) A w'"
    using run_threads_shared [OF new(1) _ assms(2,3)] by (auto simp: held_start)
  then show ?thesis using shared_world_inv [OF A] shared_invD(6) [OF A] new(2) by (auto simp: live_def)
qed

text \<open>One thread makes \<open>/d\<close>, one looks it up for \<open>/d/f\<close>, one removes it before the file is created in it.\<close>

definition race_calls :: "call_at list" where
  "race_calls =
     [CreateNode (names_path [''d'']) DirKind 0x1ED, CreateNode (names_path [''d'', ''f'']) FileKind 0x1A4,
      RemoveNode (names_path [''d'']) DirKind, RenameNode (names_path [''d'', ''f'']) (names_path [''d'', ''g''])]"

definition race_schedule :: "nat list" where
  "race_schedule = [0, 1, 0, 3, 0, 2, 1, 1, 3, 1, 2, 2, 1, 3, 3]"

theorem interleavings_keep_tree_witness:
  "\<exists>w w'. memory_fs_new sample_kernel ''mem'' (boot 3) = (sample_fs, w) \<and>
     run_threads sample_kernel sample_fs race_schedule (map (start_call sample_fs) race_calls, w) =
       ([Returned 0, Returned 0, Returned 0, Returned (-1)], w') \<and>
     world_inv w' \<and> live w' sample_fs \<and> node_maps w' 1 = {3, 1}"
proof -
  define w where "w = snd (memory_fs_new sample_kernel ''mem'' (boot 3))"
  have new: "memory_fs_new sample_kernel ''mem'' (boot 3) = (sample_fs, w)"
    by (simp add: w_def prod_eq_iff memory_fs_new_def fetch_add_node_id_def create_memfd_def sample_fs_def
        sample_kernel_def boot_def)
  let ?run = "run_threads sample_kernel sample_fs race_schedule (map (start_call sample_fs) race_calls, w)"
  have safe: "\<forall>s \<in> set (run_states sample_kernel sample_fs race_schedule (map (start_call sample_fs) race_calls, w)).
      \<forall>t \<in> set (fst s). \<not> between t" unfolding w_def by code_simp
  have run: "fst ?run = [Returned 0, Returned 0, Returned 0, Returned (-1)]" "node_maps (snd ?run) 1 = {3, 1}"
    unfolding w_def by code_simp+
  then have r: "?run = ([Returned 0, Returned 0, Returned 0, Returned (-1)], snd ?run)" by (simp add: prod_eq_iff)
  show ?thesis using interleavings_keep_tree [OF new safe r] new r run(2) by blast
qed

end
