(* ===== verification/Races.thy ===== *)
theory Races
  imports Threads
begin

text \<open>
  Two threads that rename the same file to other directories, with the pieces of their calls interleaved:
  each looks the source up before the other has taken it, so both go ahead.
\<close>

text \<open>The move that a rename of a file to a free name is about to make.\<close>

definition file_move :: "string list \<Rightarrow> string \<Rightarrow> string list \<Rightarrow> string \<Rightarrow> node_id \<Rightarrow> node_id \<Rightarrow> move" where
  "file_move ps x qs y p q =
     \<lparr>mv_old_path = names_path (ps @ [x]), mv_new_path = names_path (qs @ [y]), mv_old_parent = p, mv_old_name = x,
      mv_new_parent = q, mv_new_name = y\<rparr>"

lemma names_path_butlast: "butlast (names_path (ns @ [n])) = names_path ns"
  by (simp add: names_path_def)

lemma rename_ready:
  assumes w: "world_inv w" "live w fs" and p: "view w fs ps = Some p" and c: "child w p x = Some c" "\<not> is_directory (heap w c)"
    and q: "view w fs qs = Some q" "is_directory (heap w q)" "child w q y = None" and pq: "ps \<noteq> qs"
  shows "reaches K fs (start_call fs (RenameNode (names_path (ps @ [x])) (names_path (qs @ [y]))), w)
           (TakeOld (file_move ps x qs y p q) c, w)"
proof -
  let ?m = "mem_nodes fs" and ?mv = "file_move ps x qs y p q"
  let ?old = "names_path (ps @ [x])" and ?new = "names_path (qs @ [y])"
  have inv: "mem_inv w ?m" "mem_root fs = ?m" using live_inv [OF w] by auto
  have pN: "p \<in> node_maps w ?m" and qN: "q \<in> node_maps w ?m" using view_in [OF w] p q(1) by blast+
  have ne: "p \<noteq> q" using lookup_unique [OF mem_inv_tree [OF inv(1)]] p q(1) pq by (auto simp: view_def inv(2))
  have ids: "nd_id (heap w p) = p" "nd_id (heap w q) = q"
    using world_inv_in [OF w(1) pN] world_inv_in [OF w(1) qN] by (simp_all add: node_ok_def)
  have cN: "c \<in> node_maps w ?m" using mem_inv_child [OF inv(1) pN c(1)] by simp
  obtain es fd where es: "nd_kind (heap w p) = Directory es fd" "entries_of (heap w p) = es" "btree_get es x = Some c"
    using c(1) by (rule child_kind)
  obtain es' fd' where es': "nd_kind (heap w q) = Directory es' fd'" "entries_of (heap w q) = es'" "btree_get es' y = None"
    using q(2,3) by (auto simp: is_directory_def child_def entries_of_def split: node_kind.splits)
  have parents: "resolve_parent_from_root ?old w ?m (mem_root fs) = Done (Some (p, x))"
    "resolve_parent_from_root ?new w ?m (mem_root fs) = Done (Some (q, y))"
    using p q(1) by (simp_all add: inv resolve_parent_names path_simps view_def names_path_butlast)
  have "reaches K fs (ReadNew ?mv c, w) (TakeOld ?mv c, w)"
    using es' by (intro reaches_step) (simp add: file_move_def reaches_refl)
  then have "reaches K fs (FetchOld ?mv c, w) (TakeOld ?mv c, w)"
    using cN c(2) by (intro reaches_step) (simp add: node_from_map_def)
  then have "reaches K fs (ReadOld ?mv, w) (TakeOld ?mv c, w)"
    using es by (intro reaches_step) (simp add: file_move_def)
  then have "reaches K fs (Lookup q [] (RenameTo ?old ?new p x y), w) (TakeOld ?mv c, w)"
    using es es' ids ne by (intro reaches_step) (simp add: file_move_def)
  then have "reaches K fs (find_parent fs ?new (RenameTo ?old ?new p x), w) (TakeOld ?mv c, w)"
    using find_parent_reaches [OF parents(2), of K "RenameTo ?old ?new p x"] reaches_trans by (simp add: reaches_trans)
  then have "reaches K fs (Lookup p [] (RenameFrom ?old ?new x), w) (TakeOld ?mv c, w)"
    by (intro reaches_step) simp
  then show ?thesis
    using find_parent_reaches [OF parents(1), of K "RenameFrom ?old ?new"] pq by (auto intro: reaches_trans)
qed

text \<open>The last two steps, when the target name is free.\<close>

definition after_move :: "map_ref \<Rightarrow> move \<Rightarrow> node_id \<Rightarrow> 'k world \<Rightarrow> 'k world" where
  "after_move m mv c w =
     put_section m mv c (update_node (mv_old_parent mv)
       (set_entries (btree_remove (mv_old_name mv) (entries_of (heap w (mv_old_parent mv))))) w)"

lemma two_steps:
  assumes "i < length ts" "ts ! i = TakeOld mv c"
  shows "run_threads K fs [i, i] (ts, w) = (ts[i := Returned 0], after_move (mem_nodes fs) mv c w)"
  using assms by (simp add: after_move_def)

lemma after_move_reaches: "reaches K fs (TakeOld mv c, w) (Returned 0, after_move (mem_nodes fs) mv c w)"
  by (intro reaches_step) (simp, intro reaches_step, simp add: after_move_def reaches_refl)

lemma lookup_more:
  assumes "\<And>d x e. ch d x = Some e \<Longrightarrow> ch' d x = Some e"
  shows "lookup_names ch xs n = Some e \<Longrightarrow> lookup_names ch' xs n = Some e"
  by (induction xs arbitrary: n) (auto simp: bind_eq_Some_conv dest: assms)

lemma walk_in_map: "walk w m cs n = Some a \<Longrightarrow> n \<in> node_maps w m \<Longrightarrow> a \<in> node_maps w m"
  by (induction w m cs n rule: walk.induct)
    (auto simp: bind_eq_Some_conv node_from_map_def split: node_kind.splits if_splits)

text \<open>A second move of the node, whose old entry is gone.\<close>

lemma second_move:
  fixes ps qs :: "string list" and y :: string
  assumes w: "world_inv w" "live w fs" and m: "m = mem_nodes fs"
    and p: "p \<in> node_maps w m" "is_directory (heap w p)" "child w p x = None"
    and q: "q \<in> node_maps w m" "is_directory (heap w q)" "p \<noteq> q" and c: "c \<in> node_maps w m" "\<not> is_directory (heap w c)"
  defines "w' \<equiv> after_move m (file_move ps x qs y p q) c w"
  shows "child w q y = None \<Longrightarrow> node_maps w' = node_maps w \<and> child w' = (child w)(q := (child w q)(y := Some c))"
    and "child w q y = Some c \<Longrightarrow> c \<notin> node_maps w' m"
proof -
  let ?es = "entries_of (heap w p)"
  let ?w1 = "update_node p (set_entries (btree_remove x ?es)) w"
  have "btree_sorted ?es" using world_inv_in [OF w(1) p(1)] by (simp add: node_ok_def)
  then have "btree_get (btree_remove x ?es) = child w p"
    using p(3) by (simp add: get_btree_remove child_def fun_eq_iff)
  then have c1: "child ?w1 = child w" using p(2) by (simp add: child_set_entries)
  have q1: "is_directory (heap ?w1 q)" "entries_of (heap ?w1 q) = entries_of (heap w q)" using q by (simp_all add: heap_update_node)
  let ?w2 = "update_node q (set_entries (btree_insert y c (entries_of (heap ?w1 q)))) ?w1"
  have "btree_get (btree_insert y c (entries_of (heap ?w1 q))) = (child w q)(y := Some c)"
    by (simp add: q1(2) get_btree_insert child_def fun_eq_iff)
  then have c2: "child ?w2 = (child w)(q := (child w q)(y := Some c))" using q1(1) by (simp add: child_set_entries c1)
  have old: "btree_get (entries_of (heap ?w1 q)) y = child w q y" by (simp add: q1(2) child_def)
  have w': "w' = put_section m (file_move ps x qs y p q) c ?w1" by (simp add: w'_def after_move_def file_move_def)
  have w'_eq: "w' = (let w3 = (case child w q y of None \<Rightarrow> ?w2
        | Some i \<Rightarrow> nodes_remove m i (case node_from_map ?w2 m i of None \<Rightarrow> ?w2 | Some r \<Rightarrow> detach_node r ?w2))
      in update_node c (\<lambda>n. n\<lparr>nd_parent := Some (nd_id (heap w3 q))\<rparr>) w3)"
    by (simp only: w' put_section_def file_move_def move.simps Let_def old)
  show "node_maps w' = node_maps w \<and> child w' = (child w)(q := (child w q)(y := Some c))" if "child w q y = None"
    unfolding w'_eq that Let_def option.simps child_parent_writes c2 by (simp add: world_update_node)
  show "c \<notin> node_maps w' m" if "child w q y = Some c"
    unfolding w'_eq that Let_def option.simps world_update_node by (simp add: mem_simps)
qed

text \<open>Paths of a renamed file, from the specification of \<open>rename\<close>.\<close>

lemma file_no_child:
  assumes "world_inv w" "live w fs" "abs_fs w fs ns = Some (c, FileKind)"
  shows "abs_fs w fs (ns @ x # xs) = None"
proof -
  have c: "view w fs ns = Some c" "\<not> is_directory (heap w c)"
    using assms(3) by (auto simp: abs_fs_def entry_kind_dir split: if_splits)
  then have "view w fs (ns @ x # xs) = None" using child_file [OF c(2)] by (simp add: view_def lookup_append)
  then show ?thesis by (simp add: abs_fs_def)
qed

lemma missing_no_child: "abs_fs w fs ns = None \<Longrightarrow> abs_fs w fs (ns @ xs) = None"
  by (simp add: abs_fs_def view_def lookup_append)

text \<open>A file and a free name in another directory, in terms of nodes.\<close>

definition movable :: "'k world \<Rightarrow> memory_fs \<Rightarrow> string list \<Rightarrow> string \<Rightarrow> node_id \<Rightarrow> node_id \<Rightarrow> string list \<Rightarrow> string \<Rightarrow> node_id \<Rightarrow> bool" where
  "movable w fs ps x p c qs y q \<longleftrightarrow>
     view w fs ps = Some p \<and> child w p x = Some c \<and> \<not> is_directory (heap w c) \<and>
     view w fs qs = Some q \<and> is_directory (heap w q) \<and> child w q y = None \<and> ps \<noteq> qs"

lemma movable_abs:
  assumes "abs_fs w fs (ps @ [x]) = Some (c, FileKind)" and "map_option snd (abs_fs w fs qs) = Some DirKind"
    and "abs_fs w fs (qs @ [y]) = None" and "qs \<noteq> ps"
  obtains p q where "movable w fs ps x p c qs y q"
  using assms by (auto simp: movable_def abs_fs_def view_snoc bind_eq_Some_conv entry_kind_dir split: if_splits)

text \<open>Of the two threads the first that goes on does what \<open>rename\<close> does alone.\<close>

lemma first_move:
  assumes w: "world_inv w" "live w fs" and mv: "movable w fs ps x p c qs y q"
    and t: "spec_rename (abs_fs w fs) (ps @ [x]) (qs @ [y]) = Some t"
  defines "w2 \<equiv> after_move (mem_nodes fs) (file_move ps x qs y p q) c w"
  shows "good_step w w2" "abs_fs w2 fs = t"
proof -
  let ?t = "start_call fs (RenameNode (names_path (ps @ [x])) (names_path (qs @ [y])))"
  obtain w' where seq: "rename_node_at (names_path (ps @ [x])) (names_path (qs @ [y])) (mem_nodes fs) (mem_root fs) w = Done (0, w')"
    "good_step w w'" "abs_fs w' fs = t"
    using rename_refines [OF w, of "ps @ [x]" "qs @ [y]"] t
      rename_step [OF w names_path_absolute names_path_absolute, of "ps @ [x]" "qs @ [y]"] by auto
  have "reaches K fs (?t, w) (Returned 0, w')" for K by (rule rename_reaches) (simp add: seq(1))
  moreover have "reaches K fs (?t, w) (Returned 0, w2)" for K
    using reaches_trans [OF rename_ready [OF w] after_move_reaches] mv by (simp add: w2_def movable_def)
  ultimately have "w' = w2" using reaches_unique by blast
  then show "good_step w w2" "abs_fs w2 fs = t" using seq by simp_all
qed

text \<open>Paths of a renamed file, from the specification of \<open>rename\<close>.\<close>

lemma renamed_paths:
  assumes w: "world_inv w" "live w fs" and c: "abs_fs w fs (ps @ [x]) = Some (c, FileKind)"
    and q: "map_option snd (abs_fs w fs qs) = Some DirKind" "abs_fs w fs (qs @ [y]) = None" "qs \<noteq> ps"
    and t: "spec_rename (abs_fs w fs) (ps @ [x]) (qs @ [y]) = Some t"
  shows "t (qs @ [y]) = Some (c, FileKind)" "t (ps @ [x]) = None"
    "abs_fs w fs zs \<noteq> None \<Longrightarrow> zs \<noteq> ps @ [x] \<Longrightarrow> t zs = abs_fs w fs zs"
    "map_option snd (abs_fs w fs rs) = Some DirKind \<Longrightarrow> abs_fs w fs (rs @ [z]) = None \<Longrightarrow> qs @ [y] \<noteq> rs @ [z] \<Longrightarrow> t (rs @ [z]) = None"
proof -
  have spec: "t us = (if prefix (qs @ [y]) us then abs_fs w fs ((ps @ [x]) @ drop (length (qs @ [y])) us)
      else if prefix (ps @ [x]) us then None else abs_fs w fs us)" for us
    using t c q by (auto simp: spec_rename_def split: if_splits)
  have below: "\<not> prefix (qs @ [y]) us" if "abs_fs w fs us \<noteq> None" for us
    using missing_no_child [OF q(2)] that by (auto simp: prefix_def)
  show "t (qs @ [y]) = Some (c, FileKind)" using c by (simp add: spec)
  show "t (ps @ [x]) = None" using below c by (simp add: spec del: prefix_snoc)
  show "t zs = abs_fs w fs zs" if z: "abs_fs w fs zs \<noteq> None" "zs \<noteq> ps @ [x]"
  proof -
    have "\<not> prefix (ps @ [x]) zs"
    proof
      assume "prefix (ps @ [x]) zs"
      then obtain u us where "zs = (ps @ [x]) @ u # us" using z(2) by (metis append_Nil2 list.exhaust prefixE)
      then show False using file_no_child [OF w c] z(1) by simp
    qed
    then show ?thesis using below [OF z(1)] by (simp add: spec)
  qed
  assume r: "map_option snd (abs_fs w fs rs) = Some DirKind" "abs_fs w fs (rs @ [z]) = None" "qs @ [y] \<noteq> rs @ [z]"
  then have "\<not> prefix (qs @ [y]) rs" using below [of rs] by auto
  then have "\<not> prefix (qs @ [y]) (rs @ [z])" using r(3) by (simp only: prefix_snoc simp_thms)
  then show "t (rs @ [z]) = None" using r(2) by (simp add: spec del: prefix_snoc)
qed

text \<open>The second thread goes on in a world where its file has moved already.\<close>

definition moved :: "'k world \<Rightarrow> memory_fs \<Rightarrow> string list \<Rightarrow> string \<Rightarrow> node_id \<Rightarrow> node_id \<Rightarrow> string list \<Rightarrow> node_id \<Rightarrow> bool" where
  "moved w fs ps x p c rs e \<longleftrightarrow>
     p \<in> node_maps w (mem_nodes fs) \<and> is_directory (heap w p) \<and> child w p x = None \<and>
     e \<in> node_maps w (mem_nodes fs) \<and> is_directory (heap w e) \<and> p \<noteq> e \<and>
     c \<in> node_maps w (mem_nodes fs) \<and> \<not> is_directory (heap w c) \<and> view w fs rs = Some e"

lemma second_move_lost:
  assumes w: "world_inv w" "live w fs" and mv: "moved w fs ps x p c rs e" and y: "child w e z = Some c"
    and u: "is_absolute u"
  shows "resolve fs u (after_move (mem_nodes fs) (file_move ps x rs z p e) c w) \<noteq> Done (Some c)"
proof
  let ?m = "mem_nodes fs" and ?w = "after_move (mem_nodes fs) (file_move ps x rs z p e) c w"
  have out: "c \<notin> node_maps ?w ?m" using second_move(2) [OF w refl] mv y by (simp add: moved_def)
  assume "resolve fs u ?w = Done (Some c)"
  then obtain n where "node_from_map ?w ?m (mem_root fs) = Some n" "walk ?w ?m u n = Some c"
    using u by (auto simp: resolve_eq resolve_from_root_def bind_eq_Some_conv)
  then show False using walk_in_map [of ?w ?m u n c] out by (auto simp: node_from_map_def split: if_splits)
qed

lemma second_move_twice:
  assumes w: "world_inv w" "live w fs" and mv: "moved w fs ps x p c rs e" and z: "child w e z = None"
    and old: "view w fs us = Some c"
  defines "w4 \<equiv> after_move (mem_nodes fs) (file_move ps x rs z p e) c w"
  shows "resolve fs (names_path us) w4 = Done (Some c) \<and> resolve fs (names_path (rs @ [z])) w4 = Done (Some c)"
proof -
  let ?m = "mem_nodes fs"
  have inv: "mem_inv w ?m" "mem_root fs = ?m" using live_inv [OF w] by auto
  have w4: "node_maps w4 = node_maps w" "child w4 = (child w)(e := (child w e)(z := Some c))"
    using second_move(1) [OF w refl] mv z by (auto simp: moved_def w4_def)
  have closed: "b \<in> node_maps w4 ?m" if "a \<in> node_maps w4 ?m" "child w4 a u = Some b" for a u b
    using that mv mem_inv_child [OF inv(1)] by (auto simp: w4 moved_def split: if_splits)
  have "walk w4 ?m cs ?m = lookup_names (child w4) (names_of cs) ?m" for cs
    by (rule walk_closed) (erule (1) closed, simp add: mem_root_in [OF inv(1)] w4(1))
  then have res: "resolve fs (names_path vs) w4 = Done (lookup_names (child w4) vs ?m)" for vs
    using mem_root_in [OF inv(1)] by (simp add: resolve_eq resolve_from_root_def node_from_map_def inv(2) w4(1))
  have more: "lookup_names (child w4) vs ?m = Some i" if "view w fs vs = Some i" for vs i
  proof (rule lookup_more [of "child w"])
    show "lookup_names (child w) vs ?m = Some i" using that by (simp add: view_def inv(2))
    show "child w4 a u = Some b" if "child w a u = Some b" for a u b using that z by (auto simp: w4(2))
  qed
  have "lookup_names (child w4) (rs @ [z]) ?m = Some c" using more [of rs e] mv by (simp add: lookup_snoc w4(2) moved_def)
  then show ?thesis using more [OF old] by (simp add: res)
qed

text \<open>How far the two threads get before one of them goes on.\<close>

lemma race_schedule_exists:
  fixes K :: "'k kernel"
  assumes w: "world_inv w" "live w fs" and mv: "movable w fs ps x p c qs y q" "movable w fs ps x p c rs z e"
  shows "\<exists>is. run_threads K fs is
       ([start_call fs (RenameNode (names_path (ps @ [x])) (names_path (qs @ [y]))),
         start_call fs (RenameNode (names_path (ps @ [x])) (names_path (rs @ [z])))], w) =
     ([Returned 0, Returned 0],
       after_move (mem_nodes fs) (file_move ps x rs z p e) c (after_move (mem_nodes fs) (file_move ps x qs y p q) c w))"
proof -
  let ?t0 = "start_call fs (RenameNode (names_path (ps @ [x])) (names_path (qs @ [y])))"
    and ?t1 = "start_call fs (RenameNode (names_path (ps @ [x])) (names_path (rs @ [z])))"
    and ?mv0 = "file_move ps x qs y p q" and ?mv1 = "file_move ps x rs z p e"
  have ready: "reaches K fs (?t0, w) (TakeOld ?mv0 c, w)" "reaches K fs (?t1, w) (TakeOld ?mv1 c, w)"
    using rename_ready [OF w] mv by (simp_all add: movable_def)
  obtain s0 where s0: "run_threads K fs s0 ([?t0, ?t1], w) = ([TakeOld ?mv0 c, ?t1], w)"
    using run_reaches [of K fs "[?t0, ?t1]" 0 w] ready(1) by auto
  obtain s1 where s1: "run_threads K fs s1 ([TakeOld ?mv0 c, ?t1], w) = ([TakeOld ?mv0 c, TakeOld ?mv1 c], w)"
    using run_reaches [of K fs "[TakeOld ?mv0 c, ?t1]" 1 w] ready(2) by auto
  let ?w2 = "after_move (mem_nodes fs) ?mv0 c w"
  have "run_threads K fs (s0 @ s1 @ [0, 0] @ [1, 1]) ([?t0, ?t1], w) = ([Returned 0, Returned 0], after_move (mem_nodes fs) ?mv1 c ?w2)"
    unfolding run_append s0 s1
    using two_steps [of 0 "[TakeOld ?mv0 c, TakeOld ?mv1 c]" ?mv0 c K fs w]
      two_steps [of 1 "[Returned 0, TakeOld ?mv1 c]" ?mv1 c K fs ?w2] by simp
  then show ?thesis by (rule exI)
qed

lemma moved_after_first:
  assumes w: "world_inv w" "live w fs" and c: "abs_fs w fs (ps @ [x]) = Some (c, FileKind)"
    and q: "map_option snd (abs_fs w fs qs) = Some DirKind" "abs_fs w fs (qs @ [y]) = None" "qs \<noteq> ps"
    and r: "map_option snd (abs_fs w fs rs) = Some DirKind" "rs \<noteq> ps"
    and mv: "view w fs ps = Some p" "view w fs rs = Some e"
    and w2: "world_inv w2" "live w2 fs" "spec_rename (abs_fs w fs) (ps @ [x]) (qs @ [y]) = Some (abs_fs w2 fs)"
  shows "moved w2 fs ps x p c rs e" "view w2 fs (qs @ [y]) = Some c"
proof -
  note paths = renamed_paths [OF w c q w2(3)]
  have dirs: "abs_fs w fs ps = Some (p, DirKind)" "abs_fs w fs rs = Some (e, DirKind)"
    using c r(1) mv child_directory [of w p x] by (auto simp: abs_fs_def view_snoc entry_kind_dir split: if_splits)
  moreover have "ps \<noteq> ps @ [x]" "rs \<noteq> ps @ [x]" using dirs c by auto
  ultimately have "abs_fs w2 fs ps = Some (p, DirKind)" "abs_fs w2 fs rs = Some (e, DirKind)" using paths(3) by simp_all
  then have v: "view w2 fs ps = Some p" "view w2 fs rs = Some e" "is_directory (heap w2 p)" "is_directory (heap w2 e)"
    by (auto simp: abs_fs_def entry_kind_dir split: if_splits)
  have v': "view w2 fs (qs @ [y]) = Some c" "\<not> is_directory (heap w2 c)" "child w2 p x = None"
    using paths(1,2) v(1) by (auto simp: abs_fs_def entry_kind_dir view_snoc bind_eq_Some_conv split: if_splits)
  have "p \<noteq> e"
    using lookup_unique [OF mem_inv_tree, of w "mem_nodes fs" ps p rs] live_inv [OF w] mv r(2) by (auto simp: view_def)
  then show "moved w2 fs ps x p c rs e" "view w2 fs (qs @ [y]) = Some c"
    using v v' view_in [OF w2(1,2)] by (auto simp: moved_def)
qed

text \<open>C39: Two threads that rename the same file to two other directories can both succeed. If the new names
  differ, the file then has two paths; if they are the same, it has none: the second rename takes the
  entry of the first for a replaced file and removes it. Run one after the other, the second rename
  fails. No lock is held between the lookup of the source and its removal.\<close>

theorem racing_renames:
  assumes w: "world_inv w" "live w fs" and c: "abs_fs w fs (ps @ [x]) = Some (c, FileKind)"
    and q: "map_option snd (abs_fs w fs qs) = Some DirKind" "abs_fs w fs (qs @ [y]) = None" "qs \<noteq> ps"
    and r: "map_option snd (abs_fs w fs rs) = Some DirKind" "abs_fs w fs (rs @ [z]) = None" "rs \<noteq> ps"
  shows "\<exists>is w'. run_threads K fs is
       ([start_call fs (RenameNode (names_path (ps @ [x])) (names_path (qs @ [y]))),
         start_call fs (RenameNode (names_path (ps @ [x])) (names_path (rs @ [z])))], w) = ([Returned 0, Returned 0], w') \<and>
     (if qs @ [y] = rs @ [z] then \<forall>p. is_absolute p \<longrightarrow> resolve fs p w' \<noteq> Done (Some c)
      else resolve fs (names_path (qs @ [y])) w' = Done (Some c) \<and> resolve fs (names_path (rs @ [z])) w' = Done (Some c))"
proof -
  obtain p d p' e where mv: "movable w fs ps x p c qs y d" "movable w fs ps x p' c rs z e"
    using movable_abs [OF c q] movable_abs [OF c r] by metis
  then have mv1: "movable w fs ps x p c rs z e" and v: "view w fs ps = Some p" "view w fs rs = Some e" by (auto simp: movable_def)
  obtain t where t: "spec_rename (abs_fs w fs) (ps @ [x]) (qs @ [y]) = Some t" using c q by (auto simp: spec_rename_def)
  define w2 where "w2 = after_move (mem_nodes fs) (file_move ps x qs y p d) c w"
  note first = first_move [OF w mv(1) t, folded w2_def]
  have w2: "world_inv w2" "live w2 fs" using first(1) evolves_live [OF _ w(2)] by (auto simp: good_step_def)
  note second = moved_after_first [OF w c q r(1,3) v w2 t [folded first(2)]]
  obtain "is" where run: "run_threads K fs is
       ([start_call fs (RenameNode (names_path (ps @ [x])) (names_path (qs @ [y]))),
         start_call fs (RenameNode (names_path (ps @ [x])) (names_path (rs @ [z])))], w) =
     ([Returned 0, Returned 0], after_move (mem_nodes fs) (file_move ps x rs z p e) c w2)"
    using race_schedule_exists [OF w mv(1) mv1] w2_def by blast
  show ?thesis
  proof (cases "qs @ [y] = rs @ [z]")
    case True
    then have "child w2 e z = Some c" using second by (auto simp: moved_def view_snoc)
    note lost = second_move_lost [OF w2 second(1) this]
    show ?thesis unfolding if_P [OF True] by (intro exI conjI allI impI) (rule run, erule lost)
  next
    case False
    then have "abs_fs w2 fs (rs @ [z]) = None" using renamed_paths(4) [OF w c q t r(1,2)] first(2) by simp
    then have "child w2 e z = None" using second(1) by (simp add: moved_def abs_fs_def view_snoc)
    note twice = second_move_twice [OF w2 second(1) this second(2)]
    show ?thesis unfolding if_not_P [OF False] by (intro exI conjI) (rule run, rule conjunct1 [OF twice], rule conjunct2 [OF twice])
  qed
qed

theorem racing_renames_witness:
  "(\<exists>is w'. run_threads sample_kernel sample_fs is
       ([start_call sample_fs (RenameNode (names_path [''d'', ''f'']) (names_path [''x''])),
         start_call sample_fs (RenameNode (names_path [''d'', ''f'']) (names_path [''y'']))], sample_world) = ([Returned 0, Returned 0], w') \<and>
       resolve sample_fs (names_path [''x'']) w' = Done (Some 3) \<and> resolve sample_fs (names_path [''y'']) w' = Done (Some 3)) \<and>
   (\<exists>is w'. run_threads sample_kernel sample_fs is
       ([start_call sample_fs (RenameNode (names_path [''d'', ''f'']) (names_path [''x''])),
         start_call sample_fs (RenameNode (names_path [''d'', ''f'']) (names_path [''x'']))], sample_world) = ([Returned 0, Returned 0], w') \<and>
       resolve sample_fs (names_path [''x'']) w' \<noteq> Done (Some 3))"
proof -
  have f: "abs_fs sample_world sample_fs ([''d''] @ [''f'']) = Some (3, FileKind)"
    "map_option snd (abs_fs sample_world sample_fs []) = Some DirKind" "abs_fs sample_world sample_fs ([] @ [''x'']) = None"
    "abs_fs sample_world sample_fs ([] @ [''y'']) = None" by code_simp+
  have ne: "[] \<noteq> [''d'']" by simp
  note race = racing_renames [OF sample_ok f(1) f(2,3) ne f(2) _ ne, of _ sample_kernel]
  show ?thesis
  proof (rule conjI)
    show "\<exists>is w'. run_threads sample_kernel sample_fs is
       ([start_call sample_fs (RenameNode (names_path [''d'', ''f'']) (names_path [''x''])),
         start_call sample_fs (RenameNode (names_path [''d'', ''f'']) (names_path [''y'']))], sample_world) = ([Returned 0, Returned 0], w') \<and>
       resolve sample_fs (names_path [''x'']) w' = Done (Some 3) \<and> resolve sample_fs (names_path [''y'']) w' = Done (Some 3)"
      using race [OF f(4)] by (simp del: start_call.simps)
    show "\<exists>is w'. run_threads sample_kernel sample_fs is
       ([start_call sample_fs (RenameNode (names_path [''d'', ''f'']) (names_path [''x''])),
         start_call sample_fs (RenameNode (names_path [''d'', ''f'']) (names_path [''x'']))], sample_world) = ([Returned 0, Returned 0], w') \<and>
       resolve sample_fs (names_path [''x'']) w' \<noteq> Done (Some 3)"
    proof -
      obtain "is" w' where "run_threads sample_kernel sample_fs is
         ([start_call sample_fs (RenameNode (names_path [''d'', ''f'']) (names_path [''x''])),
           start_call sample_fs (RenameNode (names_path [''d'', ''f'']) (names_path [''x'']))], sample_world) = ([Returned 0, Returned 0], w')"
        and "\<forall>p. is_absolute p \<longrightarrow> resolve sample_fs p w' \<noteq> Done (Some 3)"
        using race [OF f(3)] by (simp del: start_call.simps) (elim exE conjE)
      then show ?thesis using names_path_absolute by (intro exI conjI) (assumption, blast)
    qed
  qed
qed

end
