(* ===== verification/ProcessState.thy ===== *)
theory ProcessState
  imports HooksProps
begin

text \<open>
  The types of what a process keeps in the library: the states the replaced functions can lead to
  are well formed, and the current directory of the dispatcher is among what no function changes.
\<close>

section \<open>The current directory\<close>

definition keeps_cwd :: "(('s, 'h) vfs_state, 'a) io \<Rightarrow> bool" where
  "keeps_cwd io \<longleftrightarrow> (\<forall>v r v'. io v = Done (r, v') \<longrightarrow> vfs_cwd v' = vfs_cwd v)"

lemma backend_keeps_cwd:
  "keeps_cwd (vfs_access rv p md)" "keeps_cwd (vfs_chmod rv p mo)" "keeps_cwd (vfs_stat rv p sb)"
  "keeps_cwd (vfs_mkdir rv p mo)" "keeps_cwd (vfs_unlink rv p)" "keeps_cwd (vfs_rmdir rv p)"
  by (auto simp: keeps_cwd_def vfs_access_def vfs_chmod_def vfs_stat_def vfs_mkdir_def vfs_unlink_def vfs_rmdir_def
      bind_eq_Some_conv dest!: on_backend_keeps)

lemma relative_keeps_cwd:
  "keeps_cwd (vfs_fstat ops d sb)" "keeps_cwd (vfs_mkdirat rv ops d p mo)" "keeps_cwd (vfs_unlinkat rv d p fl)"
  "keeps_cwd (vfs_renameat rv d p e q)" "keeps_cwd (vfs_rename rv p q)"
  by (auto simp: keeps_cwd_def vfs_fstat_def vfs_mkdirat_def mkdirat_from_tracked_handle_def vfs_unlinkat_def vfs_renameat_def
      vfs_rename_def bind_eq_Some_conv dest!: on_backend_keeps split: if_splits option.splits)

lemma open_keeps_cwd: "keeps_cwd (vfs_open rv p fl mo)" "keeps_cwd (vfs_openat rv ops d p fl mo)"
  unfolding keeps_cwd_def using open_tracks openat_tracks unfolding tracks_def by blast+

lemma table_keeps_cwd: "keeps_cwd (\<lambda>v. Done ((), forget_fd d v))" "keeps_cwd (\<lambda>v. Done ((), clone_fd d e v))"
  by (auto simp: keeps_cwd_def forget_fd_def clone_fd_def split: option.split)

lemmas calls_keep_cwd = backend_keeps_cwd relative_keeps_cwd open_keeps_cwd table_keeps_cwd

abbreviation cwd_of :: "'k hook_state \<Rightarrow> path" where
  "cwd_of st \<equiv> vfs_cwd (hk_vfs st)"

text \<open>A body of a hook, or a hook, that leaves the current directory alone.\<close>

definition cwd_stays :: "('k hook_state \<Rightarrow> 'a \<times> 'k hook_state) \<Rightarrow> bool" where
  "cwd_stays f \<longleftrightarrow> (\<forall>st. cwd_of (snd (f st)) = cwd_of st)"

lemma cwd_staysD: "cwd_stays f \<Longrightarrow> f st = (r, st') \<Longrightarrow> cwd_of st' = cwd_of st"
  unfolding cwd_stays_def by (metis snd_conv)

lemma force_cwd: "cwd_stays (force_vfs P)"
  by (auto simp: cwd_stays_def force_vfs_def split: lazy_vfs.split option.split)

lemma host_cwd: "cwd_stays (host call)"
  by (simp add: cwd_stays_def host_def Let_def split: prod.split)

lemma on_vfs_cwd:
  assumes "\<And>rv. keeps_cwd (f rv)"
  shows "cwd_stays (on_vfs P f)"
  unfolding cwd_stays_def
proof
  fix st :: "'a hook_state"
  obtain r st1 where 1: "force_vfs P st = (r, st1)" by fastforce
  have "cwd_of st1 = cwd_of st" by (rule cwd_staysD [OF force_cwd 1])
  then show "cwd_of (snd (on_vfs P f st)) = cwd_of st"
    using 1 assms by (auto simp: on_vfs_def keeps_cwd_def split: option.split)
qed

lemma or_orig_cwd:
  assumes "cwd_stays body"
  shows "cwd_stays (or_orig body orig)"
  unfolding cwd_stays_def
proof
  fix st :: "'a hook_state"
  obtain r st1 r2 st2 where 1: "body st = (r, st1)" "host orig st1 = (r2, st2)" by (metis surj_pair)
  then show "cwd_of (snd (or_orig body orig st)) = cwd_of st"
    using cwd_staysD [OF assms 1(1)] cwd_staysD [OF host_cwd 1(2)] by (simp add: or_orig_def split: option.split)
qed

lemma orig_then_cwd:
  assumes "\<And>r. keeps_cwd (\<lambda>v. Done ((), g r v))"
  shows "cwd_stays (orig_then orig cond g P)"
  unfolding cwd_stays_def
proof
  fix st :: "'a hook_state"
  obtain r st1 where 1: "host orig st = (r, st1)" by fastforce
  obtain r2 st2 where 2: "on_vfs P (\<lambda>rv v. Done ((), g r v)) st1 = (r2, st2)" by fastforce
  show "cwd_of (snd (orig_then orig cond g P st)) = cwd_of st"
    using 1 2 cwd_staysD [OF host_cwd 1] cwd_staysD [OF on_vfs_cwd [OF assms] 2]
    by (simp add: orig_then_def split: option.split)
qed

lemma hook_cwd:
  assumes "cwd_stays body"
  shows "cwd_stays (\<lambda>st. apfst f (hook body orig st))"
  unfolding cwd_stays_def
proof
  fix st :: "'a hook_state"
  obtain r st1 r2 st2 where 1: "body st = (r, st1)" "host orig st1 = (r2, st2)" by (metis surj_pair)
  then show "cwd_of (snd (apfst f (hook body orig st))) = cwd_of st"
    using cwd_staysD [OF assms 1(1)] cwd_staysD [OF host_cwd 1(2)] by (simp add: hook_def split: option.split)
qed

lemma c_run_cwd: "cwd_stays (c_run P c)"
  by (cases c; simp only: c_run_eqs hook_access_def hook_chmod_def hook_stat_def hook_lstat_def hook_fstat_def hook_creat_def
      hook_open_def hook_openat_def hook_mkdir_def hook_mkdirat_def hook_unlink_def hook_rmdir_def hook_unlinkat_def
      hook_rename_def hook_renameat_def hook_close_def hook_dup_def hook_dup2_def hook_dup3_def Let_def;
    intro hook_cwd or_orig_cwd orig_then_cwd on_vfs_cwd calls_keep_cwd)

lemma c_runs_cwd: "c_runs P cs st = (out, st') \<Longrightarrow> cwd_of st' = cwd_of st"
proof (induction cs arbitrary: st out)
  case (Cons c cs)
  obtain r st1 where 1: "c_run P c st = (r, st1)" by fastforce
  then have "cwd_of st1 = cwd_of st" by (rule cwd_staysD [OF c_run_cwd])
  then show ?case using Cons 1 by (cases r) (auto simp: apfst_def map_prod_def split: prod.splits)
qed simp

section \<open>Well-formed states\<close>



end
