(* ===== verification/FileWriter.thy ===== *)
theory FileWriter
  imports MemoryMode
begin

text \<open>
  \<open>src/src/bin/file_writer.rs\<close>: the program that writes a line to a file, as it runs below the
  preloaded library. \<open>std::fs::write\<close> opens with \<open>open64\<close> and closes with \<open>close\<close>, which are the
  hooks; \<open>write\<close> and \<open>errno\<close> are not replaced, they are the parameter \<open>std_libc\<close>. The loops of the
  standard library that repeat an interrupted call may run forever, which is the value \<open>None\<close> of a
  \<open>partial_function\<close>. Failures of writing to the standard error stream are not modelled.
\<close>

section \<open>The standard library\<close>

record 'k std_libc =
  s_write :: "fd \<Rightarrow> string \<Rightarrow> 'k \<Rightarrow> int \<times> 'k"
  s_errno :: "'k \<Rightarrow> int"
  s_strerror :: "int \<Rightarrow> string"

abbreviation (input) EINTR :: int where "EINTR \<equiv> 4"
abbreviation (input) O_CLOEXEC :: flags where "O_CLOEXEC \<equiv> 0x80000"

datatype io_error = OsError int | NulInName | WriteAllEof

fun error_text :: "'k std_libc \<Rightarrow> io_error \<Rightarrow> string" where
  "error_text S (OsError e) = s_strerror S e @ '' (os error '' @ show_int e @ '')''"
| "error_text S NulInName = ''file name contained an unexpected NUL byte''"
| "error_text S WriteAllEof = ''failed to write whole buffer''"

text \<open>A call returns, unwinds, or aborts the process (a panic of an \<open>extern "C"\<close> hook).\<close>

datatype 'a std_result = Returned 'a | Unwound | Aborted

text \<open>\<open>cvt_r\<close>: a result of -1 is the error in \<open>errno\<close>, and the call is repeated if that is \<open>EINTR\<close>.\<close>

partial_function (option) open_retry ::
  "'k std_libc \<Rightarrow> ('k hook_state \<Rightarrow> fd outcome \<times> 'k hook_state) \<Rightarrow> 'k hook_state \<Rightarrow>
   ((io_error + fd) std_result \<times> 'k hook_state) option" where
  "open_retry S call st =
     (case call st of
        (Panic, st) \<Rightarrow> Some (Aborted, st)
      | (Done fd, st) \<Rightarrow>
          if fd \<noteq> -1 then Some (Returned (Inr fd), st)
          else if s_errno S (kernel_of st) = EINTR then open_retry S call st
          else Some (Returned (Inl (OsError (s_errno S (kernel_of st)))), st))"

text \<open>\<open>Write::write_all\<close> on a file; \<open>&buf[n..]\<close> panics if \<open>n\<close> is beyond the end.\<close>

partial_function (option) write_all ::
  "'k std_libc \<Rightarrow> fd \<Rightarrow> string \<Rightarrow> 'k \<Rightarrow> (io_error option std_result \<times> 'k) option" where
  "write_all S fd buf k =
     (if buf = [] then Some (Returned None, k)
      else (case s_write S fd buf k of (n, k) \<Rightarrow>
              if n = -1
              then (if s_errno S k = EINTR then write_all S fd buf k
                    else Some (Returned (Some (OsError (s_errno S k))), k))
              else if n = 0 then Some (Returned (Some WriteAllEof), k)
              else if n < 0 \<or> int (length buf) < n then Some (Unwound, k)
              else write_all S fd (drop (nat n) buf) k))"

definition set_kernel :: "'k \<Rightarrow> 'k hook_state \<Rightarrow> 'k hook_state" where
  "set_kernel k st = st\<lparr>hk_vfs := (hk_vfs st)\<lparr>vfs_backend := (vfs_backend (hk_vfs st))\<lparr>kern := k\<rparr>\<rparr>\<rparr>"

text \<open>\<open>std::fs::write\<close>: \<open>File::create\<close>, \<open>write_all\<close>, and the file is dropped in any case.\<close>

definition CREATE_FLAGS :: flags where
  "CREATE_FLAGS = O_CLOEXEC OR O_WRONLY OR O_CREAT OR O_TRUNC"

definition fs_write ::
  "'k process \<Rightarrow> 'k std_libc \<Rightarrow> string \<Rightarrow> string \<Rightarrow> 'k hook_state \<Rightarrow>
   (io_error option std_result \<times> 'k hook_state) option" where
  "fs_write P S path contents st =
     (if CHR 0x00 \<in> set path then Some (Returned (Some NulInName), st)
      else do {
        (r, st) \<leftarrow> open_retry S (hook_open64 P path CREATE_FLAGS (Some 0x1B6)) st;
        (case r of
           Aborted \<Rightarrow> Some (Aborted, st)
         | Unwound \<Rightarrow> Some (Unwound, st)
         | Returned (Inl e) \<Rightarrow> Some (Returned (Some e), st)
         | Returned (Inr fd) \<Rightarrow> do {
             (r, k) \<leftarrow> write_all S fd contents (kernel_of st);
             Some (r, snd (hook_close P fd (set_kernel k st))) }) })"

section \<open>The program\<close>

text \<open>How the program ends: an exit status with what it wrote to the standard error stream, a panic
  of the main thread, or an abort.\<close>

datatype program_end = Exited int string | MainPanicked | Killed

definition file_writer ::
  "'k process \<Rightarrow> 'k std_libc \<Rightarrow> string list \<Rightarrow> 'k hook_state \<Rightarrow> (program_end \<times> 'k hook_state) option" where
  "file_writer P S args st =
     (if \<exists>a \<in> set args. \<not> env_utf8 (pr_env P) a then Some (MainPanicked, st)
      else if length args \<noteq> 3
      then (if args = [] then Some (MainPanicked, st)
            else Some (Exited 1 (''Usage: '' @ args ! 0 @ '' <string> <file>'' @ [CHR 0x0A]), st))
      else do {
        (r, st) \<leftarrow> fs_write P S (args ! 2) (args ! 1 @ [CHR 0x0A]) st;
        Some (case r of
                Returned None \<Rightarrow> Exited 0 ''''
              | Returned (Some e) \<Rightarrow> Exited 0 (''Failed to write to file: '' @ error_text S e @ [CHR 0x0A])
              | Unwound \<Rightarrow> MainPanicked
              | Aborted \<Rightarrow> Killed, st) })"

section \<open>What is relied on of the host\<close>

text \<open>
  \<open>content k q\<close> is the content of the regular file at the host path \<open>q\<close>, \<open>opened k fd\<close> the file
  that \<open>fd\<close> writes to the end of. Creating and truncating leaves an empty file, \<open>write\<close> appends as
  many of the bytes as it says, \<open>close\<close> changes no content, and no signal interrupts a call.
\<close>

definition posix_files ::
  "'k kernel \<Rightarrow> 'k std_libc \<Rightarrow> ('k \<Rightarrow> string \<Rightarrow> string option) \<Rightarrow> ('k \<Rightarrow> fd \<Rightarrow> string option) \<Rightarrow> bool" where
  "posix_files K S content opened \<longleftrightarrow>
     (\<forall>q mo k fd k'. k_open K q CREATE_FLAGS mo k = (fd, k') \<longrightarrow>
        -1 \<le> fd \<and> (fd = -1 \<longrightarrow> s_errno S k' \<noteq> EINTR) \<and>
        (fd \<noteq> -1 \<longrightarrow> content k' q = Some '''' \<and> opened k' fd = Some q)) \<and>
     (\<forall>fd bs k n k' q c. s_write S fd bs k = (n, k') \<longrightarrow> opened k fd = Some q \<longrightarrow> content k q = Some c \<longrightarrow>
        -1 \<le> n \<and> n \<le> int (length bs) \<and> (n = -1 \<longrightarrow> s_errno S k' \<noteq> EINTR) \<and>
        opened k' fd = Some q \<and> content k' q = Some (c @ take (nat n) bs)) \<and>
     (\<forall>fd k. content (snd (k_close K fd k)) = content k)"

lemma posix_open:
  assumes "posix_files K S content opened" and "k_open K q CREATE_FLAGS mo k = (fd, k')"
  shows "-1 \<le> fd" "fd = -1 \<Longrightarrow> s_errno S k' \<noteq> EINTR" "fd \<noteq> -1 \<Longrightarrow> content k' q = Some ''''"
    "fd \<noteq> -1 \<Longrightarrow> opened k' fd = Some q"
  using assms unfolding posix_files_def by blast+

lemma posix_write:
  assumes "posix_files K S content opened" and "s_write S fd bs k = (n, k')" and "opened k fd = Some q" and "content k q = Some c"
  shows "-1 \<le> n" "n \<le> int (length bs)" "n = -1 \<Longrightarrow> s_errno S k' \<noteq> EINTR" "opened k' fd = Some q"
    "content k' q = Some (c @ take (nat n) bs)"
  using assms unfolding posix_files_def by blast+

lemma posix_close: "posix_files K S content opened \<Longrightarrow> content (snd (k_close K fd k)) = content k"
  unfolding posix_files_def by blast

lemma write_all_nil [simp]: "write_all S fd '''' k = Some (Returned None, k)"
  by (simp add: write_all.simps)

lemma write_all_step:
  "bs \<noteq> [] \<Longrightarrow> s_write S fd bs k = (n, k') \<Longrightarrow> write_all S fd bs k =
     (if n = -1 then (if s_errno S k' = EINTR then write_all S fd bs k' else Some (Returned (Some (OsError (s_errno S k'))), k'))
      else if n = 0 then Some (Returned (Some WriteAllEof), k')
      else if n < 0 \<or> int (length bs) < n then Some (Unwound, k')
      else write_all S fd (drop (nat n) bs) k')"
  by (subst write_all.simps) simp

text \<open>The loop ends, with everything appended or at a call that wrote nothing.\<close>

lemma write_all_appends:
  assumes host: "posix_files K S content opened" and "opened k fd = Some q" and "content k q = Some c"
  shows "\<exists>e k'. write_all S fd bs k = Some (Returned e, k') \<and> (e = None \<longrightarrow> content k' q = Some (c @ bs)) \<and>
     (e \<noteq> None \<longrightarrow> (\<exists>cs j. suffix cs bs \<and> cs \<noteq> [] \<and> fst (s_write S fd cs j) \<le> 0))"
  using assms(2,3)
proof (induction "length bs" arbitrary: bs k c rule: less_induct)
  case less
  show ?case
  proof (cases "bs = []")
    case True
    then show ?thesis using less.prems by simp
  next
    case False
    obtain n k' where w: "s_write S fd bs k = (n, k')" by fastforce
    note p = posix_write [OF host w less.prems]
    show ?thesis
    proof (cases "n \<le> 0")
      case True
      then have "n = -1 \<or> n = 0" using p(1) by auto
      then obtain e where "write_all S fd bs k = Some (Returned (Some e), k')"
        using write_all_step [OF False w] p(3) by auto
      moreover have "suffix bs bs \<and> bs \<noteq> [] \<and> fst (s_write S fd bs k) \<le> 0" using w True False by simp
      ultimately show ?thesis by blast
    next
      case pos: False
      then have run: "write_all S fd bs k = write_all S fd (drop (nat n) bs) k'"
        using write_all_step [OF False w] p(2) by auto
      have "length (drop (nat n) bs) < length bs" using pos False by simp
      from less.hyps [OF this p(4,5)] obtain e k2 where 2: "write_all S fd (drop (nat n) bs) k' = Some (Returned e, k2)"
        "e = None \<longrightarrow> content k2 q = Some ((c @ take (nat n) bs) @ drop (nat n) bs)"
        "e \<noteq> None \<longrightarrow> (\<exists>cs j. suffix cs (drop (nat n) bs) \<and> cs \<noteq> [] \<and> fst (s_write S fd cs j) \<le> 0)"
        by blast
      have "suffix cs bs" if "suffix cs (drop (nat n) bs)" for cs
        using that suffix_drop [of "nat n" bs] suffix_order.trans by blast
      then show ?thesis using 2 unfolding run by fastforce
    qed
  qed
qed

section \<open>Below an overlay\<close>

lemma create_flags_write: "overlay_writes CREATE_FLAGS"
  by (simp add: overlay_writes_def CREATE_FLAGS_def)

text \<open>An open for writing creates what is missing of the parents and opens the path of the upper directory.\<close>

lemma overlay_create:
  fixes K :: "'k kernel"
  assumes ns: "list_all valid_name ns" and w: "mem_ok {} w"
  obtains w1 where "host_calls K {u, l} (kern w) (kern w1)"
    "fs_open_with_handle (overlay_fs_ops (overlay_new name (bind_fs_ops K u) (bind_fs_ops K l) :: ('k world, opened_file) overlay_fs))
       (names_path ns) CREATE_FLAGS mo w =
     (case k_open K (c_string (host_path u ns)) CREATE_FLAGS mo (kern w1) of (fd, k) \<Rightarrow> Done (from_fd fd, w1\<lparr>kern := k\<rparr>))"
proof -
  let ?ov = "overlay_new name (bind_fs_ops K u) (bind_fs_ops K l) :: ('k world, opened_file) overlay_fs"
  have "safe_io (confined K {u, l} (kern w) {}) handle_ok (ensure_top_parent_dirs ?ov (names_path ns))"
    by (rule overlay_confined.ensure_safe) (use ns in \<open>auto simp: normal_path_iff\<close>)
  moreover have "confined K {u, l} (kern w) {} w" using w by (simp add: confined_def)
  ultimately obtain w1 where 1: "ensure_top_parent_dirs ?ov (names_path ns) w = Done ((), w1)"
    "host_calls K {u, l} (kern w) (kern w1)"
    using safe_ioD [of "confined K {u, l} (kern w) {}" handle_ok] by (metis confined_def old.unit.exhaust)
  have "fs_open_with_handle (overlay_fs_ops ?ov) (names_path ns) CREATE_FLAGS mo w =
      (case k_open K (c_string (host_path u ns)) CREATE_FLAGS mo (kern w1) of (fd, k) \<Rightarrow> Done (from_fd fd, w1\<lparr>kern := k\<rparr>))"
    using 1(1) create_flags_write
    by (simp add: overlay_fs_ops_def overlay_open_with_handle_def overlay_new_def bind_fs_ops_def default_open_with_handle_def
        vfs_simps libc_def Let_def split: prod.split)
  then show thesis using that 1(2) by blast
qed


text \<open>The environment of the README: two directories, no in-memory file system.\<close>

definition overlay_mode :: "'k environment \<Rightarrow> 'k \<Rightarrow> string \<Rightarrow> string \<Rightarrow> bool" where
  "overlay_mode E k upper lower \<longleftrightarrow>
     env_var_os E ''SANDBOX_VFS_BACKEND'' = None \<and> env_var_os E ''SANDBOX_VFS_MEMORY_MOUNT'' = None \<and>
     required_dir_from_env E ''SANDBOX_VFS_UPPER'' k = Done upper \<and> required_dir_from_env E ''SANDBOX_VFS_LOWER'' k = Done lower"

abbreviation upper_bind :: "string \<Rightarrow> bind_fs" where
  "upper_bind upper \<equiv> \<lparr>bind_id = ''upper'', bind_root = upper\<rparr>"

abbreviation lower_bind :: "string \<Rightarrow> bind_fs" where
  "lower_bind lower \<equiv> \<lparr>bind_id = ''lower'', bind_root = lower\<rparr>"

text \<open>The host path that a path argument stands for in a new process: below the upper directory.\<close>

definition upper_target :: "string \<Rightarrow> string \<Rightarrow> string" where
  "upper_target upper p = c_string (host_path (upper_bind upper) (resolve_dots [] (path_arg p)))"

lemma overlay_mode_static:
  "overlay_mode (pr_env P) k upper lower \<Longrightarrow>
     vfs_static (pr_kernel P) (pr_env P) (boot k) = Done (overlay_root (pr_kernel P) (upper_bind upper) (lower_bind lower), boot k)"
  by (simp add: overlay_mode_def vfs_static_def env_var_def optional_absolute_path_from_env_def overlay_root_def Let_def)

lemma overlay_force:
  assumes "overlay_mode (pr_env P) k upper lower"
  shows "force_vfs P (process_start k) =
     (Done (overlay_root (pr_kernel P) (upper_bind upper) (lower_bind lower)),
      process_start k \<lparr>hk_static := Ready (overlay_root (pr_kernel P) (upper_bind upper) (lower_bind lower))\<rparr>)"
  using overlay_mode_static [OF assms] by (simp add: force_vfs_def process_start_def vfs_init_def)

lemma overlay_open64:
  assumes mode: "overlay_mode (pr_env P) k upper lower"
  obtains k1 fd k2 st where "host_calls (pr_kernel P) {upper_bind upper, lower_bind lower} k k1"
    "k_open (pr_kernel P) (upper_target upper p) CREATE_FLAGS 0x1B6 k1 = (fd, k2)"
    "hook_open64 P p CREATE_FLAGS (Some 0x1B6) (process_start k) = (Done fd, st)" "kernel_of st = k2"
    "\<exists>rv. hk_static st = Ready rv"
proof -
  let ?rv = "overlay_root (pr_kernel P) (upper_bind upper) (lower_bind lower)"
  let ?ns = "resolve_dots [] (path_arg p)" and ?v = "vfs_init (boot k) :: ('a world, opened_file) vfs_state"
  have "list_all valid_name ?ns" using resolve_dots_valid [of "[]"] wf_valid_names [OF wf_path_arg] by simp
  from overlay_create [OF this boot_ok [of k], where K = "pr_kernel P" and u = "upper_bind upper" and l = "lower_bind lower"
      and name = "''overlay''" and mo = "0x1B6"]
  obtain w1 where calls: "host_calls (pr_kernel P) {upper_bind upper, lower_bind lower} k (kern w1)"
    and open_eq: "fs_open_with_handle (rv_root ?rv) (names_path ?ns) CREATE_FLAGS 0x1B6 (boot k) =
      (case k_open (pr_kernel P) (upper_target upper p) CREATE_FLAGS 0x1B6 (kern w1) of
         (fd, k2) \<Rightarrow> Done (from_fd fd, w1\<lparr>kern := k2\<rparr>))"
    by (auto simp: overlay_root_def root_vfs_new_def upper_target_def)
  obtain fd k2 where fd: "k_open (pr_kernel P) (upper_target upper p) CREATE_FLAGS 0x1B6 (kern w1) = (fd, k2)" by fastforce
  have "dispatch ?rv ns = (RootFs, ns)" for ns
    by (cases ns rule: dispatch_cases [of ?rv]) (auto simp: overlay_root_def root_vfs_new_def mounted_def)
  then have to: "absolute_path_to_fs ?rv (names_path ?ns) = Done (RootFs, names_path ?ns)" by (simp add: to_fs_names)
  have "resolve_path ?v (path_arg p) = Done (names_path ?ns)"
    using resolve_path_names [of ?v "[]" "path_arg p"] by (simp add: vfs_init_def names_path_def names_from_def)
  then have "vfs_open ?rv (path_arg p) CREATE_FLAGS 0x1B6 ?v =
      Done (track_open (from_fd fd) (names_path ?ns) (?v\<lparr>vfs_backend := w1\<lparr>kern := k2\<rparr>\<rparr>))"
    using to open_eq fd by (simp add: vfs_open_def open_and_track_def on_backend_def fs_of_def vfs_init_def)
  moreover have "open_mode P CREATE_FLAGS (Some 0x1B6) = 0x1B6" by (simp add: open_mode_def CREATE_FLAGS_def)
  ultimately have "hook_open64 P p CREATE_FLAGS (Some 0x1B6) (process_start k) =
      (Done fd, process_start k \<lparr>hk_static := Ready ?rv,
         hk_vfs := snd (track_open (from_fd fd) (names_path ?ns) (?v\<lparr>vfs_backend := w1\<lparr>kern := k2\<rparr>\<rparr>))\<rparr>)"
    using overlay_force [OF mode] by (simp add: hook_open64_def on_vfs_def process_start_def track_open_def from_fd_def)
  then show thesis using that [OF calls fd] by (simp add: track_open_def)
qed

lemma close_kernel:
  assumes "hk_static st = Ready rv"
  shows "kernel_of (snd (hook_close P fd st)) = snd (k_close (pr_kernel P) fd (kernel_of st))"
proof -
  obtain r k where "k_close (pr_kernel P) fd (kernel_of st) = (r, k)" by fastforce
  then show ?thesis
    using assms by (simp add: hook_close_def hook_def orig_then_def host_def on_vfs_def force_vfs_def forget_fd_def Let_def)
qed

lemma set_kernel_simps [simp]: "kernel_of (set_kernel k st) = k" "hk_static (set_kernel k st) = hk_static st"
  by (simp_all add: set_kernel_def)


lemma fs_write_upper:
  assumes mode: "overlay_mode (pr_env P) k upper lower" and host: "posix_files (pr_kernel P) S content opened" and p: "CHR 0x00 \<notin> set p"
  shows "\<exists>e st'. fs_write P S p bs (process_start k) = Some (Returned e, st') \<and>
     (e = None \<and> content (kernel_of st') (upper_target upper p) = Some bs \<or>
      (\<exists>k1 k2. host_calls (pr_kernel P) {upper_bind upper, lower_bind lower} k k1 \<and>
         k_open (pr_kernel P) (upper_target upper p) CREATE_FLAGS 0x1B6 k1 = (-1, k2) \<and> e = Some (OsError (s_errno S k2))) \<or>
      (\<exists>fd cs j. e \<noteq> None \<and> suffix cs bs \<and> cs \<noteq> [] \<and> fst (s_write S fd cs j) \<le> 0))"
proof -
  from overlay_open64 [OF mode, of p] obtain k1 fd k2 st where
    calls: "host_calls (pr_kernel P) {upper_bind upper, lower_bind lower} k k1"
    and o: "k_open (pr_kernel P) (upper_target upper p) CREATE_FLAGS 0x1B6 k1 = (fd, k2)"
    and run: "hook_open64 P p CREATE_FLAGS (Some 0x1B6) (process_start k) = (Done fd, st)" "kernel_of st = k2"
    and ready: "\<exists>rv. hk_static st = Ready rv" .
  note open_host = posix_open [OF host o]
  show ?thesis
  proof (cases "fd = -1")
    case True
    then have "fs_write P S p bs (process_start k) = Some (Returned (Some (OsError (s_errno S k2))), st)"
      using run open_host(2) p by (simp add: fs_write_def open_retry.simps [of S _ "process_start k"])
    then show ?thesis using True calls o by blast
  next
    case False
    from write_all_appends [OF host open_host(4,3) [OF False], of bs] obtain e k3 where
      w: "write_all S fd bs k2 = Some (Returned e, k3)" "e = None \<longrightarrow> content k3 (upper_target upper p) = Some bs"
      "e \<noteq> None \<longrightarrow> (\<exists>cs j. suffix cs bs \<and> cs \<noteq> [] \<and> fst (s_write S fd cs j) \<le> 0)" by auto
    let ?st = "snd (hook_close P fd (set_kernel k3 st))"
    have "fs_write P S p bs (process_start k) = Some (Returned e, ?st)"
      using run w(1) False p by (simp add: fs_write_def open_retry.simps [of S _ "process_start k"])
    moreover from ready obtain rv where "hk_static (set_kernel k3 st) = Ready rv" by auto
    then have "content (kernel_of ?st) = content k3" by (simp add: close_kernel posix_close [OF host])
    ultimately show ?thesis using w(2,3) by (cases "e = None") (simp, blast)
  qed
qed

text \<open>C29: The program of the README. With the two directories configured, \<open>file_writer s p\<close> returns with
  status 0, and unless it reported an error the file that now holds exactly the line \<open>s\<close> is the one
  of the upper directory, at the path \<open>p\<close> has from the virtual root (for a relative \<open>p\<close> too,
  whatever the working directory of the process is). It reports an error only if the host
  refused to open that file, after calls of the host below the two directories only, or
  refused to write one of the last bytes of the line.\<close>

theorem file_writer_writes_upper:
  assumes "overlay_mode (pr_env P) k upper lower" and "posix_files (pr_kernel P) S content opened"
    and "env_utf8 (pr_env P) a0 \<and> env_utf8 (pr_env P) s \<and> env_utf8 (pr_env P) p" and "CHR 0x00 \<notin> set p"
  shows "\<exists>err st'. file_writer P S [a0, s, p] (process_start k) = Some (Exited 0 err, st') \<and>
     (err = '''' \<and> content (kernel_of st') (upper_target upper p) = Some (s @ [CHR 0x0A]) \<or>
      (\<exists>k1 k2. host_calls (pr_kernel P) {upper_bind upper, lower_bind lower} k k1 \<and>
         k_open (pr_kernel P) (upper_target upper p) CREATE_FLAGS 0x1B6 k1 = (-1, k2) \<and>
         err = ''Failed to write to file: '' @ error_text S (OsError (s_errno S k2)) @ [CHR 0x0A]) \<or>
      (\<exists>fd cs j e. err = ''Failed to write to file: '' @ error_text S e @ [CHR 0x0A] \<and>
         suffix cs (s @ [CHR 0x0A]) \<and> cs \<noteq> [] \<and> fst (s_write S fd cs j) \<le> 0))"
proof -
  let ?msg = "\<lambda>e. ''Failed to write to file: '' @ error_text S e @ [CHR 0x0A]"
  have run: "fs_write P S p (s @ [CHR 0x0A]) (process_start k) = Some (Returned e, st') \<Longrightarrow>
      file_writer P S [a0, s, p] (process_start k) = Some (Exited 0 (case e of None \<Rightarrow> '''' | Some e \<Rightarrow> ?msg e), st')" for e st'
    using assms(3) by (simp add: file_writer_def split: option.split)
  from fs_write_upper [OF assms(1,2,4), of "s @ [CHR 0x0A]"]
  consider (ok) st' where "fs_write P S p (s @ [CHR 0x0A]) (process_start k) = Some (Returned None, st')"
      "content (kernel_of st') (upper_target upper p) = Some (s @ [CHR 0x0A])"
    | (refused) st' k1 k2 where "host_calls (pr_kernel P) {upper_bind upper, lower_bind lower} k k1"
      "fs_write P S p (s @ [CHR 0x0A]) (process_start k) = Some (Returned (Some (OsError (s_errno S k2))), st')"
      "k_open (pr_kernel P) (upper_target upper p) CREATE_FLAGS 0x1B6 k1 = (-1, k2)"
    | (partial) st' e fd cs j where "fs_write P S p (s @ [CHR 0x0A]) (process_start k) = Some (Returned (Some e), st')"
      "suffix cs (s @ [CHR 0x0A])" "cs \<noteq> []" "fst (s_write S fd cs j) \<le> 0"
    by (metis option.exhaust)
  then show ?thesis
  proof cases
    case ok
    then show ?thesis using run [OF ok(1)] by auto
  next
    case refused
    then show ?thesis using run [OF refused(2)] unfolding option.case by blast
  next
    case partial
    then show ?thesis using run [OF partial(1)] unfolding option.case by blast
  qed
qed

text \<open>A host whose state is its files, the files behind its descriptors and the next descriptor; it
  writes at most three bytes at a time.\<close>

type_synonym demo_host = "(string \<Rightarrow> string option) \<times> (fd \<Rightarrow> string option) \<times> nat"

definition demo_open :: "string \<Rightarrow> flags \<Rightarrow> mode_t \<Rightarrow> demo_host \<Rightarrow> fd \<times> demo_host" where
  "demo_open q fl mo = (\<lambda>(fs, fds, n). (int n, fs(q \<mapsto> ''''), fds(int n \<mapsto> q), n + 1))"

definition demo_write :: "fd \<Rightarrow> string \<Rightarrow> demo_host \<Rightarrow> int \<times> demo_host" where
  "demo_write fd bs = (\<lambda>(fs, fds, n).
     (int (min 3 (length bs)),
      (case fds fd of None \<Rightarrow> fs | Some q \<Rightarrow> fs(q := map_option (\<lambda>c. c @ take 3 bs) (fs q))), fds, n))"

definition demo_kernel :: "demo_host kernel" where
  "demo_kernel =
     \<lparr>k_memfd_create = (\<lambda>_ k. (-1, k)), k_sys_openat = (\<lambda>_ _ _ _ k. (-1, k)), k_fstat = (\<lambda>_ sb k. ((0, sb), k)),
      k_fchmod = (\<lambda>_ _ k. (0, k)), k_access = (\<lambda>_ _ k. (0, k)), k_open = demo_open, k_mkdir = (\<lambda>_ _ k. (0, k)),
      k_unlink = (\<lambda>_ k. (0, k)), k_rmdir = (\<lambda>_ k. (0, k)), k_rename = (\<lambda>_ _ k. (0, k)), k_chmod = (\<lambda>_ _ k. (0, k)),
      k_stat = (\<lambda>_ sb k. ((0, sb), k)), k_close = (\<lambda>_ k. (0, k))\<rparr>"

definition demo_std :: "demo_host std_libc" where
  "demo_std = \<lparr>s_write = demo_write, s_errno = (\<lambda>_. 2), s_strerror = (\<lambda>_. ''No such file or directory'')\<rparr>"

definition quiet_next :: "'k libc_next" where
  "quiet_next =
     \<lparr>n_accessat = (\<lambda>_ _ _ _ k. (0, k)), n_lstat = (\<lambda>_ sb k. ((0, sb), k)), n_fstatat = (\<lambda>_ _ sb _ k. ((0, sb), k)),
      n_newfstatat = (\<lambda>_ _ sb _ k. ((0, sb), k)), n_fchownat = (\<lambda>_ _ _ _ _ k. (0, k)), n_lchown = (\<lambda>_ _ _ k. (0, k)),
      n_creat = (\<lambda>_ _ k. (-1, k)), n_dup = (\<lambda>_ k. (-1, k)), n_dup2 = (\<lambda>_ _ k. (-1, k)), n_dup3 = (\<lambda>_ _ _ k. (-1, k)),
      n_mkdirat = (\<lambda>_ _ _ k. (0, k)), n_unlinkat = (\<lambda>_ _ _ k. (0, k)), n_renameat = (\<lambda>_ _ _ _ k. (0, k)),
      n_renameat2 = (\<lambda>_ _ _ _ _ k. (0, k)), n_getdents64 = (\<lambda>_ b _ k. ((-1, b), k)), n_opendir = (\<lambda>_ k. (0, k)),
      n_closedir = (\<lambda>_ k. (0, k)), n_fcntl_no_arg = (\<lambda>_ _ k. (0, k)), n_fcntl_int = (\<lambda>_ _ _ k. (-1, k)),
      n_fcntl_ptr = (\<lambda>_ _ _ k. (0, k))\<rparr>"

definition demo_process :: "demo_host process" where
  "demo_process =
     \<lparr>pr_kernel = demo_kernel, pr_next = quiet_next,
      pr_env = \<lparr>env_var_os = [''SANDBOX_VFS_LOWER'' \<mapsto> ''/'', ''SANDBOX_VFS_UPPER'' \<mapsto> ''/tmp/up''], env_utf8 = (\<lambda>_. True),
                env_current_dir = Some ''/home'', env_is_dir = (\<lambda>_ _. True)\<rparr>,
      pr_hash = (\<lambda>_. 7), pr_pid = 42, pr_unpassed = 0\<rparr>"

definition demo_files :: "demo_host \<Rightarrow> string \<Rightarrow> string option" where
  "demo_files k = fst k"

definition demo_opened :: "demo_host \<Rightarrow> fd \<Rightarrow> string option" where
  "demo_opened k = fst (snd k)"

lemma demo_posix: "posix_files demo_kernel demo_std demo_files demo_opened"
  by (auto simp: posix_files_def demo_kernel_def demo_std_def demo_open_def demo_write_def demo_files_def demo_opened_def
      min_def split: prod.splits)

lemma demo_overlay_mode: "overlay_mode (pr_env demo_process) k ''/tmp/up'' ''/''"
  by (simp add: overlay_mode_def demo_process_def required_dir_from_env_def components_def List.map_filter_simps)

theorem file_writer_writes_upper_witness:
  "\<exists>st'. file_writer demo_process demo_std [''file_writer'', ''hello'', ''/sandbox/../demo.txt'']
       (process_start (\<lambda>_. None, \<lambda>_. None, 3)) = Some (Exited 0 '''', st') \<and>
     demo_files (kernel_of st') ''/tmp/up/demo.txt'' = Some (''hello'' @ [CHR 0x0A])"
proof -
  let ?P = "demo_process" and ?p = "''/sandbox/../demo.txt''"
  have K: "pr_kernel ?P = demo_kernel" by (simp add: demo_process_def)
  have host: "posix_files (pr_kernel ?P) demo_std demo_files demo_opened" unfolding K by (rule demo_posix)
  have t: "upper_target ''/tmp/up'' ?p = ''/tmp/up/demo.txt''"
    by (simp add: upper_target_def path_arg_def from_cstr_def c_string_def components_def List.map_filter_simps host_path_def
        join_bytes_def pop_def parent_path_def)
  have u: "env_utf8 (pr_env ?P) ''file_writer'' \<and> env_utf8 (pr_env ?P) ''hello'' \<and> env_utf8 (pr_env ?P) ?p"
    by (simp add: demo_process_def)
  have nul: "CHR 0x00 \<notin> set ?p" by simp
  have "fst (k_open (pr_kernel ?P) q fl mo k) \<noteq> -1" for q fl mo k
    by (simp add: K demo_kernel_def demo_open_def split: prod.split)
  moreover have "cs \<noteq> [] \<Longrightarrow> \<not> fst (s_write demo_std fd cs j) \<le> 0" for fd cs j
    by (cases cs) (simp_all add: demo_std_def demo_write_def split: prod.split)
  ultimately show ?thesis
    using file_writer_writes_upper [OF demo_overlay_mode [of "(\<lambda>_. None, \<lambda>_. None, 3)"] host u nul] unfolding t
    by (metis fst_conv)
qed


section \<open>Errors of the in-memory file system\<close>

text \<open>A call that fails without changing anything leaves \<open>cvt_r\<close> with whatever \<open>errno\<close> was.\<close>

lemma open_retry_runs_forever:
  assumes "call st = (Done (-1), st)" and "s_errno S (kernel_of st) = EINTR"
  shows "open_retry S call st = None"
proof -
  have False if run: "open_retry S call st = Some r" for r
  proof -
    have "\<not> (S = S \<and> call = call \<and> st = st)"
      by (rule open_retry.raw_induct [where P = "\<lambda>T c s r. \<not> (T = S \<and> c = call \<and> s = st)", OF _ run]) (use assms in fastforce)
    then show False by simp
  qed
  then show ?thesis by (cases "open_retry S call st") auto
qed

lemma open_retry_stale:
  assumes "call st = (Done (-1), st1)" and "call st1 = (Done (-1), st1)"
  shows "open_retry S call st =
     (if s_errno S (kernel_of st1) = EINTR then None else Some (Returned (Inl (OsError (s_errno S (kernel_of st1)))), st1))"
  using open_retry_runs_forever [of call st1 S, OF assms(2)] assms(1) by (simp add: open_retry.simps [of S call st])

text \<open>A new in-memory file system has no directory but its root.\<close>

lemma fresh_open:
  assumes new: "memory_fs_new K name (boot k) = (fs, w)" and ns: "2 \<le> length ns"
  shows "mem_open_with_handle K fs (names_path ns) fl mo w = Done (from_fd (-1), w)"
proof -
  obtain x y ys where xy: "ns = x # y # ys" using ns by (cases ns rule: remdups_adj.cases) auto
  have walk: "resolve fs (names_path (x # zs)) w = Done None" for zs
    using new by (auto simp: memory_fs_new_def boot_def fetch_add_node_id_def create_memfd_def Let_def resolve_def
        assert_absolute_def names_path_def mem_node_def btree_get_def split: prod.splits)
  have "parent_path (names_path ns) = Some (names_path (x # butlast (y # ys)))"
    by (simp add: xy path_simps)
  then have "create_node K fs (names_path ns) FileKind mo w = Done (None, w)"
    using walk by (simp add: create_node_def resolve_parent_def assert_absolute_def names_path_def)
  then have "open_node K fs (names_path ns) fl mo w = Done ((-1, None), w)"
    using walk [of "y # ys"] xy by (simp add: open_node_def assert_absolute_def open_resolved_node_def names_path_def)
  then show ?thesis by (simp add: mem_open_with_handle_def from_fd_def)
qed


lemma memory_open64_fails:
  assumes mode: "memory_mode P" and new: "memory_fs_new (pr_kernel P) ''memory'' (boot k) = (fs, w)"
    and ns: "2 \<le> length (resolve_dots [] (path_arg p))"
  defines "st1 \<equiv> process_start k \<lparr>hk_static := Ready (memory_root (pr_kernel P) fs), hk_vfs := vfs_init w\<rparr>"
  shows "hook_open64 P p CREATE_FLAGS va (process_start k) = (Done (-1), st1)"
    "hook_open64 P p CREATE_FLAGS va st1 = (Done (-1), st1)"
proof -
  have start: "force_vfs P (process_start k) = (Done (memory_root (pr_kernel P) fs), st1)"
    "force_vfs P st1 = (Done (memory_root (pr_kernel P) fs), st1)"
    using mode new by (simp_all add: force_vfs_def process_start_def vfs_init_def vfs_static_def memory_mode_def memory_root_def st1_def)
  have cwd: "vfs_cwd (vfs_init w) = names_path []" by (simp add: vfs_init_def names_path_def)
  have vfs: "hk_vfs st1 = vfs_init w" by (simp add: st1_def)
  have "vfs_open (memory_root (pr_kernel P) fs) (path_arg p) CREATE_FLAGS mo (hk_vfs st1) = Done (-1, hk_vfs st1)" for mo
    using fresh_open [OF new ns, of CREATE_FLAGS mo]
    unfolding vfs memory_open [OF cwd] by (simp add: names_from_def on_backend_def vfs_init_def track_open_def from_fd_def)
  then show "hook_open64 P p CREATE_FLAGS va (process_start k) = (Done (-1), st1)"
    "hook_open64 P p CREATE_FLAGS va st1 = (Done (-1), st1)"
    using start by (simp_all add: hook_open64_def on_vfs_def)
qed

text \<open>C30: The in-memory file system fails without setting \<open>errno\<close>. In memory mode \<open>file_writer s p\<close> with a
  path whose parent does not exist makes the host create the root's memory file and nothing else;
  the error it reports is whatever that call left in \<open>errno\<close>, not "No such file or directory", and
  if it left \<open>EINTR\<close> there the standard library repeats the failing open for ever.\<close>

theorem memory_errno_is_stale:
  assumes "memory_mode P" and "2 \<le> length (resolve_dots [] (path_arg p))" and "CHR 0x00 \<notin> set p"
    and "env_utf8 (pr_env P) a0 \<and> env_utf8 (pr_env P) s \<and> env_utf8 (pr_env P) p"
    and "k_memfd_create (pr_kernel P) ''sandbox-vfs-dir'' k = (fd, k1)"
  shows "if s_errno S k1 = EINTR then file_writer P S [a0, s, p] (process_start k) = None
     else \<exists>st'. kernel_of st' = k1 \<and> file_writer P S [a0, s, p] (process_start k) =
       Some (Exited 0 (''Failed to write to file: '' @ error_text S (OsError (s_errno S k1)) @ [CHR 0x0A]), st')"
proof -
  obtain fs w where new: "memory_fs_new (pr_kernel P) ''memory'' (boot k) = (fs, w)" by fastforce
  then have w: "kern w = k1" using assms(5)
    by (auto simp: memory_fs_new_def boot_def fetch_add_node_id_def create_memfd_def Let_def split: prod.splits)
  note fails = memory_open64_fails [OF assms(1) new assms(2), of "Some 0x1B6"]
  show ?thesis
    using open_retry_stale [OF fails, of S] w assms(3,4) by (auto simp: file_writer_def fs_write_def vfs_init_def)
qed

theorem memory_errno_is_stale_witness:
  "file_writer (sample_process ''memory'') \<lparr>s_write = (\<lambda>_ _ k. (0, k)), s_errno = (\<lambda>_. EINTR), s_strerror = (\<lambda>_. '''')\<rparr>
     [''file_writer'', ''hello'', ''/missing/f''] (process_start 3) = None"
proof -
  let ?P = "sample_process ''memory''" and ?p = "''/missing/f''"
  let ?S = "\<lparr>s_write = (\<lambda>_ _ k. (0, k)), s_errno = (\<lambda>_. EINTR), s_strerror = (\<lambda>_. '''')\<rparr> :: nat std_libc"
  have mode: "memory_mode ?P" by (simp add: memory_mode_def sample_process_def env_var_def)
  have ns: "2 \<le> length (resolve_dots [] (path_arg ?p))"
    by (simp add: path_arg_def from_cstr_def c_string_def components_def List.map_filter_simps)
  have u: "env_utf8 (pr_env ?P) ''file_writer'' \<and> env_utf8 (pr_env ?P) ''hello'' \<and> env_utf8 (pr_env ?P) ?p"
    by (simp add: sample_process_def)
  obtain fd k1 where m: "k_memfd_create (pr_kernel ?P) ''sandbox-vfs-dir'' 3 = (fd, k1)" by fastforce
  have "s_errno ?S k1 = EINTR" by simp
  then show ?thesis using memory_errno_is_stale [OF mode ns _ u m, of ?S] by simp
qed

end
